(* ===== verification/Prelude.thy ===== *)
theory Prelude
  imports Main "HOL-Library.List_Lexorder" "HOL-Library.Char_ord"
begin

text \<open>
  What every component of the development shares: the collections its proofs rewrite
  with, the error monad that models Python's exceptions, insertion-ordered dictionaries
  as association lists, and two interfaces, a state machine with an invariant and a
  codec between a model type and its serialised form.
\<close>

named_theorems err_iff \<open>when a fallible computation returns a value\<close>
named_theorems dict_simps \<open>lookup after update, keys after update\<close>

section \<open>Exceptions as sums\<close>

text \<open>A Python call that may raise returns \<open>Inl\<close> of the exception or \<open>Inr\<close> of its value.\<close>

definition bind_err :: "'e + 'a \<Rightarrow> ('a \<Rightarrow> 'e + 'b) \<Rightarrow> 'e + 'b" where
  "bind_err m f = (case m of Inl e \<Rightarrow> Inl e | Inr x \<Rightarrow> f x)"

lemma bind_err_simps [simp]:
  "bind_err (Inl e) f = Inl e"
  "bind_err (Inr x) f = f x"
  by (simp_all add: bind_err_def)

lemma bind_err_Inr_iff [err_iff]:
  "bind_err m f = Inr y \<longleftrightarrow> (\<exists>x. m = Inr x \<and> f x = Inr y)"
  by (cases m) simp_all

lemma bind_err_Inl_iff:
  "bind_err m f = Inl e \<longleftrightarrow> m = Inl e \<or> (\<exists>x. m = Inr x \<and> f x = Inl e)"
  by (cases m) simp_all

definition check_err :: "bool \<Rightarrow> 'e \<Rightarrow> 'e + unit" where
  "check_err b e = (if b then Inr () else Inl e)"

lemma check_err_simps [simp]:
  "check_err True e = Inr ()"
  "check_err False e = Inl e"
  by (simp_all add: check_err_def)

lemma check_err_Inr_iff [err_iff]: "check_err b e = Inr u \<longleftrightarrow> b"
  by (simp add: check_err_def)

lemma check_err_Inl_iff: "check_err b e = Inl e' \<longleftrightarrow> \<not> b \<and> e' = e"
  by (auto simp add: check_err_def)

lemma list_case_Inr_iff [err_iff]:
  "(case xs of [] \<Rightarrow> Inl e | x # ys \<Rightarrow> f x ys) = Inr y \<longleftrightarrow> (\<exists>x ys. xs = x # ys \<and> f x ys = Inr y)"
  by (cases xs) simp_all

lemma list_case_Inl_iff:
  "(case xs of [] \<Rightarrow> Inl e | x # ys \<Rightarrow> f x ys) = Inl d \<longleftrightarrow>
     (xs = [] \<and> e = d) \<or> (\<exists>x ys. xs = x # ys \<and> f x ys = Inl d)"
  by (cases xs) simp_all

lemma if_Inr_iff [err_iff]:
  "(if b then Inl e else m) = Inr y \<longleftrightarrow> \<not> b \<and> m = Inr y"
  "(if b then m else Inl e) = Inr y \<longleftrightarrow> b \<and> m = Inr y"
  by simp_all

lemma if_Inl_iff:
  "(if b then Inr x else Inl e) = Inl d \<longleftrightarrow> \<not> b \<and> e = d"
  "(if b then Inl e else Inr x) = Inl d \<longleftrightarrow> b \<and> e = d"
  by simp_all

text \<open>A loop whose body may raise stops at the first exception.\<close>

fun map_err :: "('a \<Rightarrow> 'e + 'b) \<Rightarrow> 'a list \<Rightarrow> 'e + 'b list" where
  "map_err f [] = Inr []"
| "map_err f (x # xs) = bind_err (f x) (\<lambda>y. bind_err (map_err f xs) (\<lambda>ys. Inr (y # ys)))"

lemma map_err_Inr_iff [err_iff]:
  "map_err f xs = Inr ys \<longleftrightarrow> list_all2 (\<lambda>x y. f x = Inr y) xs ys"
proof (induction xs arbitrary: ys)
  case Nil
  then show ?case by (cases ys) auto
next
  case (Cons x xs)
  then show ?case by (cases ys) (auto simp: bind_err_Inr_iff)
qed

fun map_opt :: "('a \<Rightarrow> 'b option) \<Rightarrow> 'a list \<Rightarrow> 'b list option" where
  "map_opt f [] = Some []"
| "map_opt f (x # xs) =
     (case f x of None \<Rightarrow> None
      | Some y \<Rightarrow> (case map_opt f xs of None \<Rightarrow> None | Some ys \<Rightarrow> Some (y # ys)))"

lemma map_opt_Some_iff:
  "map_opt f xs = Some ys \<longleftrightarrow> list_all2 (\<lambda>x y. f x = Some y) xs ys"
proof (induction xs arbitrary: ys)
  case Nil
  then show ?case by (cases ys) auto
next
  case (Cons x xs)
  then show ?case by (cases ys; cases "map_opt f xs") (auto split: option.splits)
qed

lemma map_opt_map: "(\<And>x. x \<in> set xs \<Longrightarrow> f (g x) = Some x) \<Longrightarrow> map_opt f (map g xs) = Some xs"
  by (induction xs) auto

lemma map_opt_cong [fundef_cong]:
  "xs = ys \<Longrightarrow> (\<And>x. x \<in> set ys \<Longrightarrow> f x = g x) \<Longrightarrow> map_opt f xs = map_opt g ys"
  by (induction xs arbitrary: ys) (auto split: option.splits)

section \<open>Dictionaries in insertion order\<close>

text \<open>
  A Python \<open>dict\<close> keeps its keys in insertion order; assigning to a key that is there
  replaces the value in place, a new key goes to the end, \<open>pop\<close> removes the entry.
\<close>

type_synonym ('k, 'v) dict = "('k \<times> 'v) list"

abbreviation dget :: "('k, 'v) dict \<Rightarrow> 'k \<Rightarrow> 'v option" where
  "dget d k \<equiv> map_of d k"

abbreviation dkeys :: "('k, 'v) dict \<Rightarrow> 'k list" where
  "dkeys d \<equiv> map fst d"

fun dput :: "'k \<Rightarrow> 'v \<Rightarrow> ('k, 'v) dict \<Rightarrow> ('k, 'v) dict" where
  "dput k v [] = [(k, v)]"
| "dput k v ((k', v') # d) = (if k = k' then (k, v) # d else (k', v') # dput k v d)"

definition dpop :: "'k \<Rightarrow> ('k, 'v) dict \<Rightarrow> ('k, 'v) dict" where
  "dpop k d = filter (\<lambda>p. fst p \<noteq> k) d"

definition dgetd :: "('k, 'v) dict \<Rightarrow> 'k \<Rightarrow> 'v \<Rightarrow> 'v" where
  "dgetd d k v = (case dget d k of None \<Rightarrow> v | Some x \<Rightarrow> x)"

lemma dget_dput [dict_simps, simp]: "dget (dput k v d) k' = (if k' = k then Some v else dget d k')"
  by (induction d) auto

lemma dkeys_dput: "dkeys (dput k v d) = (if k \<in> set (dkeys d) then dkeys d else dkeys d @ [k])"
  by (induction k v d rule: dput.induct) simp_all

lemma set_dkeys_dput [dict_simps, simp]: "fst ` set (dput k v d) = insert k (fst ` set d)"
  by (induction k v d rule: dput.induct) (simp_all add: insert_commute)

lemma distinct_dput [intro]: "distinct (dkeys d) \<Longrightarrow> distinct (dkeys (dput k v d))"
  by (auto simp: dkeys_dput)

lemma dget_dpop [dict_simps, simp]: "dget (dpop k d) k' = (if k' = k then None else dget d k')"
  unfolding dpop_def by (induction d) auto

lemma set_dkeys_dpop [dict_simps, simp]: "fst ` set (dpop k d) = fst ` set d - {k}"
  by (auto simp: dpop_def)

lemma distinct_dpop [intro]: "distinct (dkeys d) \<Longrightarrow> distinct (dkeys (dpop k d))"
  by (induction d) (auto simp: dpop_def)

lemma dget_Some_in: "dget d k = Some v \<Longrightarrow> (k, v) \<in> set d"
  by (rule map_of_SomeD)

lemma dget_None_iff: "dget d k = None \<longleftrightarrow> k \<notin> fst ` set d"
  by (rule map_of_eq_None_iff)

lemma dgetd_dput [simp]: "dgetd (dput k v d) k' w = (if k' = k then v else dgetd d k' w)"
  by (simp add: dgetd_def)

section \<open>A state machine and its invariant\<close>

text \<open>
  The contract of every stateful component: its operations are steps, and each keeps an
  invariant that holds initially; then every state a run reaches satisfies it.
\<close>

locale machine =
  fixes init :: "'s \<Rightarrow> bool"
    and step :: "'s \<Rightarrow> 'o \<Rightarrow> 's"
    and inv :: "'s \<Rightarrow> bool"
  assumes init_inv: "init s \<Longrightarrow> inv s"
    and step_inv: "inv s \<Longrightarrow> inv (step s a)"
begin

lemma run_inv: "inv s \<Longrightarrow> inv (fold (\<lambda>a t. step t a) as s)"
  by (induction as arbitrary: s) (auto intro: step_inv)

lemma run_from_init: "init s \<Longrightarrow> inv (fold (\<lambda>a t. step t a) as s)"
  by (rule run_inv) (rule init_inv)

end

section \<open>A codec\<close>

text \<open>
  The contract of every \<open>to_dict\<close> / \<open>from_dict\<close> pair: decoding what was encoded gives
  the value back, for the values the code writes. It lifts to lists of values, and to
  dictionaries with values of the type.
\<close>

locale codec =
  fixes enc :: "'a \<Rightarrow> 'v"
    and dec :: "'v \<Rightarrow> 'a option"
    and ok :: "'a \<Rightarrow> bool"
  assumes dec_enc: "ok x \<Longrightarrow> dec (enc x) = Some x"
begin

lemma dec_enc_list: "list_all ok xs \<Longrightarrow> map_opt dec (map enc xs) = Some xs"
  by (induction xs) (auto simp: dec_enc)

lemma enc_inj: "ok x \<Longrightarrow> ok y \<Longrightarrow> enc x = enc y \<longleftrightarrow> x = y"
  by (metis dec_enc option.inject)

lemma enc_list_inj: "list_all ok xs \<Longrightarrow> list_all ok ys \<Longrightarrow> map enc xs = map enc ys \<longleftrightarrow> xs = ys"
  using dec_enc_list by (metis option.inject)

end

end
