(* ===== verification/PyText.thy ===== *)
theory PyText
  imports Prelude
begin

text \<open>
  Python text. A \<open>string\<close> is a list of code points below 256, so the character classes
  below are Python's on that range: \<open>str.isspace\<close> (also the regular expressions'
  \<open>\s\<close>), \<open>\w\<close>, \<open>\d\<close> and \<open>str.isdigit\<close>, with the operations the code calls on
  strings (\<open>strip\<close>, \<open>rstrip\<close>, \<open>lstrip\<close>, \<open>startswith\<close>, \<open>split\<close>, \<open>find\<close>, \<open>int\<close>).
\<close>

section \<open>Character classes\<close>

definition code :: "char \<Rightarrow> nat" where
  "code c = of_char c"

definition py_space :: "char \<Rightarrow> bool" where
  "py_space c = (let n = code c in (9 \<le> n \<and> n \<le> 13) \<or> (28 \<le> n \<and> n \<le> 32) \<or> n = 133 \<or> n = 160)"

definition ascii_digit :: "char \<Rightarrow> bool" where
  "ascii_digit c = (let n = code c in 48 \<le> n \<and> n \<le> 57)"

definition ascii_letter :: "char \<Rightarrow> bool" where
  "ascii_letter c = (let n = code c in (65 \<le> n \<and> n \<le> 90) \<or> (97 \<le> n \<and> n \<le> 122))"

text \<open>\<open>str.isdigit\<close>: also the superscripts two, three and one.\<close>

definition py_digit :: "char \<Rightarrow> bool" where
  "py_digit c = (ascii_digit c \<or> code c \<in> {178, 179, 185})"

text \<open>The regular expressions' \<open>\w\<close>: letters, digits, numeric signs, underscore.\<close>

definition word_char :: "char \<Rightarrow> bool" where
  "word_char c = (let n = code c in ascii_letter c \<or> ascii_digit c \<or> n = 95
     \<or> n \<in> {170, 178, 179, 181, 185, 186, 188, 189, 190}
     \<or> (192 \<le> n \<and> n \<noteq> 215 \<and> n \<noteq> 247))"

definition ascii_upper :: "char \<Rightarrow> char" where
  "ascii_upper c = (let n = code c in if 97 \<le> n \<and> n \<le> 122 then char_of (n - 32) else c)"

definition ascii_lower :: "char \<Rightarrow> char" where
  "ascii_lower c = (let n = code c in if 65 \<le> n \<and> n \<le> 90 then char_of (n + 32) else c)"

lemma digit_not_space: "ascii_digit c \<Longrightarrow> \<not> py_space c"
  by (auto simp: ascii_digit_def py_space_def Let_def)

lemma digit_word: "ascii_digit c \<Longrightarrow> word_char c"
  by (simp add: word_char_def Let_def)

lemma word_not_space: "word_char c \<Longrightarrow> \<not> py_space c"
  by (auto simp: word_char_def py_space_def ascii_letter_def ascii_digit_def Let_def)

section \<open>Strings\<close>

definition lstrip :: "string \<Rightarrow> string" where
  "lstrip s = dropWhile py_space s"

definition rstrip :: "string \<Rightarrow> string" where
  "rstrip s = rev (dropWhile py_space (rev s))"

definition strip :: "string \<Rightarrow> string" where
  "strip s = rstrip (lstrip s)"

definition starts_with :: "string \<Rightarrow> string \<Rightarrow> bool" where
  "starts_with s p = (take (length p) s = p)"

definition ends_with :: "string \<Rightarrow> string \<Rightarrow> bool" where
  "ends_with s p = (length p \<le> length s \<and> drop (length s - length p) s = p)"

text \<open>\<open>p in s\<close> for strings.\<close>

fun contains :: "string \<Rightarrow> string \<Rightarrow> bool" where
  "contains [] p = (p = [])"
| "contains (c # cs) p = (starts_with (c # cs) p \<or> contains cs p)"

text \<open>\<open>s.split(sep)\<close> for a single separator character, and \<open>s.split()\<close> on white space.\<close>

fun split_on :: "char \<Rightarrow> string \<Rightarrow> string list" where
  "split_on sep [] = [[]]"
| "split_on sep (c # cs) =
     (if c = sep then [] # split_on sep cs
      else (case split_on sep cs of [] \<Rightarrow> [[c]] | w # ws \<Rightarrow> (c # w) # ws))"

fun split_ws_acc :: "string \<Rightarrow> string \<Rightarrow> string list" where
  "split_ws_acc w [] = (if w = [] then [] else [rev w])"
| "split_ws_acc w (c # cs) =
     (if py_space c then (if w = [] then split_ws_acc [] cs else rev w # split_ws_acc [] cs)
      else split_ws_acc (c # w) cs)"

definition split_ws :: "string \<Rightarrow> string list" where
  "split_ws s = split_ws_acc [] s"

lemma starts_with_append [simp]: "starts_with (p @ s) p"
  by (simp add: starts_with_def)

lemma starts_with_iff: "starts_with s p \<longleftrightarrow> (\<exists>r. s = p @ r)"
  by (auto simp: starts_with_def) (metis append_take_drop_id)

lemma contains_iff: "contains s p \<longleftrightarrow> (\<exists>a b. s = a @ p @ b)"
proof (induction s)
  case Nil
  then show ?case by auto
next
  case (Cons c cs)
  show ?case
  proof
    assume "contains (c # cs) p"
    then consider "starts_with (c # cs) p" | "contains cs p" by auto
    then show "\<exists>a b. c # cs = a @ p @ b"
    proof cases
      case 1
      then show ?thesis by (auto simp: starts_with_iff intro: exI [of _ "[]"])
    next
      case 2
      with Cons.IH obtain a b where "cs = a @ p @ b" by blast
      then have "c # cs = (c # a) @ p @ b" by simp
      then show ?thesis by blast
    qed
  next
    assume "\<exists>a b. c # cs = a @ p @ b"
    then obtain a b where ab: "c # cs = a @ p @ b" by blast
    show "contains (c # cs) p"
    proof (cases a)
      case Nil
      with ab have "starts_with (c # cs) p" by (auto simp: starts_with_iff)
      then show ?thesis by simp
    next
      case (Cons x xs)
      with ab have "cs = xs @ p @ b" by simp
      with Cons.IH show ?thesis by auto
    qed
  qed
qed

lemma strip_idle:
  assumes "s = [] \<or> (\<not> py_space (hd s) \<and> \<not> py_space (last s))"
  shows "strip s = s"
proof (cases "s = []")
  case True
  then show ?thesis by (simp add: strip_def lstrip_def rstrip_def)
next
  case False
  with assms have h: "\<not> py_space (hd s)" and l: "\<not> py_space (last s)" by auto
  have "dropWhile py_space s = s"
    using False h by (cases s) auto
  moreover have "dropWhile py_space (rev s) = rev s"
    using False l by (cases "rev s") (auto simp: last_rev hd_rev [symmetric])
  ultimately show ?thesis by (simp add: strip_def lstrip_def rstrip_def)
qed

lemma set_strip: "set (strip s) \<subseteq> set s"
  by (auto simp: strip_def lstrip_def rstrip_def dest!: set_dropWhileD)

section \<open>Numbers in decimal\<close>

definition digit_val :: "char \<Rightarrow> nat" where
  "digit_val c = code c - 48"

definition digits_val :: "string \<Rightarrow> nat" where
  "digits_val s = foldl (\<lambda>n c. 10 * n + digit_val c) 0 s"

definition digit_char :: "nat \<Rightarrow> char" where
  "digit_char n = char_of (48 + n)"

fun show_nat :: "nat \<Rightarrow> string" where
  "show_nat n = (if n < 10 then [digit_char n] else show_nat (n div 10) @ [digit_char (n mod 10)])"

declare show_nat.simps [simp del]

lemma digit_char_val: "n < 10 \<Longrightarrow> digit_val (digit_char n) = n \<and> ascii_digit (digit_char n)"
  by (simp add: digit_val_def digit_char_def ascii_digit_def code_def Let_def)

lemma show_nat_digits: "list_all ascii_digit (show_nat n) \<and> show_nat n \<noteq> []"
proof (induction n rule: show_nat.induct)
  case (1 n)
  then show ?case by (subst (1 2) show_nat.simps) (simp add: digit_char_val)
qed

lemma digits_val_show: "digits_val (show_nat n) = n"
proof (induction n rule: show_nat.induct)
  case (1 n)
  show ?case
  proof (cases "n < 10")
    case True
    then show ?thesis by (subst show_nat.simps) (simp add: digits_val_def digit_char_val)
  next
    case False
    with 1 show ?thesis
      by (subst show_nat.simps) (simp add: digits_val_def digit_char_val)
  qed
qed

text \<open>The longest prefix of digits, of word characters, and the rest.\<close>

fun take_digits :: "string \<Rightarrow> string \<times> string" where
  "take_digits [] = ([], [])"
| "take_digits (c # cs) =
     (if ascii_digit c then (let (ds, r) = take_digits cs in (c # ds, r)) else ([], c # cs))"

fun take_word :: "string \<Rightarrow> string \<times> string" where
  "take_word [] = ([], [])"
| "take_word (c # cs) =
     (if word_char c then (let (w, r) = take_word cs in (c # w, r)) else ([], c # cs))"

lemma take_digits_le: "length (snd (take_digits s)) \<le> length s"
  by (induction s) (auto simp: Let_def split: prod.splits)

lemma take_word_le: "length (snd (take_word s)) \<le> length s"
  by (induction s) (auto simp: Let_def split: prod.splits)

lemma take_word_append:
  "list_all word_char w \<Longrightarrow> r = [] \<or> \<not> word_char (hd r) \<Longrightarrow> take_word (w @ r) = (w, r)"
proof (induction w)
  case Nil
  then show ?case by (cases r) auto
qed auto

lemma take_digits_append:
  "list_all ascii_digit w \<Longrightarrow> r = [] \<or> \<not> ascii_digit (hd r) \<Longrightarrow> take_digits (w @ r) = (w, r)"
proof (induction w)
  case Nil
  then show ?case by (cases r) auto
qed auto

text \<open>
  \<open>int(s)\<close>: white space around, a sign, digits with single underscores between them.
  \<open>None\<close> is the \<open>ValueError\<close>.
\<close>

fun underscores_ok :: "char \<Rightarrow> string \<Rightarrow> bool" where
  "underscores_ok prev [] = (prev \<noteq> CHR ''_'')"
| "underscores_ok prev (c # cs) =
     ((if c = CHR ''_'' then ascii_digit prev
       else prev \<noteq> CHR ''_'' \<or> ascii_digit c) \<and> underscores_ok c cs)"

definition no_underscores :: "string \<Rightarrow> string option" where
  "no_underscores s =
     (if underscores_ok (CHR '' '') s then Some (filter (\<lambda>c. c \<noteq> CHR ''_'') s) else None)"

fun split_sign :: "string \<Rightarrow> bool \<times> string" where
  "split_sign [] = (False, [])"
| "split_sign (c # cs) =
     (if c = CHR ''-'' then (True, cs) else if c = CHR ''+'' then (False, cs) else (False, c # cs))"

definition py_int :: "string \<Rightarrow> int option" where
  "py_int s =
     (let (neg, t) = split_sign (strip s)
      in case no_underscores t of
           None \<Rightarrow> None
         | Some ds \<Rightarrow>
             (if ds \<noteq> [] \<and> list_all ascii_digit ds
              then Some (if neg then - int (digits_val ds) else int (digits_val ds))
              else None))"

end
