(* ===== verification/PyFloat.thy ===== *)
theory PyFloat
  imports PyText Complex_Main
begin

text \<open>
  Python's \<open>float\<close> as far as the repository uses it: parsing a decimal literal into the
  nearest IEEE binary64 number (\<open>float(s)\<close>, round half to even, overflow to infinity) and
  the comparisons. A finite number is \<open>Fin m e\<close>, with the value m times 2 to the e.
\<close>

section \<open>Values and comparison\<close>

datatype pyfloat = Fin int int | PosInf | NegInf | NaN

text \<open>Both mantissas at the smaller exponent.\<close>

definition align :: "int \<Rightarrow> int \<Rightarrow> int \<Rightarrow> int" where
  "align m e e' = m * 2 ^ nat (e - min e e')"

fun float_le :: "pyfloat \<Rightarrow> pyfloat \<Rightarrow> bool" where
  "float_le NaN _ = False"
| "float_le _ NaN = False"
| "float_le NegInf _ = True"
| "float_le _ PosInf = True"
| "float_le (Fin m e) (Fin m' e') = (align m e e' \<le> align m' e' e)"
| "float_le PosInf _ = False"
| "float_le (Fin _ _) NegInf = False"

fun float_lt :: "pyfloat \<Rightarrow> pyfloat \<Rightarrow> bool" where
  "float_lt NaN _ = False"
| "float_lt _ NaN = False"
| "float_lt _ NegInf = False"
| "float_lt PosInf _ = False"
| "float_lt NegInf _ = True"
| "float_lt (Fin _ _) PosInf = True"
| "float_lt (Fin m e) (Fin m' e') = (align m e e' < align m' e' e)"

definition float_eq :: "pyfloat \<Rightarrow> pyfloat \<Rightarrow> bool" where
  "float_eq a b = (float_le a b \<and> float_le b a)"

definition float_real :: "int \<Rightarrow> int \<Rightarrow> real" where
  "float_real m e = real_of_int m * 2 powi e"

lemma align_real: "real_of_int (align m e e') * 2 powi (min e e') = float_real m e"
proof -
  have "(2::real) ^ nat (e - min e e') * 2 powi (min e e') = 2 powi (e - min e e') * 2 powi (min e e')"
    by (simp add: power_int_def)
  also have "\<dots> = 2 powi e"
    by (simp add: power_int_add [symmetric])
  finally show ?thesis
    by (simp add: align_def float_real_def mult.assoc)
qed

lemma align_le_iff: "align m e e' \<le> align m' e' e \<longleftrightarrow> float_real m e \<le> float_real m' e'"
proof -
  have pos: "(0::real) < 2 powi (min e e')" by simp
  have "align m e e' \<le> align m' e' e \<longleftrightarrow>
      real_of_int (align m e e') * 2 powi (min e e') \<le> real_of_int (align m' e' e) * 2 powi (min e e')"
    using pos by simp
  then show ?thesis
    using align_real [of m e e'] align_real [of m' e' e] by (simp add: min.commute)
qed

lemma align_less_iff: "align m e e' < align m' e' e \<longleftrightarrow> float_real m e < float_real m' e'"
  using align_le_iff [of m' e' e m] by (simp add: not_le [symmetric])

lemma float_lt_iff_not_le:
  "a \<noteq> NaN \<Longrightarrow> b \<noteq> NaN \<Longrightarrow> float_lt a b \<longleftrightarrow> \<not> float_le b a"
  by (cases a; cases b) (auto simp: not_le)

lemma float_le_total: "a \<noteq> NaN \<Longrightarrow> b \<noteq> NaN \<Longrightarrow> float_le a b \<or> float_le b a"
  by (cases a; cases b) (auto simp: align_le_iff)

lemma float_le_trans: "float_le a b \<Longrightarrow> float_le b c \<Longrightarrow> float_le a c"
  by (cases a; cases b; cases c) (auto simp: align_le_iff)

lemma float_nan [simp]: "\<not> float_le a NaN" "\<not> float_lt a NaN"
  by (cases a; simp)+

section \<open>The nearest binary64 number of a fraction\<close>

fun bitlen :: "nat \<Rightarrow> nat" where
  "bitlen n = (if n = 0 then 0 else Suc (bitlen (n div 2)))"

declare bitlen.simps [simp del]

definition rhe :: "nat \<Rightarrow> nat \<Rightarrow> nat" where
  \<comment> \<open>round n / d to the nearest integer, ties to even\<close>
  "rhe n d = (let q = n div d; r = n mod d
     in if 2 * r < d then q else if d < 2 * r then q + 1 else if even q then q else q + 1)"

definition scale_num :: "nat \<Rightarrow> int \<Rightarrow> nat" where
  "scale_num n e = n * 2 ^ nat (- e)"

definition scale_den :: "nat \<Rightarrow> int \<Rightarrow> nat" where
  "scale_den d e = d * 2 ^ nat e"

definition ilog2 :: "nat \<Rightarrow> nat \<Rightarrow> int" where
  \<comment> \<open>the floor of the binary logarithm of n / d\<close>
  "ilog2 n d = (let k = int (bitlen n) - int (bitlen d)
     in if scale_den d k \<le> scale_num n k then k else k - 1)"

definition float_of_frac :: "nat \<Rightarrow> nat \<Rightarrow> pyfloat" where
  "float_of_frac n d =
     (if n = 0 then Fin 0 (-1074)
      else let k = ilog2 n d; e = max (k - 52) (-1074); m = rhe (scale_num n e) (scale_den d e)
           in if 1023 < k \<or> (e = 971 \<and> m = 2 ^ 53) then PosInf else Fin (int m) e)"

fun float_neg :: "pyfloat \<Rightarrow> pyfloat" where
  "float_neg (Fin m e) = Fin (- m) e"
| "float_neg PosInf = NegInf"
| "float_neg NegInf = PosInf"
| "float_neg NaN = NaN"

lemma rhe_mono:
  assumes d: "0 < d" and le: "n \<le> n'"
  shows "rhe n d \<le> rhe n' d"
proof (cases "n div d = n' div d")
  case True
  with le have "n mod d \<le> n' mod d"
    by (metis add_le_cancel_left div_mult_mod_eq)
  with True show ?thesis by (auto simp: rhe_def Let_def)
next
  case False
  with le have "n div d + 1 \<le> n' div d"
    using div_le_mono [of n n' d] by simp
  then show ?thesis by (auto simp: rhe_def Let_def)
qed

lemma rhe_exact: "0 < d \<Longrightarrow> rhe (q * d) d = q"
  by (simp add: rhe_def)

section \<open>Parsing \<open>float(s)\<close>\<close>

definition parse_exponent :: "string \<Rightarrow> int option" where
  \<comment> \<open>nothing, or e with an optional sign and digits up to the end\<close>
  "parse_exponent s =
     (case s of
        [] \<Rightarrow> Some 0
      | c # cs \<Rightarrow>
          (if c = CHR ''e'' \<or> c = CHR ''E''
           then (let (neg, r) = split_sign cs
                 in if r \<noteq> [] \<and> list_all ascii_digit r
                    then Some (if neg then - int (digits_val r) else int (digits_val r))
                    else None)
           else None))"

definition parse_decimal :: "string \<Rightarrow> pyfloat option" where
  "parse_decimal s =
     (let (ip, r) = take_digits s;
          (fp, r') = (case r of
                        [] \<Rightarrow> ([], [])
                      | c # cs \<Rightarrow> if c = CHR ''.'' then take_digits cs else ([], c # cs))
      in if ip = [] \<and> fp = [] then None
         else (case parse_exponent r' of
                 None \<Rightarrow> None
               | Some x \<Rightarrow>
                   (let n = digits_val (ip @ fp); y = x - int (length fp)
                    in Some (if 0 \<le> y then float_of_frac (n * 10 ^ nat y) 1
                             else float_of_frac n (10 ^ nat (- y))))))"

definition py_float :: "string \<Rightarrow> pyfloat option" where
  "py_float s =
     (case no_underscores (strip s) of
        None \<Rightarrow> None
      | Some t \<Rightarrow>
          (let (neg, u) = split_sign t; w = map ascii_lower u;
               r = (if w = ''inf'' \<or> w = ''infinity'' then Some PosInf
                    else if w = ''nan'' then Some NaN else parse_decimal u)
           in map_option (\<lambda>f. if neg then float_neg f else f) r))"

section \<open>Integers below 2 to the 53 are exact\<close>

lemma bitlen_le: "n < 2 ^ k \<Longrightarrow> bitlen n \<le> k"
proof (induction k arbitrary: n)
  case 0
  then show ?case by (simp add: bitlen.simps)
next
  case (Suc k)
  show ?case
  proof (cases "n = 0")
    case True
    then show ?thesis by (simp add: bitlen.simps)
  next
    case False
    from Suc.prems have "n div 2 < 2 ^ k" by (simp add: less_mult_imp_div_less mult.commute)
    then have "bitlen (n div 2) \<le> k" by (rule Suc.IH)
    with False show ?thesis by (subst bitlen.simps) simp
  qed
qed

lemma bitlen_1: "bitlen (Suc 0) = 1"
  by (simp add: bitlen.simps)

lemma bitlen_pos: "0 < n \<Longrightarrow> 0 < bitlen n"
  by (subst bitlen.simps) simp

lemma ilog2_nat_bounds:
  assumes "0 < n" and "n < 2 ^ 53"
  shows "ilog2 n 1 \<le> 52" and "- 1 \<le> ilog2 n 1"
  using bitlen_le [OF assms(2)] bitlen_pos [OF assms(1)]
  by (auto simp: ilog2_def Let_def bitlen_1)

lemma float_of_nat:
  assumes "n < 2 ^ 53"
  shows "\<exists>m e. float_of_frac n 1 = Fin m e \<and> float_real m e = real n"
proof (cases "n = 0")
  case True
  then show ?thesis by (simp add: float_of_frac_def float_real_def)
next
  case False
  define e where "e = max (ilog2 n 1 - 52) (- 1074)"
  have b: "ilog2 n 1 \<le> 52" "- 1 \<le> ilog2 n 1" using ilog2_nat_bounds False assms by auto
  then have e: "e = ilog2 n 1 - 52" "e \<le> 0" by (auto simp: e_def)
  have "float_of_frac n 1 = Fin (int (rhe (n * 2 ^ nat (- e)) 1)) e"
    using False b e by (simp add: float_of_frac_def Let_def e_def [symmetric] scale_num_def scale_den_def)
  moreover have "float_real (int (rhe (n * 2 ^ nat (- e)) 1)) e = real n"
  proof -
    have "(2::real) ^ nat (- e) * 2 powi e = 1"
      using e(2) by (simp add: power_int_def field_simps)
    then show ?thesis using rhe_exact [of 1 "n * 2 ^ nat (- e)"]
      by (simp add: float_real_def mult.assoc)
  qed
  ultimately show ?thesis by blast
qed

lemma take_digits_all: "list_all ascii_digit s \<Longrightarrow> take_digits s = (s, [])"
  by (induction s) auto

lemma digit_facts:
  assumes "ascii_digit c"
  shows "c \<noteq> CHR ''_''" "c \<noteq> CHR ''-''" "c \<noteq> CHR ''+''" "c \<noteq> CHR ''i''" "c \<noteq> CHR ''n''"
    "ascii_lower c = c"
  using assms by (auto simp: ascii_digit_def ascii_lower_def code_def Let_def)

lemma no_underscores_digits: "list_all ascii_digit s \<Longrightarrow> no_underscores s = Some s"
proof -
  assume s: "list_all ascii_digit s"
  have "underscores_ok p s" if "p \<noteq> CHR ''_''" for p
    using s that by (induction s arbitrary: p) (auto simp: digit_facts)
  moreover have "filter (\<lambda>c. c \<noteq> CHR ''_'') s = s"
    using s by (induction s) (auto simp: digit_facts)
  ultimately show ?thesis by (simp add: no_underscores_def)
qed

lemma strip_digits: "list_all ascii_digit s \<Longrightarrow> strip s = s"
  by (rule strip_idle) (cases s; auto simp: list_all_iff dest: digit_not_space last_in_set)

lemma py_float_digits:
  assumes "list_all ascii_digit s" and "s \<noteq> []"
  shows "py_float s = Some (float_of_frac (digits_val s) 1)"
proof -
  obtain c cs where s: "s = c # cs" "ascii_digit c" using assms by (cases s) auto
  have "split_sign s = (False, s)" using s by (simp add: digit_facts)
  moreover have "map ascii_lower s = s" using assms(1) by (induction s) (auto simp: digit_facts)
  moreover have "s \<noteq> ''inf''" "s \<noteq> ''infinity''" "s \<noteq> ''nan''" using s by (auto simp: digit_facts)
  moreover have "parse_decimal s = Some (float_of_frac (digits_val s) 1)"
    using assms by (simp add: parse_decimal_def take_digits_all parse_exponent_def)
  ultimately show ?thesis
    using assms by (simp add: py_float_def strip_digits no_underscores_digits)
qed

lemma py_int_digits:
  assumes "list_all ascii_digit s" and "s \<noteq> []"
  shows "py_int s = Some (int (digits_val s))"
proof -
  obtain c cs where s: "s = c # cs" "ascii_digit c" using assms by (cases s) auto
  then have "split_sign s = (False, s)" by (simp add: digit_facts)
  then show ?thesis using assms by (simp add: py_int_def strip_digits no_underscores_digits)
qed

end
