(* ===== verification/ConditionParser.thy ===== *)
theory ConditionParser
  imports PyFloat
begin

text \<open>
  \<open>src/workflow/condition_parser.py\<close>: the comparison operators, the lexer, the recursive
  descent parser of compound conditions and \<open>evaluate_condition\<close>. The parser works on the
  tokens still to be read (the code keeps an index into the list); its recursion spends
  fuel, and \<open>parse_total\<close> shows that the fuel \<open>evaluate_compound\<close> gives is enough.
  Python's own recursion limit is not modelled.
\<close>

section \<open>Comparison operators\<close>

datatype cmp_op = NE | EQ | GE | LE | GT | LT

definition ord_cmp :: "cmp_op \<Rightarrow> bool \<Rightarrow> bool \<Rightarrow> bool \<Rightarrow> bool \<Rightarrow> bool" where
  "ord_cmp op ge le gt lt =
     (if op = GE then ge else if op = LE then le else if op = GT then gt else lt)"

definition numeric_cmp :: "string \<Rightarrow> string \<Rightarrow> cmp_op \<Rightarrow> bool" where
  "numeric_cmp a b op =
     (case (py_float a, py_float b) of
        (Some na, Some nb) \<Rightarrow>
          ord_cmp op (float_le nb na) (float_le na nb) (float_lt nb na) (float_lt na nb)
      | _ \<Rightarrow>
          (let sa = strip a; sb = strip b
           in ord_cmp op (sb \<le> sa) (sa \<le> sb) (sb < sa) (sa < sb)))"

fun apply_op :: "cmp_op \<Rightarrow> string \<Rightarrow> string \<Rightarrow> bool" where
  "apply_op NE a b = (a \<noteq> b)"
| "apply_op EQ a b = (a = b)"
| "apply_op op a b = numeric_cmp a b op"

text \<open>The operator that starts a text, in the order of the regular expression's alternatives.\<close>

fun op_prefix :: "string \<Rightarrow> (cmp_op \<times> string) option" where
  "op_prefix (c # d # r) =
     (if c = CHR ''!'' \<and> d = CHR ''='' then Some (NE, r)
      else if c = CHR ''='' \<and> d = CHR ''='' then Some (EQ, r)
      else if c = CHR ''>'' \<and> d = CHR ''='' then Some (GE, r)
      else if c = CHR ''<'' \<and> d = CHR ''='' then Some (LE, r)
      else if c = CHR ''>'' then Some (GT, d # r)
      else if c = CHR ''<'' then Some (LT, d # r) else None)"
| "op_prefix [c] =
     (if c = CHR ''>'' then Some (GT, []) else if c = CHR ''<'' then Some (LT, []) else None)"
| "op_prefix [] = None"

lemma op_prefix_shorter: "op_prefix s = Some (op, r) \<Longrightarrow> length r < length s"
  by (induction s rule: op_prefix.induct) (auto split: if_splits)

section \<open>Tokens and lexer\<close>

datatype token_type = NUMBER | STRING | OP cmp_op | AND | OR | NOT | LPAREN | RPAREN | EOF

record token =
  ttype :: token_type
  tvalue :: string
  tpos :: nat

definition mk_token :: "token_type \<Rightarrow> string \<Rightarrow> nat \<Rightarrow> token" where
  "mk_token t v p = \<lparr>ttype = t, tvalue = v, tpos = p\<rparr>"

lemma mk_token_simps [simp]:
  "ttype (mk_token t v p) = t" "tvalue (mk_token t v p) = v" "tpos (mk_token t v p) = p"
  by (simp_all add: mk_token_def)

fun op_text :: "cmp_op \<Rightarrow> string" where
  "op_text NE = ''!=''"
| "op_text EQ = ''==''"
| "op_text GE = ''>=''"
| "op_text LE = ''<=''"
| "op_text GT = ''>''"
| "op_text LT = ''<''"

text \<open>The text up to a closing quote and what follows the quote.\<close>

fun until :: "char \<Rightarrow> string \<Rightarrow> (string \<times> string) option" where
  "until q [] = None"
| "until q (c # cs) =
     (if c = q then Some ([], cs)
      else (case until q cs of None \<Rightarrow> None | Some (w, r) \<Rightarrow> Some (c # w, r)))"

definition number_token :: "string \<Rightarrow> string \<times> string" where
  \<comment> \<open>digits, and a fraction where a point is followed by a digit\<close>
  "number_token s =
     (let (ip, r) = take_digits s
      in case r of
           c # cs \<Rightarrow>
             (if c = CHR ''.'' \<and> fst (take_digits cs) \<noteq> []
              then (ip @ c # fst (take_digits cs), snd (take_digits cs)) else (ip, r))
         | [] \<Rightarrow> (ip, []))"

definition word_token :: "string \<Rightarrow> nat \<Rightarrow> token" where
  "word_token w p =
     (let u = map ascii_upper w
      in if u = ''AND'' then mk_token AND u p
         else if u = ''OR'' then mk_token OR u p
         else if u = ''NOT'' then mk_token NOT u p
         else mk_token STRING w p)"

definition word_start :: "char \<Rightarrow> bool" where
  "word_start c = (ascii_letter c \<or> c = CHR ''_'')"

text \<open>One match of the token pattern at a character that is not white space.\<close>

definition lex_one :: "char \<Rightarrow> string \<Rightarrow> nat \<Rightarrow> token \<times> string" where
  "lex_one c cs p =
     (if ascii_digit c then
        (let (n, r) = number_token (c # cs) in (mk_token NUMBER n p, r))
      else if c = CHR 0x22 \<and> until c cs \<noteq> None then
        (let (w, r) = the (until c cs) in (mk_token STRING w p, r))
      else if c = CHR 0x27 \<and> until c cs \<noteq> None then
        (let (w, r) = the (until c cs) in (mk_token STRING w p, r))
      else (case op_prefix (c # cs) of
              Some (op, r) \<Rightarrow> (mk_token (OP op) (op_text op) p, r)
            | None \<Rightarrow>
                (if word_start c then
                   (let (w, r) = take_word cs in (word_token (c # w) p, r))
                 else if c = CHR ''('' then (mk_token LPAREN [c] p, cs)
                 else if c = CHR '')'' then (mk_token RPAREN [c] p, cs)
                 else (mk_token STRING [c] p, cs))))"

lemma until_le: "until q s = Some (w, r) \<Longrightarrow> length r < length s"
  by (induction s arbitrary: w) (auto split: if_splits option.splits)

lemma number_token_lt:
  assumes "ascii_digit c"
  shows "length (snd (number_token (c # cs))) \<le> length cs"
proof -
  obtain ip r where td: "take_digits cs = (ip, r)" by (cases "take_digits cs")
  then have "length r \<le> length cs" using take_digits_le [of cs] by simp
  moreover have "x # xs = r \<Longrightarrow> length (snd (take_digits xs)) \<le> length r" for x xs
    using take_digits_le [of xs] by auto
  ultimately show ?thesis
    using assms td by (auto simp: number_token_def split: list.splits intro: order_trans)
qed

lemma lex_one_le: "length (snd (lex_one c cs p)) \<le> length cs"
proof -
  have 1: "op_prefix (c # cs) = Some (op, r) \<Longrightarrow> length r \<le> length cs" for op r
    using op_prefix_shorter [of "c # cs" op r] by simp
  have 2: "until c cs \<noteq> None \<Longrightarrow> length (snd (the (until c cs))) \<le> length cs"
    using until_le [of c cs] by force
  show ?thesis
    using number_token_lt [of c cs] take_word_le [of cs] 1 2
    by (cases "op_prefix (c # cs)") (auto simp: lex_one_def Let_def split_beta)
qed

text \<open>
  \<open>finditer\<close>: the pattern skips white space; the token's position is where its match,
  leading white space included, starts.
\<close>

function lex_from :: "nat \<Rightarrow> string \<Rightarrow> nat \<Rightarrow> token list" where
  "lex_from len s start =
     (case s of
        [] \<Rightarrow> [mk_token EOF [] len]
      | c # cs \<Rightarrow>
          (if py_space c then lex_from len cs start
           else fst (lex_one c cs start)
             # lex_from len (snd (lex_one c cs start)) (len - length (snd (lex_one c cs start)))))"
  by pat_completeness auto
termination
  by (relation "measure (\<lambda>(len, s, start). length s)") (auto simp: le_imp_less_Suc lex_one_le)

declare lex_from.simps [simp del]

lemma lex_from_simps [simp]:
  "lex_from len [] st = [mk_token EOF [] len]"
  "py_space c \<Longrightarrow> lex_from len (c # cs) st = lex_from len cs st"
  "\<not> py_space c \<Longrightarrow> lex_from len (c # cs) st =
     fst (lex_one c cs st) # lex_from len (snd (lex_one c cs st)) (len - length (snd (lex_one c cs st)))"
  by (simp_all add: lex_from.simps)

definition lex_tokens :: "string \<Rightarrow> token list" where
  "lex_tokens s = lex_from (length s) s 0"

section \<open>Parser\<close>

datatype parse_error =
    Expected token_type token_type nat
  | ExpectedValue token_type nat
  | ExpectedOp token_type string nat
  | ExtraInput token_type nat
  | MissingParen token_type nat
  | OutOfTokens
  | OutOfFuel

type_synonym presult = "parse_error + bool \<times> token list"

fun is_value :: "token_type \<Rightarrow> bool" where
  "is_value NUMBER = True"
| "is_value STRING = True"
| "is_value _ = False"

text \<open>\<open>self._cur\<close> past the end of the list raises an \<open>IndexError\<close>, here \<open>OutOfTokens\<close>.\<close>

fun comparison :: "token list \<Rightarrow> presult" where
  "comparison [] = Inl OutOfTokens"
| "comparison (l # ts) =
     (if \<not> is_value (ttype l) then Inl (ExpectedValue (ttype l) (tpos l))
      else (case ts of
              [] \<Rightarrow> Inl OutOfTokens
            | opt # ts' \<Rightarrow>
                (case ttype opt of
                   OP op \<Rightarrow>
                     (case ts' of
                        [] \<Rightarrow> Inl OutOfTokens
                      | r # rest \<Rightarrow>
                          (if \<not> is_value (ttype r) then Inl (ExpectedValue (ttype r) (tpos r))
                           else Inr (apply_op op (tvalue l) (tvalue r), rest)))
                 | t \<Rightarrow> Inl (ExpectedOp t (tvalue opt) (tpos opt)))))"

definition next_is :: "token_type \<Rightarrow> token list \<Rightarrow> bool" where
  "next_is t ts = (case ts of [] \<Rightarrow> False | x # _ \<Rightarrow> ttype x = t)"

fun expr :: "nat \<Rightarrow> token list \<Rightarrow> presult"
  and or_expr :: "nat \<Rightarrow> token list \<Rightarrow> presult"
  and or_loop :: "nat \<Rightarrow> bool \<Rightarrow> token list \<Rightarrow> presult"
  and and_expr :: "nat \<Rightarrow> token list \<Rightarrow> presult"
  and and_loop :: "nat \<Rightarrow> bool \<Rightarrow> token list \<Rightarrow> presult"
  and unary_expr :: "nat \<Rightarrow> token list \<Rightarrow> presult"
  and primary :: "nat \<Rightarrow> token list \<Rightarrow> presult" where
  "expr 0 ts = Inl OutOfFuel"
| "expr (Suc n) ts = or_expr n ts"
| "or_expr 0 ts = Inl OutOfFuel"
| "or_expr (Suc n) ts = bind_err (and_expr n ts) (\<lambda>(left, ts'). or_loop n left ts')"
| "or_loop 0 left ts = Inl OutOfFuel"
| "or_loop (Suc n) left ts =
     (case ts of
        [] \<Rightarrow> Inl OutOfTokens
      | t # ts' \<Rightarrow>
          (if ttype t = OR
           then bind_err (and_expr n ts') (\<lambda>(right, ts''). or_loop n (left \<or> right) ts'')
           else Inr (left, ts)))"
| "and_expr 0 ts = Inl OutOfFuel"
| "and_expr (Suc n) ts = bind_err (unary_expr n ts) (\<lambda>(left, ts'). and_loop n left ts')"
| "and_loop 0 left ts = Inl OutOfFuel"
| "and_loop (Suc n) left ts =
     (case ts of
        [] \<Rightarrow> Inl OutOfTokens
      | t # ts' \<Rightarrow>
          (if ttype t = AND
           then bind_err (unary_expr n ts') (\<lambda>(right, ts''). and_loop n (left \<and> right) ts'')
           else Inr (left, ts)))"
| "unary_expr 0 ts = Inl OutOfFuel"
| "unary_expr (Suc n) ts =
     (case ts of
        [] \<Rightarrow> Inl OutOfTokens
      | t # ts' \<Rightarrow>
          (if ttype t = NOT
           then bind_err (unary_expr n ts') (\<lambda>(b, ts''). Inr (\<not> b, ts''))
           else primary n ts))"
| "primary 0 ts = Inl OutOfFuel"
| "primary (Suc n) ts =
     (case ts of
        [] \<Rightarrow> Inl OutOfTokens
      | t # ts' \<Rightarrow>
          (if ttype t = LPAREN
           then bind_err (expr n ts') (\<lambda>(b, ts'').
                  case ts'' of
                    [] \<Rightarrow> Inl OutOfTokens
                  | r # rest \<Rightarrow>
                      (if ttype r = RPAREN then Inr (b, rest)
                       else Inl (MissingParen (ttype r) (tpos r))))
           else comparison ts))"

definition parse :: "nat \<Rightarrow> token list \<Rightarrow> parse_error + bool" where
  "parse fuel ts =
     bind_err (expr fuel ts) (\<lambda>(b, rest).
       case rest of
         [] \<Rightarrow> Inl OutOfTokens
       | t # _ \<Rightarrow> (if ttype t = EOF then Inr b else Inl (ExtraInput (ttype t) (tpos t))))"

section \<open>\<open>evaluate_condition\<close>\<close>

datatype condition_error =
    EmptyCondition
  | SimpleFormat string
  | CompoundError string parse_error

text \<open>A keyword as a word of its own: after the start or white space, before white space or the end.\<close>

definition keyword_at :: "string \<Rightarrow> bool" where
  "keyword_at s =
     list_ex (\<lambda>k. map ascii_upper (take (length k) s) = k \<and>
       (case drop (length k) s of [] \<Rightarrow> True | c # _ \<Rightarrow> py_space c)) [''AND'', ''OR'', ''NOT'']"

fun keyword_after_space :: "string \<Rightarrow> bool" where
  "keyword_after_space [] = False"
| "keyword_after_space (c # cs) = ((py_space c \<and> keyword_at cs) \<or> keyword_after_space cs)"

definition is_compound :: "string \<Rightarrow> bool" where
  "is_compound s = (keyword_at s \<or> keyword_after_space s)"

text \<open>\<open>_SIMPLE_OP_RE.split(s, maxsplit=1)\<close>: the text before and after the first operator.\<close>

fun split_op :: "string \<Rightarrow> (string \<times> cmp_op \<times> string) option" where
  "split_op [] = None"
| "split_op (c # cs) =
     (case op_prefix (c # cs) of
        Some (op, r) \<Rightarrow> Some ([], op, r)
      | None \<Rightarrow> (case split_op cs of None \<Rightarrow> None | Some (l, op, r) \<Rightarrow> Some (c # l, op, r)))"

definition evaluate_simple :: "string \<Rightarrow> condition_error + bool" where
  "evaluate_simple s =
     (case split_op s of
        None \<Rightarrow> Inl (SimpleFormat s)
      | Some (l, op, r) \<Rightarrow> Inr (apply_op op (strip l) (strip r)))"

definition parse_fuel :: "token list \<Rightarrow> nat" where
  "parse_fuel ts = 6 * length ts + 6"

definition evaluate_compound :: "string \<Rightarrow> condition_error + bool" where
  "evaluate_compound s =
     (case parse (parse_fuel (lex_tokens s)) (lex_tokens s) of
        Inl e \<Rightarrow> Inl (CompoundError s e)
      | Inr b \<Rightarrow> Inr b)"

definition evaluate_condition :: "string \<Rightarrow> condition_error + bool" where
  "evaluate_condition expression =
     (let s = strip expression
      in if s = [] then Inl EmptyCondition
         else if is_compound s then evaluate_compound s
         else evaluate_simple s)"

section \<open>The grammar of compound conditions\<close>

inductive g_or :: "token list \<Rightarrow> bool \<Rightarrow> bool"
  and g_or_tail :: "bool \<Rightarrow> token list \<Rightarrow> bool \<Rightarrow> bool"
  and g_and :: "token list \<Rightarrow> bool \<Rightarrow> bool"
  and g_and_tail :: "bool \<Rightarrow> token list \<Rightarrow> bool \<Rightarrow> bool"
  and g_unary :: "token list \<Rightarrow> bool \<Rightarrow> bool"
  and g_primary :: "token list \<Rightarrow> bool \<Rightarrow> bool" where
  or_expr: "g_and us b \<Longrightarrow> g_or_tail b vs c \<Longrightarrow> g_or (us @ vs) c"
| or_done: "g_or_tail b [] b"
| or_more: "ttype t = OR \<Longrightarrow> g_and us c \<Longrightarrow> g_or_tail (b \<or> c) vs d \<Longrightarrow> g_or_tail b (t # us @ vs) d"
| and_expr: "g_unary us b \<Longrightarrow> g_and_tail b vs c \<Longrightarrow> g_and (us @ vs) c"
| and_done: "g_and_tail b [] b"
| and_more: "ttype t = AND \<Longrightarrow> g_unary us c \<Longrightarrow> g_and_tail (b \<and> c) vs d \<Longrightarrow> g_and_tail b (t # us @ vs) d"
| not_expr: "ttype t = NOT \<Longrightarrow> g_unary us b \<Longrightarrow> g_unary (t # us) (\<not> b)"
| unary_primary: "g_primary us b \<Longrightarrow> g_unary us b"
| paren: "ttype l = LPAREN \<Longrightarrow> g_or us b \<Longrightarrow> ttype r = RPAREN \<Longrightarrow> g_primary (l # us @ [r]) b"
| compare: "is_value (ttype l) \<Longrightarrow> ttype opt = OP op \<Longrightarrow> is_value (ttype r) \<Longrightarrow>
     g_primary [l, opt, r] (apply_op op (tvalue l) (tvalue r))"

section \<open>The parser returns\<close>

text \<open>
  A parse step on a list that holds the end marker: it does not run out of tokens, it
  consumes at least (loops: at most) so much, and it keeps the end marker.
\<close>

definition has_eof :: "token list \<Rightarrow> bool" where
  "has_eof ts = (\<exists>t \<in> set ts. ttype t = EOF)"

definition good :: "nat \<Rightarrow> token list \<Rightarrow> presult \<Rightarrow> bool" where
  "good k ts r = (r \<noteq> Inl OutOfFuel \<and> (has_eof ts \<longrightarrow> r \<noteq> Inl OutOfTokens) \<and>
     (\<forall>b rest. r = Inr (b, rest) \<longrightarrow> length rest + k \<le> length ts \<and> (has_eof ts \<longrightarrow> has_eof rest)))"

lemma has_eof_simps [simp]:
  "\<not> has_eof []"
  "has_eof (t # ts) \<longleftrightarrow> ttype t = EOF \<or> has_eof ts"
  by (auto simp: has_eof_def)

lemma good_Inl [simp]: "good k ts (Inl e) \<longleftrightarrow> e \<noteq> OutOfFuel \<and> (has_eof ts \<longrightarrow> e \<noteq> OutOfTokens)"
  by (simp add: good_def)

lemma good_Inr [simp]:
  "good k ts (Inr (b, rest)) \<longleftrightarrow> length rest + k \<le> length ts \<and> (has_eof ts \<longrightarrow> has_eof rest)"
  by (simp add: good_def)

lemma good_bind:
  assumes m: "good k ts m"
    and f: "\<And>b rest. length rest + k \<le> length ts \<Longrightarrow> (has_eof ts \<Longrightarrow> has_eof rest) \<Longrightarrow> good j rest (f (b, rest))"
    and us: "length ts + i \<le> length us + k + j" "has_eof us \<Longrightarrow> has_eof ts"
  shows "good i us (bind_err m f)"
proof (cases m)
  case (Inl e)
  with m us show ?thesis by simp
next
  case (Inr p)
  obtain b rest where p: "p = (b, rest)" by (cases p)
  with m Inr have le: "length rest + k \<le> length ts" and e: "has_eof ts \<Longrightarrow> has_eof rest" by auto
  from f [OF le e] have g: "good j rest (f (b, rest))" .
  show ?thesis
  proof (cases "f (b, rest)")
    case (Inl x)
    with g Inr p us e show ?thesis by simp
  next
    case (Inr q)
    obtain c rest' where "q = (c, rest')" by (cases q)
    with g Inr \<open>m = Inr p\<close> p us e le show ?thesis by simp
  qed
qed

lemma comparison_good: "good 1 ts (comparison ts)"
proof (cases ts rule: comparison.cases)
  case 1
  then show ?thesis by simp
next
  case (2 l us)
  then show ?thesis
    by (cases us; cases "tl us") (auto split: token_type.splits)
qed

lemma parser_good:
  "(6 * length ts + 5 \<le> n \<longrightarrow> good 1 ts (expr n ts)) \<and>
   (6 * length ts + 4 \<le> n \<longrightarrow> good 1 ts (or_expr n ts)) \<and>
   (6 * length ts + 3 \<le> n \<longrightarrow> (\<forall>b. good 0 ts (or_loop n b ts))) \<and>
   (6 * length ts + 3 \<le> n \<longrightarrow> good 1 ts (and_expr n ts)) \<and>
   (6 * length ts + 2 \<le> n \<longrightarrow> (\<forall>b. good 0 ts (and_loop n b ts))) \<and>
   (6 * length ts + 2 \<le> n \<longrightarrow> good 1 ts (unary_expr n ts)) \<and>
   (6 * length ts + 1 \<le> n \<longrightarrow> good 1 ts (primary n ts))"
proof (induction n arbitrary: ts)
  case 0
  then show ?case by simp
next
  case (Suc n)
  note IH = Suc.IH
  have "good 1 ts (expr (Suc n) ts)" if "6 * length ts + 5 \<le> Suc n"
    using that IH [of ts] by simp
  moreover have "good 1 ts (or_expr (Suc n) ts)" if "6 * length ts + 4 \<le> Suc n"
    using that IH by (auto intro!: good_bind [where k = 1 and j = 0 and ts = ts])
  moreover have "good 0 ts (or_loop (Suc n) b ts)" if "6 * length ts + 3 \<le> Suc n" for b
    using that IH
    by (cases ts) (auto intro!: good_bind [where k = 1 and j = 0 and ts = "tl ts"])
  moreover have "good 1 ts (and_expr (Suc n) ts)" if "6 * length ts + 3 \<le> Suc n"
    using that IH by (auto intro!: good_bind [where k = 1 and j = 0 and ts = ts])
  moreover have "good 0 ts (and_loop (Suc n) b ts)" if "6 * length ts + 2 \<le> Suc n" for b
    using that IH
    by (cases ts) (auto intro!: good_bind [where k = 1 and j = 0 and ts = "tl ts"])
  moreover have "good 1 ts (unary_expr (Suc n) ts)" if "6 * length ts + 2 \<le> Suc n"
    using that IH
    by (cases ts) (auto intro!: good_bind [where k = 1 and j = 0 and ts = "tl ts"])
  moreover have "good 1 ts (primary (Suc n) ts)" if "6 * length ts + 1 \<le> Suc n"
  proof (cases ts)
    case Nil
    then show ?thesis by simp
  next
    case (Cons t us)
    then have "good 1 us (expr n us)" using that IH [of us] by auto
    then have "good 1 ts (bind_err (expr n us) (\<lambda>(b, ts''). case ts'' of [] \<Rightarrow> Inl OutOfTokens
        | r # rest \<Rightarrow> if ttype r = RPAREN then Inr (b, rest) else Inl (MissingParen (ttype r) (tpos r))))"
      if "ttype t = LPAREN"
      using Cons that
      by (elim good_bind [where j = 0]) (auto split: list.splits)
    then show ?thesis using Cons comparison_good [of ts] by simp
  qed
  ultimately show ?case by blast
qed

section \<open>The parser decides the grammar\<close>

lemma comparison_sound:
  "comparison ts = Inr (b, rest) \<Longrightarrow> \<exists>us. ts = us @ rest \<and> g_primary us b"
proof (cases ts rule: comparison.cases)
  case (2 l us)
  moreover assume "comparison ts = Inr (b, rest)"
  ultimately obtain opt op r where "us = opt # r # rest" "is_value (ttype l)" "ttype opt = OP op"
      "is_value (ttype r)" "b = apply_op op (tvalue l) (tvalue r)"
    by (auto split: list.splits token_type.splits if_splits)
  with 2 show ?thesis by (intro exI [of _ "[l, opt, r]"]) (auto intro: compare)
qed auto

lemma parser_sound:
  "(\<forall>b rest. expr n ts = Inr (b, rest) \<longrightarrow> (\<exists>us. ts = us @ rest \<and> g_or us b)) \<and>
   (\<forall>b rest. or_expr n ts = Inr (b, rest) \<longrightarrow> (\<exists>us. ts = us @ rest \<and> g_or us b)) \<and>
   (\<forall>a b rest. or_loop n a ts = Inr (b, rest) \<longrightarrow> (\<exists>us. ts = us @ rest \<and> g_or_tail a us b)) \<and>
   (\<forall>b rest. and_expr n ts = Inr (b, rest) \<longrightarrow> (\<exists>us. ts = us @ rest \<and> g_and us b)) \<and>
   (\<forall>a b rest. and_loop n a ts = Inr (b, rest) \<longrightarrow> (\<exists>us. ts = us @ rest \<and> g_and_tail a us b)) \<and>
   (\<forall>b rest. unary_expr n ts = Inr (b, rest) \<longrightarrow> (\<exists>us. ts = us @ rest \<and> g_unary us b)) \<and>
   (\<forall>b rest. primary n ts = Inr (b, rest) \<longrightarrow> (\<exists>us. ts = us @ rest \<and> g_primary us b))"
proof (induction n arbitrary: ts)
  case 0
  then show ?case by simp
next
  case (Suc n)
  have oe: "or_expr n ts = Inr (b, rest) \<Longrightarrow> \<exists>us. ts = us @ rest \<and> g_or us b"
    and ol: "or_loop n a ts = Inr (b, rest) \<Longrightarrow> \<exists>us. ts = us @ rest \<and> g_or_tail a us b"
    and ae: "and_expr n ts = Inr (b, rest) \<Longrightarrow> \<exists>us. ts = us @ rest \<and> g_and us b"
    and al: "and_loop n a ts = Inr (b, rest) \<Longrightarrow> \<exists>us. ts = us @ rest \<and> g_and_tail a us b"
    and ue: "unary_expr n ts = Inr (b, rest) \<Longrightarrow> \<exists>us. ts = us @ rest \<and> g_unary us b"
    and pr: "primary n ts = Inr (b, rest) \<Longrightarrow> \<exists>us. ts = us @ rest \<and> g_primary us b"
    and ex: "expr n ts = Inr (b, rest) \<Longrightarrow> \<exists>us. ts = us @ rest \<and> g_or us b" for a b rest ts
    using Suc.IH by blast+
  have "\<exists>us. ts = us @ rest \<and> g_or us b" if "or_expr (Suc n) ts = Inr (b, rest)" for b rest
    using that by (auto simp: bind_err_Inr_iff dest!: ae ol) (metis append.assoc or_expr)
  moreover have "\<exists>us. ts = us @ rest \<and> g_and us b" if "and_expr (Suc n) ts = Inr (b, rest)" for b rest
    using that by (auto simp: bind_err_Inr_iff dest!: ue al) (metis append.assoc and_expr)
  moreover have "\<exists>us. ts = us @ rest \<and> g_or_tail a us b" if "or_loop (Suc n) a ts = Inr (b, rest)" for a b rest
  proof (cases ts)
    case (Cons t us)
    show ?thesis
    proof (cases "ttype t = OR")
      case True
      with that Cons obtain c us' where "and_expr n us = Inr (c, us')" "or_loop n (a \<or> c) us' = Inr (b, rest)"
        by (auto simp: bind_err_Inr_iff)
      then obtain xs ys where "us = xs @ us'" "g_and xs c" "us' = ys @ rest" "g_or_tail (a \<or> c) ys b"
        using ae ol by blast
      with True Cons show ?thesis by (intro exI [of _ "t # xs @ ys"]) (auto intro: or_more)
    qed (use that Cons in \<open>auto intro: or_done\<close>)
  qed (use that in simp)
  moreover have "\<exists>us. ts = us @ rest \<and> g_and_tail a us b" if "and_loop (Suc n) a ts = Inr (b, rest)" for a b rest
  proof (cases ts)
    case (Cons t us)
    show ?thesis
    proof (cases "ttype t = AND")
      case True
      with that Cons obtain c us' where "unary_expr n us = Inr (c, us')" "and_loop n (a \<and> c) us' = Inr (b, rest)"
        by (auto simp: bind_err_Inr_iff)
      then obtain xs ys where "us = xs @ us'" "g_unary xs c" "us' = ys @ rest" "g_and_tail (a \<and> c) ys b"
        using ue al by blast
      with True Cons show ?thesis by (intro exI [of _ "t # xs @ ys"]) (auto intro: and_more)
    qed (use that Cons in \<open>auto intro: and_done\<close>)
  qed (use that in simp)
  moreover have "\<exists>us. ts = us @ rest \<and> g_unary us b" if "unary_expr (Suc n) ts = Inr (b, rest)" for b rest
  proof (cases ts)
    case (Cons t us)
    show ?thesis
    proof (cases "ttype t = NOT")
      case True
      with that Cons obtain c xs where "us = xs @ rest" "g_unary xs c" "b = (\<not> c)"
        by (auto simp: bind_err_Inr_iff dest!: ue)
      with True Cons show ?thesis by (intro exI [of _ "t # xs"]) (auto intro: not_expr)
    next
      case False
      with that Cons have "primary n ts = Inr (b, rest)" by simp
      then show ?thesis by (blast dest: pr intro: unary_primary)
    qed
  qed (use that in simp)
  moreover have "\<exists>us. ts = us @ rest \<and> g_primary us b" if "primary (Suc n) ts = Inr (b, rest)" for b rest
  proof (cases ts)
    case (Cons t us)
    show ?thesis
    proof (cases "ttype t = LPAREN")
      case True
      with that Cons obtain c us' where us': "expr n us = Inr (c, us')"
        and "(case us' of [] \<Rightarrow> Inl OutOfTokens | r # rest \<Rightarrow> if ttype r = RPAREN then Inr (c, rest)
             else Inl (MissingParen (ttype r) (tpos r))) = Inr (b, rest)"
        by (auto simp: bind_err_Inr_iff)
      then obtain r where "expr n us = Inr (b, us')" "us' = r # rest" "ttype r = RPAREN"
        by (cases us') (auto split: if_splits)
      then obtain xs where "us = xs @ r # rest" "g_or xs b" using ex by blast
      with True Cons \<open>ttype r = RPAREN\<close> show ?thesis
        by (intro exI [of _ "t # xs @ [r]"]) (auto intro: paren)
    next
      case False
      with that Cons have "comparison ts = Inr (b, rest)" by simp
      then show ?thesis by (rule comparison_sound)
    qed
  qed (use that in simp)
  ultimately show ?case using oe by auto
qed

definition lookahead :: "token_type set \<Rightarrow> token list \<Rightarrow> bool" where
  "lookahead no rest = (case rest of [] \<Rightarrow> False | t # _ \<Rightarrow> ttype t \<notin> no)"

lemma lookahead_Cons [simp]: "lookahead no (t # ts) \<longleftrightarrow> ttype t \<notin> no"
  by (simp add: lookahead_def)

lemma or_tail_start: "g_or_tail a vs b \<Longrightarrow> lookahead {OR, AND} rest \<Longrightarrow> lookahead {AND} (vs @ rest)"
  by (erule g_or_tail.cases) (auto simp: lookahead_def split: list.splits)

lemma and_tail_start: "g_and_tail a vs b \<Longrightarrow> lookahead {AND} rest \<Longrightarrow> rest \<noteq> []"
  by (auto simp: lookahead_def)

definition eventually_parses :: "(nat \<Rightarrow> presult) \<Rightarrow> bool \<times> token list \<Rightarrow> bool" where
  "eventually_parses f r = (\<exists>N. \<forall>n \<ge> N. f n = Inr r)"

lemma eventually_Suc: "eventually_parses (\<lambda>n. f (Suc n)) r \<Longrightarrow> eventually_parses f r"
  unfolding eventually_parses_def by (metis Suc_le_D Suc_le_mono)

lemma eventually_bind:
  assumes "eventually_parses f (b, ts)" and "eventually_parses (\<lambda>n. g n (b, ts)) r"
  shows "eventually_parses (\<lambda>n. bind_err (f n) (g n)) r"
proof -
  from assms obtain M N where "\<forall>n \<ge> M. f n = Inr (b, ts)" "\<forall>n \<ge> N. g n (b, ts) = Inr r"
    by (auto simp: eventually_parses_def)
  then have "\<forall>n \<ge> max M N. bind_err (f n) (g n) = Inr r" by simp
  then show ?thesis unfolding eventually_parses_def by blast
qed

lemma eventually_const [simp]: "eventually_parses (\<lambda>n. Inr r) r"
  by (simp add: eventually_parses_def)

lemma grammar_complete:
  "g_or us1 b1 \<Longrightarrow> (\<forall>rest. lookahead {OR, AND} rest \<longrightarrow> eventually_parses (\<lambda>n. or_expr n (us1 @ rest)) (b1, rest))"
  "g_or_tail a2 us2 b2 \<Longrightarrow> (\<forall>rest. lookahead {OR, AND} rest \<longrightarrow> eventually_parses (\<lambda>n. or_loop n a2 (us2 @ rest)) (b2, rest))"
  "g_and us3 b3 \<Longrightarrow> (\<forall>rest. lookahead {AND} rest \<longrightarrow> eventually_parses (\<lambda>n. and_expr n (us3 @ rest)) (b3, rest))"
  "g_and_tail a4 us4 b4 \<Longrightarrow> (\<forall>rest. lookahead {AND} rest \<longrightarrow> eventually_parses (\<lambda>n. and_loop n a4 (us4 @ rest)) (b4, rest))"
  "g_unary us5 b5 \<Longrightarrow> (\<forall>rest. eventually_parses (\<lambda>n. unary_expr n (us5 @ rest)) (b5, rest))"
  "g_primary us6 b6 \<Longrightarrow> (\<forall>rest. eventually_parses (\<lambda>n. primary n (us6 @ rest)) (b6, rest)) \<and>
     (\<exists>t ts. us6 = t # ts \<and> ttype t \<noteq> NOT)"
proof (induction rule: g_or_g_or_tail_g_and_g_and_tail_g_unary_g_primary.inducts)
  case (or_expr us b vs c)
  show ?case
  proof (intro allI impI, rule eventually_Suc)
    fix rest assume "lookahead {OR, AND} rest"
    with or_expr show "eventually_parses (\<lambda>n. or_expr (Suc n) ((us @ vs) @ rest)) (c, rest)"
      by (auto intro!: eventually_bind dest: or_tail_start)
  qed
next
  case (or_done b)
  show ?case
    by (intro allI impI, rule eventually_Suc) (auto simp: lookahead_def split: list.splits)
next
  case (or_more t us c b vs d)
  show ?case
  proof (intro allI impI, rule eventually_Suc)
    fix rest assume "lookahead {OR, AND} rest"
    with or_more show "eventually_parses (\<lambda>n. or_loop (Suc n) b ((t # us @ vs) @ rest)) (d, rest)"
      by (auto intro!: eventually_bind dest: or_tail_start)
  qed
next
  case (and_expr us b vs c)
  show ?case
  proof (intro allI impI, rule eventually_Suc)
    fix rest assume "lookahead {AND} rest"
    with and_expr show "eventually_parses (\<lambda>n. and_expr (Suc n) ((us @ vs) @ rest)) (c, rest)"
      by (auto intro!: eventually_bind)
  qed
next
  case (and_done b)
  show ?case
    by (intro allI impI, rule eventually_Suc) (auto simp: lookahead_def split: list.splits)
next
  case (and_more t us c b vs d)
  show ?case
  proof (intro allI impI, rule eventually_Suc)
    fix rest assume "lookahead {AND} rest"
    with and_more show "eventually_parses (\<lambda>n. and_loop (Suc n) b ((t # us @ vs) @ rest)) (d, rest)"
      by (auto intro!: eventually_bind)
  qed
next
  case (not_expr t us b)
  show ?case
  proof (intro allI, rule eventually_Suc)
    fix rest
    from not_expr show "eventually_parses (\<lambda>n. unary_expr (Suc n) ((t # us) @ rest)) (\<not> b, rest)"
      by (auto intro!: eventually_bind)
  qed
next
  case (unary_primary us b)
  then obtain t ts where us: "us = t # ts" "ttype t \<noteq> NOT" by blast
  show ?case
  proof (intro allI, rule eventually_Suc)
    fix rest
    from unary_primary us show "eventually_parses (\<lambda>n. unary_expr (Suc n) (us @ rest)) (b, rest)"
      by simp
  qed
next
  case (paren l us b r)
  have e: "eventually_parses (\<lambda>n. expr n (us @ r # rest)) (b, r # rest)" for rest
  proof (rule eventually_Suc)
    from paren show "eventually_parses (\<lambda>n. expr (Suc n) (us @ r # rest)) (b, r # rest)" by simp
  qed
  have "eventually_parses (\<lambda>n. primary n ((l # us @ [r]) @ rest)) (b, rest)" for rest
  proof (rule eventually_Suc)
    show "eventually_parses (\<lambda>n. primary (Suc n) ((l # us @ [r]) @ rest)) (b, rest)"
      using paren e [of rest] by (auto intro!: eventually_bind)
  qed
  with paren show ?case by simp
next
  case (compare l opt op r)
  then have l: "ttype l \<noteq> LPAREN" "ttype l \<noteq> NOT" by auto
  have "eventually_parses (\<lambda>n. primary n ([l, opt, r] @ rest)) (apply_op op (tvalue l) (tvalue r), rest)" for rest
  proof (rule eventually_Suc)
    show "eventually_parses (\<lambda>n. primary (Suc n) ([l, opt, r] @ rest)) (apply_op op (tvalue l) (tvalue r), rest)"
      using compare l by simp
  qed
  with l show ?case by simp
qed

lemma bind_fuel_step:
  assumes "bind_err m f \<noteq> Inl OutOfFuel" and "m \<noteq> Inl OutOfFuel \<Longrightarrow> m' = m"
    and "\<And>x. f x \<noteq> Inl OutOfFuel \<Longrightarrow> f' x = f x"
  shows "bind_err m' f' = bind_err m f"
  using assms by (cases m) auto

lemma parser_fuel_step:
  "(expr n ts \<noteq> Inl OutOfFuel \<longrightarrow> expr (Suc n) ts = expr n ts) \<and>
   (or_expr n ts \<noteq> Inl OutOfFuel \<longrightarrow> or_expr (Suc n) ts = or_expr n ts) \<and>
   (\<forall>a. or_loop n a ts \<noteq> Inl OutOfFuel \<longrightarrow> or_loop (Suc n) a ts = or_loop n a ts) \<and>
   (and_expr n ts \<noteq> Inl OutOfFuel \<longrightarrow> and_expr (Suc n) ts = and_expr n ts) \<and>
   (\<forall>a. and_loop n a ts \<noteq> Inl OutOfFuel \<longrightarrow> and_loop (Suc n) a ts = and_loop n a ts) \<and>
   (unary_expr n ts \<noteq> Inl OutOfFuel \<longrightarrow> unary_expr (Suc n) ts = unary_expr n ts) \<and>
   (primary n ts \<noteq> Inl OutOfFuel \<longrightarrow> primary (Suc n) ts = primary n ts)"
proof (induction n arbitrary: ts)
  case 0
  then show ?case by simp
next
  case (Suc n)
  have IH: "expr n ts \<noteq> Inl OutOfFuel \<Longrightarrow> expr (Suc n) ts = expr n ts"
    "or_expr n ts \<noteq> Inl OutOfFuel \<Longrightarrow> or_expr (Suc n) ts = or_expr n ts"
    "or_loop n a ts \<noteq> Inl OutOfFuel \<Longrightarrow> or_loop (Suc n) a ts = or_loop n a ts"
    "and_expr n ts \<noteq> Inl OutOfFuel \<Longrightarrow> and_expr (Suc n) ts = and_expr n ts"
    "and_loop n a ts \<noteq> Inl OutOfFuel \<Longrightarrow> and_loop (Suc n) a ts = and_loop n a ts"
    "unary_expr n ts \<noteq> Inl OutOfFuel \<Longrightarrow> unary_expr (Suc n) ts = unary_expr n ts"
    "primary n ts \<noteq> Inl OutOfFuel \<Longrightarrow> primary (Suc n) ts = primary n ts" for ts a
    using Suc.IH by auto
  have "or_expr (Suc (Suc n)) ts = or_expr (Suc n) ts" if "or_expr (Suc n) ts \<noteq> Inl OutOfFuel"
    using that unfolding or_expr.simps(2) [of n ts] or_expr.simps(2) [of "Suc n" ts]
    by (rule bind_fuel_step) (auto simp del: expr.simps or_expr.simps or_loop.simps and_expr.simps simp: IH split: prod.splits)
  moreover have "and_expr (Suc (Suc n)) ts = and_expr (Suc n) ts" if "and_expr (Suc n) ts \<noteq> Inl OutOfFuel"
    using that unfolding and_expr.simps(2) [of n ts] and_expr.simps(2) [of "Suc n" ts]
    by (rule bind_fuel_step) (auto simp del: and_expr.simps and_loop.simps unary_expr.simps simp: IH split: prod.splits)
  moreover have "or_loop (Suc (Suc n)) a ts = or_loop (Suc n) a ts" if "or_loop (Suc n) a ts \<noteq> Inl OutOfFuel" for a
  proof (cases "\<exists>t us. ts = t # us \<and> ttype t = OR")
    case True
    then obtain t us where ts: "ts = t # us" "ttype t = OR" by blast
    show ?thesis using that unfolding ts or_loop.simps(2) [of n a "t # us"] or_loop.simps(2) [of "Suc n" a "t # us"]
        list.case ts(2) if_P [OF refl]
      by (rule bind_fuel_step) (auto simp del: and_expr.simps or_loop.simps simp: IH split: prod.splits)
  qed (auto split: list.splits)
  moreover have "and_loop (Suc (Suc n)) a ts = and_loop (Suc n) a ts" if "and_loop (Suc n) a ts \<noteq> Inl OutOfFuel" for a
  proof (cases "\<exists>t us. ts = t # us \<and> ttype t = AND")
    case True
    then obtain t us where ts: "ts = t # us" "ttype t = AND" by blast
    show ?thesis using that unfolding ts and_loop.simps(2) [of n a "t # us"] and_loop.simps(2) [of "Suc n" a "t # us"]
        list.case ts(2) if_P [OF refl]
      by (rule bind_fuel_step) (auto simp del: unary_expr.simps and_loop.simps simp: IH split: prod.splits)
  qed (auto split: list.splits)
  moreover have "unary_expr (Suc (Suc n)) ts = unary_expr (Suc n) ts" if "unary_expr (Suc n) ts \<noteq> Inl OutOfFuel"
  proof (cases "\<exists>t us. ts = t # us \<and> ttype t = NOT")
    case True
    then obtain t us where ts: "ts = t # us" "ttype t = NOT" by blast
    show ?thesis using that unfolding ts unary_expr.simps(2) [of n "t # us"] unary_expr.simps(2) [of "Suc n" "t # us"]
        list.case ts(2) if_P [OF refl]
      by (rule bind_fuel_step) (auto simp del: unary_expr.simps simp: IH split: prod.splits)
  next
    case False
    with that IH(7) [of ts] show ?thesis
      by (auto simp del: primary.simps split: list.splits)
  qed
  moreover have "primary (Suc (Suc n)) ts = primary (Suc n) ts" if "primary (Suc n) ts \<noteq> Inl OutOfFuel"
  proof (cases "\<exists>t us. ts = t # us \<and> ttype t = LPAREN")
    case True
    then obtain t us where ts: "ts = t # us" "ttype t = LPAREN" by blast
    show ?thesis using that unfolding ts primary.simps(2) [of n "t # us"] primary.simps(2) [of "Suc n" "t # us"]
        list.case ts(2) if_P [OF refl]
      by (rule bind_fuel_step) (auto simp del: expr.simps simp: IH split: prod.splits)
  qed (auto split: list.splits)
  moreover have "expr (Suc (Suc n)) ts = expr (Suc n) ts" if "expr (Suc n) ts \<noteq> Inl OutOfFuel"
    using that IH(2) [of ts] by (simp del: or_expr.simps)
  ultimately show ?case by blast
qed

lemma expr_fuel_mono: "n \<le> m \<Longrightarrow> expr n ts \<noteq> Inl OutOfFuel \<Longrightarrow> expr m ts = expr n ts"
  by (induction m rule: dec_induct) (use parser_fuel_step in auto)

lemma expr_result:
  assumes "6 * length ts + 5 \<le> n" and "eventually_parses (\<lambda>n. expr n ts) r"
  shows "expr n ts = Inr r"
proof -
  have "expr n ts \<noteq> Inl OutOfFuel"
    using assms(1) parser_good [of ts n] by (auto simp: good_def)
  moreover obtain N where "\<forall>m \<ge> N. expr m ts = Inr r"
    using assms(2) by (auto simp: eventually_parses_def)
  ultimately show ?thesis
    using expr_fuel_mono [of n "max n N" ts] by simp
qed

section \<open>What the lexer gives the parser\<close>

lemma lex_one_not_eof: "ttype (fst (lex_one c cs p)) \<noteq> EOF"
  by (cases "op_prefix (c # cs)") (simp_all add: lex_one_def word_token_def Let_def split_beta)

lemma lex_from_eof:
  "\<exists>ts. lex_from len s st = ts @ [mk_token EOF [] len] \<and> \<not> has_eof ts"
proof (induction len s st rule: lex_from.induct)
  case (1 len s st)
  show ?case
  proof (cases s)
    case (Cons c cs)
    show ?thesis
    proof (cases "py_space c")
      case True
      with 1(1) Cons show ?thesis by simp
    next
      case False
      with 1(2) Cons obtain ts where
        "lex_from len (snd (lex_one c cs st)) (len - length (snd (lex_one c cs st))) = ts @ [mk_token EOF [] len]"
        "\<not> has_eof ts"
        by blast
      then show ?thesis using Cons False lex_one_not_eof [of c cs st]
        by (intro exI [of _ "fst (lex_one c cs st) # ts"]) simp
    qed
  qed simp
qed

lemma has_eof_append [simp]: "has_eof (xs @ ys) \<longleftrightarrow> has_eof xs \<or> has_eof ys"
  by (auto simp: has_eof_def)

lemma last_eof:
  assumes "us @ rest = ts @ [e]" and "\<not> has_eof ts" and "rest = t # ts'" and "ttype t = EOF"
  shows "us = ts \<and> rest = [e]"
proof (cases ts' rule: rev_cases)
  case Nil
  with assms show ?thesis by simp
next
  case (snoc ys y)
  with assms(1,3) have "ts = us @ t # ys" by simp
  with assms(2,4) show ?thesis by simp
qed

lemma parse_iff_grammar:
  assumes "\<not> has_eof ts" and "ttype e = EOF"
  shows "parse (parse_fuel (ts @ [e])) (ts @ [e]) = Inr b \<longleftrightarrow> g_or ts b"
proof
  assume "parse (parse_fuel (ts @ [e])) (ts @ [e]) = Inr b"
  then obtain rest where ex: "expr (parse_fuel (ts @ [e])) (ts @ [e]) = Inr (b, rest)"
    and end_: "\<exists>t ts'. rest = t # ts' \<and> ttype t = EOF"
    by (auto simp: parse_def err_iff)
  from ex obtain us where us: "ts @ [e] = us @ rest" "g_or us b"
    using parser_sound [of "parse_fuel (ts @ [e])" "ts @ [e]"] by blast
  with end_ assms(1) last_eof [of us rest ts e] have "us = ts" by auto
  with us show "g_or ts b" by simp
next
  assume "g_or ts b"
  then have "eventually_parses (\<lambda>n. or_expr n (ts @ [e])) (b, [e])"
    using grammar_complete(1) assms(2) by simp
  then have "eventually_parses (\<lambda>n. expr n (ts @ [e])) (b, [e])"
    by (intro eventually_Suc [where f = "\<lambda>n. expr n (ts @ [e])"]) simp
  then have "expr (parse_fuel (ts @ [e])) (ts @ [e]) = Inr (b, [e])"
    by (intro expr_result) (auto simp: parse_fuel_def)
  with assms(2) show "parse (parse_fuel (ts @ [e])) (ts @ [e]) = Inr b"
    by (simp add: parse_def)
qed

text \<open>
  C1. A compound condition evaluates to b exactly when its tokens, up to the end marker,
  derive b in the grammar of the module's documentation (\<open>NOT\<close> binds tighter than
  \<open>AND\<close>, \<open>AND\<close> tighter than \<open>OR\<close>, parentheses override).
\<close>

theorem compound_decides_grammar:
  "evaluate_compound s = Inr b \<longleftrightarrow> (\<exists>ts. lex_tokens s = ts @ [mk_token EOF [] (length s)] \<and> g_or ts b)"
proof -
  obtain ts where ts: "lex_tokens s = ts @ [mk_token EOF [] (length s)]" "\<not> has_eof ts"
    using lex_from_eof [of "length s" s 0] by (auto simp: lex_tokens_def)
  then have "parse (parse_fuel (lex_tokens s)) (lex_tokens s) = Inr b \<longleftrightarrow> g_or ts b"
    using parse_iff_grammar [of ts "mk_token EOF [] (length s)" b] by simp
  then show ?thesis
    using ts by (auto simp: evaluate_compound_def split: sum.splits)
qed

text \<open>
  C2. The parser returns on every text: it never reads past its tokens (no
  \<open>IndexError\<close>) and its recursion ends within the fuel, so a compound condition that is
  not derivable is reported as one of the parser's own errors.
\<close>

theorem compound_total:
  "case evaluate_compound s of
     Inr b \<Rightarrow> True
   | Inl e \<Rightarrow> (\<exists>pe. e = CompoundError s pe \<and> pe \<noteq> OutOfFuel \<and> pe \<noteq> OutOfTokens)"
proof -
  obtain ts where ts: "lex_tokens s = ts @ [mk_token EOF [] (length s)]"
    using lex_from_eof [of "length s" s 0] by (auto simp: lex_tokens_def)
  then have eof: "has_eof (lex_tokens s)" by simp
  have g: "good 1 (lex_tokens s) (expr (parse_fuel (lex_tokens s)) (lex_tokens s))"
    using parser_good [of "lex_tokens s" "parse_fuel (lex_tokens s)"] by (simp add: parse_fuel_def)
  have "parse (parse_fuel (lex_tokens s)) (lex_tokens s) = Inl pe \<Longrightarrow> pe \<noteq> OutOfFuel \<and> pe \<noteq> OutOfTokens" for pe
    using g eof by (auto simp: parse_def good_def bind_err_Inl_iff list_case_Inl_iff if_Inl_iff)
  then show ?thesis
    by (auto simp: evaluate_compound_def split: sum.splits)
qed

section \<open>Comparisons of integers\<close>

fun int_cmp :: "cmp_op \<Rightarrow> nat \<Rightarrow> nat \<Rightarrow> bool" where
  "int_cmp NE a b = (a \<noteq> b)"
| "int_cmp EQ a b = (a = b)"
| "int_cmp GE a b = (b \<le> a)"
| "int_cmp LE a b = (a \<le> b)"
| "int_cmp GT a b = (b < a)"
| "int_cmp LT a b = (a < b)"

lemma show_nat_inject: "show_nat a = show_nat b \<longleftrightarrow> a = b"
  by (metis digits_val_show)

lemma apply_op_nat:
  assumes "a < 2 ^ 53" and "b < 2 ^ 53"
  shows "apply_op op (show_nat a) (show_nat b) = int_cmp op a b"
proof -
  obtain m e where a: "py_float (show_nat a) = Some (Fin m e)" "float_real m e = real a"
    using float_of_nat [OF assms(1)] show_nat_digits [of a] by (auto simp: py_float_digits digits_val_show)
  obtain m' e' where b: "py_float (show_nat b) = Some (Fin m' e')" "float_real m' e' = real b"
    using float_of_nat [OF assms(2)] show_nat_digits [of b] by (auto simp: py_float_digits digits_val_show)
  show ?thesis
    using a b by (cases op) (simp_all add: show_nat_inject numeric_cmp_def ord_cmp_def align_le_iff align_less_iff)
qed

lemma op_prefix_digit: "ascii_digit c \<Longrightarrow> op_prefix (c # s) = None"
  by (cases s) (auto simp: ascii_digit_def code_def Let_def)

lemma op_prefix_space: "op_prefix (CHR '' '' # s) = None"
  by (cases s) auto

lemma op_prefix_text: "op_prefix (op_text op @ CHR '' '' # s) = Some (op, CHR '' '' # s)"
  by (cases op) auto

lemma split_op_spaced:
  assumes "list_all ascii_digit l"
  shows "split_op (l @ '' '' @ op_text op @ '' '' @ r) = Some (l @ '' '', op, '' '' @ r)"
  using assms
proof (induction l)
  case Nil
  have ne: "op_text op \<noteq> []" by (cases op) auto
  have "split_op (op_text op @ CHR '' '' # r) = Some ([], op, CHR '' '' # r)"
    using op_prefix_text [of op r] ne by (cases "op_text op @ CHR '' '' # r") auto
  then show ?case by (simp add: op_prefix_space)
next
  case (Cons c l)
  then show ?case by (simp add: op_prefix_digit)
qed

lemma strip_trailing: "list_all ascii_digit l \<Longrightarrow> strip (l @ '' '') = l"
proof -
  assume l: "list_all ascii_digit l"
  show "strip (l @ '' '') = l"
  proof (cases l)
    case Nil
    then show ?thesis by (simp add: strip_def lstrip_def rstrip_def py_space_def code_def)
  next
    case (Cons c cs)
    then have "lstrip (l @ '' '') = l @ '' ''" using l by (simp add: lstrip_def digit_not_space)
    moreover have "rstrip (l @ '' '') = rstrip l" by (simp add: rstrip_def py_space_def code_def)
    moreover have "rstrip l = l"
      using strip_digits [OF l] l Cons by (simp add: strip_def lstrip_def digit_not_space)
    ultimately show ?thesis by (simp add: strip_def)
  qed
qed

lemma strip_leading: "list_all ascii_digit l \<Longrightarrow> strip ('' '' @ l) = l"
  using strip_digits [of l] by (simp add: strip_def lstrip_def py_space_def code_def)

lemma keyword_at_digit: "ascii_digit c \<Longrightarrow> \<not> keyword_at (c # s)"
  by (auto simp: keyword_at_def ascii_digit_def ascii_upper_def code_def Let_def)

lemma no_keyword_digits:
  "list_all ascii_digit l \<Longrightarrow> keyword_after_space (l @ s) = keyword_after_space s"
  by (induction l) (auto simp: digit_not_space)

lemma int_condition_simple:
  assumes a: "list_all ascii_digit a" "a \<noteq> []" and b: "list_all ascii_digit b" "b \<noteq> []"
  shows "\<not> is_compound (a @ '' '' @ op_text op @ '' '' @ b)"
    and "strip (a @ '' '' @ op_text op @ '' '' @ b) = a @ '' '' @ op_text op @ '' '' @ b"
proof -
  obtain c cs where ac: "a = c # cs" "ascii_digit c" using a by (cases a) auto
  obtain d ds where bd: "b = d # ds" "ascii_digit d" using b by (cases b) auto
  have kb: "\<not> keyword_after_space b"
    using no_keyword_digits [of b "[]"] b by simp
  have "\<not> keyword_after_space (CHR '' '' # op_text op @ CHR '' '' # b)"
    using keyword_at_digit [of d ds] bd kb
    by (cases op) (auto simp: keyword_at_def ascii_upper_def py_space_def code_def Let_def)
  then show "\<not> is_compound (a @ '' '' @ op_text op @ '' '' @ b)"
    using no_keyword_digits [OF a(1)] keyword_at_digit ac by (simp add: is_compound_def)
  have "ascii_digit (last b)" using b by (auto simp: list_all_iff)
  then show "strip (a @ '' '' @ op_text op @ '' '' @ b) = a @ '' '' @ op_text op @ '' '' @ b"
    using ac b by (intro strip_idle) (auto simp: digit_not_space)
qed

text \<open>
  A comparison of two decimal integers below 2 to the 53, written with single spaces,
  evaluates to the comparison of the integers: the detour through binary64 loses nothing,
  and the text is never taken for a compound condition.
\<close>

theorem integer_condition:
  assumes "a < 2 ^ 53" and "b < 2 ^ 53"
  shows "evaluate_condition (show_nat a @ '' '' @ op_text op @ '' '' @ show_nat b) = Inr (int_cmp op a b)"
proof -
  have a: "list_all ascii_digit (show_nat a)" "show_nat a \<noteq> []"
    and b: "list_all ascii_digit (show_nat b)" "show_nat b \<noteq> []"
    using show_nat_digits by auto
  show ?thesis
    using int_condition_simple [OF a b, of op] split_op_spaced [OF a(1), of op "show_nat b"]
      strip_trailing [OF a(1)] strip_leading [OF b(1)] apply_op_nat [OF assms, of op] a
    by (simp add: evaluate_condition_def evaluate_simple_def Let_def)
qed

theorem integer_condition_witness:
  "evaluate_condition ''80 >= 60'' = Inr True"
proof -
  have "evaluate_condition (show_nat 80 @ '' '' @ op_text GE @ '' '' @ show_nat 60) = Inr (int_cmp GE 80 60)"
    by (rule integer_condition) simp_all
  moreover have "show_nat 80 = ''80''" "show_nat 60 = ''60''"
    by (simp_all add: show_nat.simps digit_char_def char_of_def bit_0 bit_Suc)
  ultimately show ?thesis by simp
qed

text \<open>
  A negative literal is a number for a simple condition but not for a compound one:
  the lexer reads the minus sign as a string of its own, so adding a conjunct that is true
  turns a true condition into an error.
\<close>

theorem negative_literal_breaks_compound:
  "evaluate_condition ''-1 == -1'' = Inr True \<and>
   (\<exists>e. evaluate_condition ''-1 == -1 AND 1 == 1'' = Inl (CompoundError ''-1 == -1 AND 1 == 1'' e))"
proof
  show "evaluate_condition ''-1 == -1'' = Inr True" by code_simp
  have "evaluate_condition ''-1 == -1 AND 1 == 1'' =
      Inl (CompoundError ''-1 == -1 AND 1 == 1'' (ExpectedOp NUMBER ''1'' 1))" by code_simp
  then show "\<exists>e. evaluate_condition ''-1 == -1 AND 1 == 1'' = Inl (CompoundError ''-1 == -1 AND 1 == 1'' e)"
    by blast
qed

end
