(* ===== verification/PyValue.thy ===== *)
theory PyValue
  imports PyFloat
begin

text \<open>
  Values of dynamic type: what \<open>json.loads\<close> returns and what a request or a stored
  document holds. \<open>PDict\<close> keeps the insertion order of its keys. \<open>py_eq\<close> is Python's
  \<open>==\<close> (numbers compare by value across bool, int and float), \<open>truthy\<close> is \<open>bool(x)\<close>.
\<close>

datatype pyval =
    PNone
  | PBool bool
  | PInt int
  | PFloat pyfloat
  | PStr string
  | PList "pyval list"
  | PDict "(string \<times> pyval) list"

fun num_of :: "pyval \<Rightarrow> pyfloat option" where
  "num_of (PBool b) = Some (Fin (if b then 1 else 0) 0)"
| "num_of (PInt i) = Some (Fin i 0)"
| "num_of (PFloat f) = Some f"
| "num_of _ = None"

text \<open>\<open>==\<close> against a number, a string, and the test for truth.\<close>

definition eq_int :: "pyval \<Rightarrow> int \<Rightarrow> bool" where
  "eq_int v i = (case num_of v of None \<Rightarrow> False | Some f \<Rightarrow> float_eq f (Fin i 0))"

definition eq_str :: "pyval \<Rightarrow> string \<Rightarrow> bool" where
  "eq_str v s = (v = PStr s)"

fun truthy :: "pyval \<Rightarrow> bool" where
  "truthy PNone = False"
| "truthy (PBool b) = b"
| "truthy (PInt i) = (i \<noteq> 0)"
| "truthy (PFloat f) = (\<not> float_eq f (Fin 0 0))"
| "truthy (PStr s) = (s \<noteq> [])"
| "truthy (PList xs) = (xs \<noteq> [])"
| "truthy (PDict d) = (d \<noteq> [])"

fun hashable :: "pyval \<Rightarrow> bool" where
  "hashable (PList _) = False"
| "hashable (PDict _) = False"
| "hashable _ = True"

fun is_dict :: "pyval \<Rightarrow> bool" where
  "is_dict (PDict _) = True"
| "is_dict _ = False"

fun as_dict :: "pyval \<Rightarrow> (string \<times> pyval) list option" where
  "as_dict (PDict d) = Some d"
| "as_dict _ = None"

fun as_str :: "pyval \<Rightarrow> string option" where
  "as_str (PStr s) = Some s"
| "as_str _ = None"

fun as_bool :: "pyval \<Rightarrow> bool option" where
  "as_bool (PBool b) = Some b"
| "as_bool _ = None"

fun as_int :: "pyval \<Rightarrow> int option" where
  "as_int (PInt i) = Some i"
| "as_int _ = None"

fun as_list :: "pyval \<Rightarrow> pyval list option" where
  "as_list (PList xs) = Some xs"
| "as_list _ = None"

definition opt_str :: "string option \<Rightarrow> pyval" where
  "opt_str x = (case x of None \<Rightarrow> PNone | Some s \<Rightarrow> PStr s)"

fun as_opt_str :: "pyval \<Rightarrow> string option option" where
  "as_opt_str PNone = Some None"
| "as_opt_str (PStr s) = Some (Some s)"
| "as_opt_str _ = None"

lemma as_opt_str_opt_str [simp]: "as_opt_str (opt_str x) = Some x"
  by (cases x) (auto simp: opt_str_def)

lemma eq_int_PInt [simp]: "eq_int (PInt i) j \<longleftrightarrow> i = j"
  by (auto simp: eq_int_def float_eq_def align_def)

text \<open>\<open>data.get(key, default)\<close> read at a field's declared type; \<open>None\<close>: not of that type.\<close>

definition field :: "(pyval \<Rightarrow> 'a option) \<Rightarrow> (string \<times> pyval) list \<Rightarrow> string \<Rightarrow> 'a \<Rightarrow> 'a option" where
  "field read d k dflt = (case dget d k of None \<Rightarrow> Some dflt | Some v \<Rightarrow> read v)"

lemma field_missing [simp]: "dget d k = None \<Longrightarrow> field read d k x = Some x"
  by (simp add: field_def)

lemma field_present [simp]: "dget d k = Some v \<Longrightarrow> field read d k x = read v"
  by (simp add: field_def)

fun strs_of :: "pyval \<Rightarrow> string list option" where
  "strs_of (PList xs) = map_opt as_str xs"
| "strs_of _ = None"

lemma strs_of_map [simp]: "map_opt as_str (map PStr xs) = Some xs"
  by (simp add: map_opt_map)

fun ssize :: "pyval \<Rightarrow> nat" where
  "ssize (PList xs) = Suc (sum_list (map ssize xs))"
| "ssize (PDict d) = Suc (sum_list (map (\<lambda>p. ssize (snd p)) d))"
| "ssize _ = 1"

lemma ssize_dict: "(k, v) \<in> set d \<Longrightarrow> ssize v < ssize (PDict d)"
  by (induction d) force+

lemma ssize_dget: "dget d k = Some v \<Longrightarrow> ssize v < ssize (PDict d)"
  by (blast intro: ssize_dict map_of_SomeD)

end
