(* ===== verification/RuntimeModels.thy ===== *)
theory RuntimeModels
  imports PyValue
begin

text \<open>
  \<open>src/workflow/runtime_models.py\<close>: the run-time state of a node, of a workflow, of a run
  and of a task, with their serialised forms. A node state nests the states of the nodes a
  body node ran, so it is a record of its plain fields and the dictionary of its children.
  \<open>from_dict\<close> reads documents whose fields have the declared types; \<open>None\<close> is a document
  that has not, or one that raises. Fresh identifiers and the clock are arguments.
\<close>

section \<open>Node state\<close>

type_synonym doc = "(string \<times> pyval) list"

record node_fields =
  node_id :: string
  status :: string
  session_id :: string
  started_at :: "string option"
  completed_at :: "string option"
  summary :: string
  error :: string
  rejection_count :: int
  rejection_reason :: string
  reject_upstream_count :: int
  outputs :: "(string, string) dict"
  stdout :: string
  stderr :: string
  token_usage :: "doc option"
  token_usage_calls :: "doc list"
  rejection_history :: "doc list"
  iteration_history :: "doc list"
  is_skipped :: bool
  attempt_count :: int
  automatic_retry_count :: int
  next_retry_at :: "string option"
  attempt_history :: "doc list"
  input_snapshot :: doc
  upstream_summary_snapshot :: string
  next_attempt_trigger :: string

datatype node_state = Node (own: node_fields) (child_states: "(string \<times> node_state) list")

text \<open>The state of a node that has not run: the defaults of the data class.\<close>

definition new_node_state :: "string \<Rightarrow> node_state" where
  "new_node_state nid =
     Node \<lparr>node_id = nid, status = ''pending'', session_id = [], started_at = None, completed_at = None,
       summary = [], error = [], rejection_count = 0, rejection_reason = [], reject_upstream_count = 0,
       outputs = [], stdout = [], stderr = [], token_usage = None, token_usage_calls = [],
       rejection_history = [], iteration_history = [], is_skipped = False, attempt_count = 0,
       automatic_retry_count = 0, next_retry_at = None, attempt_history = [], input_snapshot = [],
       upstream_summary_snapshot = [], next_attempt_trigger = ''initial''\<rparr> []"

text \<open>Readers and writers at the declared types.\<close>

fun as_str_dict :: "pyval \<Rightarrow> (string, string) dict option" where
  "as_str_dict (PDict d) = map_opt (\<lambda>(k, v). map_option (Pair k) (as_str v)) d"
| "as_str_dict _ = None"

fun as_dicts :: "pyval \<Rightarrow> doc list option" where
  "as_dicts (PList xs) = map_opt as_dict xs"
| "as_dicts _ = None"

fun as_opt_dict :: "pyval \<Rightarrow> doc option option" where
  "as_opt_dict PNone = Some None"
| "as_opt_dict (PDict d) = Some (Some d)"
| "as_opt_dict _ = None"

definition str_dict :: "(string, string) dict \<Rightarrow> pyval" where
  "str_dict d = PDict (map (\<lambda>(k, v). (k, PStr v)) d)"

definition dicts :: "doc list \<Rightarrow> pyval" where
  "dicts ds = PList (map PDict ds)"

definition opt_dict :: "doc option \<Rightarrow> pyval" where
  "opt_dict x = (case x of None \<Rightarrow> PNone | Some d \<Rightarrow> PDict d)"

lemma as_str_dict_str_dict [simp]: "as_str_dict (str_dict d) = Some d"
  by (induction d) (auto simp: str_dict_def)

lemma as_dicts_dicts [simp]: "as_dicts (dicts ds) = Some ds"
  by (simp add: dicts_def map_opt_map)

lemma as_opt_dict_opt_dict [simp]: "as_opt_dict (opt_dict x) = Some x"
  by (cases x) (auto simp: opt_dict_def)

text \<open>The items of a list that are dictionaries.\<close>

fun dict_items :: "pyval list \<Rightarrow> doc list" where
  "dict_items [] = []"
| "dict_items (PDict d # xs) = d # dict_items xs"
| "dict_items (_ # xs) = dict_items xs"

lemma dict_items_map [simp]: "dict_items (map PDict ds) = ds"
  by (induction ds) auto

fun as_dict_items :: "pyval \<Rightarrow> doc list option" where
  "as_dict_items (PList xs) = Some (dict_items xs)"
| "as_dict_items _ = None"

lemma as_dict_items_dicts [simp]: "as_dict_items (dicts ds) = Some ds"
  by (simp add: dicts_def)

text \<open>
  \<open>int(x)\<close> truncates a float towards zero and raises \<open>OverflowError\<close> on an infinity, which
  \<open>_non_negative_int\<close> does not catch (\<open>None\<close> below).
\<close>

definition trunc_float :: "int \<Rightarrow> int \<Rightarrow> int" where
  "trunc_float m e = (if 0 \<le> e then m * 2 ^ nat e else sgn m * (\<bar>m\<bar> div 2 ^ nat (- e)))"

fun non_negative_int :: "pyval \<Rightarrow> int \<Rightarrow> int option" where
  "non_negative_int (PBool b) dflt = Some dflt"
| "non_negative_int (PInt i) dflt = Some (max 0 i)"
| "non_negative_int (PFloat (Fin m e)) dflt = Some (max 0 (trunc_float m e))"
| "non_negative_int (PFloat PosInf) dflt = None"
| "non_negative_int (PFloat NegInf) dflt = None"
| "non_negative_int (PFloat NaN) dflt = Some dflt"
| "non_negative_int (PStr s) dflt = Some (case py_int s of None \<Rightarrow> dflt | Some i \<Rightarrow> max 0 i)"
| "non_negative_int _ dflt = Some dflt"

definition read_count :: "doc \<Rightarrow> string \<Rightarrow> int option" where
  "read_count data k = (case dget data k of None \<Rightarrow> Some 0 | Some v \<Rightarrow> non_negative_int v 0)"

definition str_or :: "doc \<Rightarrow> string \<Rightarrow> string \<Rightarrow> string" where
  "str_or data k dflt = (case dget data k of Some (PStr s) \<Rightarrow> s | _ \<Rightarrow> dflt)"

definition str_or_none :: "doc \<Rightarrow> string \<Rightarrow> string option" where
  "str_or_none data k = (case dget data k of Some (PStr s) \<Rightarrow> Some s | _ \<Rightarrow> None)"

definition dict_or_empty :: "doc \<Rightarrow> string \<Rightarrow> doc" where
  "dict_or_empty data k = (case dget data k of Some (PDict d) \<Rightarrow> d | _ \<Rightarrow> [])"

definition node_fields_from_dict :: "doc \<Rightarrow> string \<Rightarrow> node_fields option" where
  "node_fields_from_dict data nid =
     Option.bind (field as_str data ''node_id'' nid) (\<lambda>a1.
     Option.bind (field as_str data ''status'' ''pending'') (\<lambda>a2.
     Option.bind (field as_str data ''session_id'' []) (\<lambda>a3.
     Option.bind (field as_opt_str data ''started_at'' None) (\<lambda>a4.
     Option.bind (field as_opt_str data ''completed_at'' None) (\<lambda>a5.
     Option.bind (field as_str data ''summary'' []) (\<lambda>a6.
     Option.bind (field as_str data ''error'' []) (\<lambda>a7.
     Option.bind (field as_int data ''rejection_count'' 0) (\<lambda>a8.
     Option.bind (field as_str data ''rejection_reason'' []) (\<lambda>a9.
     Option.bind (field as_int data ''reject_upstream_count'' 0) (\<lambda>a10.
     Option.bind (field as_str_dict data ''outputs'' []) (\<lambda>a11.
     Option.bind (field as_str data ''stdout'' []) (\<lambda>a12.
     Option.bind (field as_str data ''stderr'' []) (\<lambda>a13.
     Option.bind (field as_opt_dict data ''token_usage'' None) (\<lambda>a14.
     Option.bind (field as_dict_items data ''token_usage_calls'' []) (\<lambda>a15.
     Option.bind (field as_dict_items data ''rejection_history'' []) (\<lambda>a16.
     Option.bind (field as_dicts data ''iteration_history'' []) (\<lambda>a17.
     Option.bind (field as_bool data ''is_skipped'' False) (\<lambda>a18.
     Option.bind (read_count data ''attempt_count'') (\<lambda>a19.
     Option.bind (read_count data ''automatic_retry_count'') (\<lambda>a20.
     Option.bind (field as_dict_items data ''attempt_history'' []) (\<lambda>a22.
       Some \<lparr>node_id = a1, status = a2, session_id = a3, started_at = a4, completed_at = a5,
         summary = a6, error = a7, rejection_count = a8, rejection_reason = a9,
         reject_upstream_count = a10, outputs = a11, stdout = a12, stderr = a13,
         token_usage = a14, token_usage_calls = a15, rejection_history = a16,
         iteration_history = a17, is_skipped = a18, attempt_count = a19,
         automatic_retry_count = a20, next_retry_at = str_or_none data ''next_retry_at'',
         attempt_history = a22, input_snapshot = dict_or_empty data ''input_snapshot'',
         upstream_summary_snapshot = str_or data ''upstream_summary_snapshot'' [],
         next_attempt_trigger = str_or data ''next_attempt_trigger'' ''initial''\<rparr>)))))))))))))))))))))"

function node_state_from_dict :: "doc \<Rightarrow> string \<Rightarrow> node_state option" where
  "node_state_from_dict data nid =
     (case field as_dict data ''child_states'' [] of
        None \<Rightarrow> None
      | Some cs \<Rightarrow>
          Option.bind
            (map_opt (\<lambda>p. case as_dict (snd p) of
                None \<Rightarrow> None
              | Some d \<Rightarrow> map_option (Pair (fst p)) (node_state_from_dict d (fst p))) cs) (\<lambda>children.
          map_option (\<lambda>f. Node f children) (node_fields_from_dict data nid)))"
  by pat_completeness auto
termination
proof (relation "measure (\<lambda>(d, _). ssize (PDict d))", goal_cases)
  case (2 data nid cs p d)
  have "snd p = PDict d" using 2(3) by (cases "snd p") auto
  moreover have "dget data ''child_states'' = Some (PDict cs)"
    using 2(1,2) by (auto simp: field_def split: option.splits elim!: as_dict.elims)
  ultimately show ?case
    using ssize_dget [of data "''child_states''" "PDict cs"] ssize_dict [of "fst p" "snd p" cs] 2(2)
    by (cases p) simp
qed simp

declare node_state_from_dict.simps [simp del]

section \<open>Writing a node state\<close>

definition retry_status :: "string \<Rightarrow> bool" where
  "retry_status s = (s \<in> {''failed'', ''retry_waiting''})"

definition node_fields_to_dict :: "node_fields \<Rightarrow> doc" where
  "node_fields_to_dict s =
     [(''node_id'', PStr (node_id s)),
      (''status'', PStr (status s)),
      (''session_id'', PStr (session_id s)),
      (''started_at'', opt_str (started_at s)),
      (''completed_at'', opt_str (completed_at s)),
      (''summary'', PStr (summary s)),
      (''error'', PStr (error s)),
      (''rejection_count'', PInt (rejection_count s)),
      (''rejection_reason'', PStr (rejection_reason s)),
      (''reject_upstream_count'', PInt (reject_upstream_count s)),
      (''outputs'', str_dict (outputs s)),
      (''stdout'', PStr (stdout s)),
      (''stderr'', PStr (stderr s)),
      (''attempt_count'', PInt (attempt_count s)),
      (''automatic_retry_count'', PInt (automatic_retry_count s)),
      (''next_retry_at'', opt_str (next_retry_at s)),
      (''attempt_history'', dicts (attempt_history s)),
      (''input_snapshot'', PDict (input_snapshot s)),
      (''upstream_summary_snapshot'', PStr (upstream_summary_snapshot s)),
      (''next_attempt_trigger'', PStr (next_attempt_trigger s))]"

text \<open>The keys written only when there is something to write.\<close>

definition when_some :: "bool \<Rightarrow> string \<Rightarrow> pyval \<Rightarrow> doc" where
  "when_some b k v = (if b then [(k, v)] else [])"

lemma dget_when_some [simp]: "dget (when_some b k v) k' = (if b \<and> k' = k then Some v else None)"
  by (simp add: when_some_def)

fun node_state_to_dict :: "bool \<Rightarrow> node_state \<Rightarrow> doc" where
  "node_state_to_dict actions_enabled (Node s children) =
     node_fields_to_dict s
     @ when_some (token_usage s \<noteq> None \<and> token_usage s \<noteq> Some []) ''token_usage'' (opt_dict (token_usage s))
     @ when_some (token_usage_calls s \<noteq> []) ''token_usage_calls'' (dicts (token_usage_calls s))
     @ when_some (rejection_history s \<noteq> []) ''rejection_history'' (dicts (rejection_history s))
     @ when_some (iteration_history s \<noteq> []) ''iteration_history'' (dicts (iteration_history s))
     @ when_some (children \<noteq> []) ''child_states''
         (PDict (map (\<lambda>p. (fst p, PDict (node_state_to_dict actions_enabled (snd p)))) children))
     @ when_some (is_skipped s) ''is_skipped'' (PBool True)
     @ when_some (retry_status (status s)) ''available_actions''
         (PList (if actions_enabled then [PStr ''retry'', PStr ''skip''] else []))"

declare node_state_to_dict.simps [simp del]

text \<open>
  The states the code writes: counters are not negative, and an empty usage report is
  written like an absent one.
\<close>

definition fields_ok :: "node_fields \<Rightarrow> bool" where
  "fields_ok s = (0 \<le> attempt_count s \<and> 0 \<le> automatic_retry_count s \<and> token_usage s \<noteq> Some [])"

fun node_ok :: "node_state \<Rightarrow> bool" where
  "node_ok (Node s children) = (fields_ok s \<and> list_all (\<lambda>p. node_ok (snd p)) children)"

lemma node_state_induct [case_names Node]:
  assumes "\<And>s children. (\<And>p. p \<in> set children \<Longrightarrow> P (snd p)) \<Longrightarrow> P (Node s children)"
  shows "P n"
proof (induction n)
  case (Node s children)
  show ?case by (rule assms) (auto intro: Node.IH simp: snds.simps)
qed

lemma dget_always:
  "dget (node_state_to_dict b n) ''node_id'' = Some (PStr (node_id (own n)))"
  "dget (node_state_to_dict b n) ''status'' = Some (PStr (status (own n)))"
  "dget (node_state_to_dict b n) ''session_id'' = Some (PStr (session_id (own n)))"
  "dget (node_state_to_dict b n) ''started_at'' = Some (opt_str (started_at (own n)))"
  "dget (node_state_to_dict b n) ''completed_at'' = Some (opt_str (completed_at (own n)))"
  "dget (node_state_to_dict b n) ''summary'' = Some (PStr (summary (own n)))"
  "dget (node_state_to_dict b n) ''error'' = Some (PStr (error (own n)))"
  "dget (node_state_to_dict b n) ''rejection_count'' = Some (PInt (rejection_count (own n)))"
  "dget (node_state_to_dict b n) ''rejection_reason'' = Some (PStr (rejection_reason (own n)))"
  "dget (node_state_to_dict b n) ''reject_upstream_count'' = Some (PInt (reject_upstream_count (own n)))"
  "dget (node_state_to_dict b n) ''outputs'' = Some (str_dict (outputs (own n)))"
  "dget (node_state_to_dict b n) ''stdout'' = Some (PStr (stdout (own n)))"
  "dget (node_state_to_dict b n) ''stderr'' = Some (PStr (stderr (own n)))"
  "dget (node_state_to_dict b n) ''attempt_count'' = Some (PInt (attempt_count (own n)))"
  "dget (node_state_to_dict b n) ''automatic_retry_count'' = Some (PInt (automatic_retry_count (own n)))"
  "dget (node_state_to_dict b n) ''next_retry_at'' = Some (opt_str (next_retry_at (own n)))"
  "dget (node_state_to_dict b n) ''attempt_history'' = Some (dicts (attempt_history (own n)))"
  "dget (node_state_to_dict b n) ''input_snapshot'' = Some (PDict (input_snapshot (own n)))"
  "dget (node_state_to_dict b n) ''upstream_summary_snapshot'' = Some (PStr (upstream_summary_snapshot (own n)))"
  "dget (node_state_to_dict b n) ''next_attempt_trigger'' = Some (PStr (next_attempt_trigger (own n)))"
  by (cases n, simp add: node_state_to_dict.simps node_fields_to_dict_def)+

lemma dget_sometimes:
  "dget (node_state_to_dict b n) ''token_usage'' =
     (case token_usage (own n) of None \<Rightarrow> None | Some d \<Rightarrow> if d = [] then None else Some (PDict d))"
  "dget (node_state_to_dict b n) ''token_usage_calls'' =
     (if token_usage_calls (own n) = [] then None else Some (dicts (token_usage_calls (own n))))"
  "dget (node_state_to_dict b n) ''rejection_history'' =
     (if rejection_history (own n) = [] then None else Some (dicts (rejection_history (own n))))"
  "dget (node_state_to_dict b n) ''iteration_history'' =
     (if iteration_history (own n) = [] then None else Some (dicts (iteration_history (own n))))"
  "dget (node_state_to_dict b n) ''is_skipped'' = (if is_skipped (own n) then Some (PBool True) else None)"
  "dget (node_state_to_dict b n) ''available_actions'' =
     (if retry_status (status (own n))
      then Some (PList (if b then [PStr ''retry'', PStr ''skip''] else [])) else None)"
  "dget (node_state_to_dict b n) ''child_states'' =
     (if child_states n = [] then None
      else Some (PDict (map (\<lambda>p. (fst p, PDict (node_state_to_dict b (snd p)))) (child_states n))))"
  by (cases n, simp add: node_state_to_dict.simps node_fields_to_dict_def map_add_def opt_dict_def
      split: option.splits)+

lemma fields_roundtrip:
  "fields_ok (own n) \<Longrightarrow> node_fields_from_dict (node_state_to_dict b n) nid = Some (own n)"
  by (cases "own n"; cases "token_usage (own n)"; cases "next_retry_at (own n)")
    (simp_all add: node_fields_from_dict_def field_def dget_always dget_sometimes read_count_def
      str_or_def str_or_none_def dict_or_empty_def fields_ok_def opt_str_def split: option.splits)

lemma node_state_roundtrip:
  "node_ok n \<Longrightarrow> node_state_from_dict (node_state_to_dict b n) nid = Some n"
proof (induction n arbitrary: nid rule: node_state_induct)
  case (Node s children)
  have "map_opt (\<lambda>p. case as_dict (snd p) of None \<Rightarrow> None
         | Some d \<Rightarrow> map_option (Pair (fst p)) (node_state_from_dict d (fst p)))
      (map (\<lambda>p. (fst p, PDict (node_state_to_dict b (snd p)))) children) = Some children"
    using Node by (intro map_opt_map) (auto simp: list_all_iff)
  with Node.prems show ?case
    by (subst node_state_from_dict.simps)
      (simp add: field_def dget_sometimes fields_roundtrip)
qed

section \<open>Workflow state and run record\<close>

definition node_entry_to_dict :: "bool \<Rightarrow> string \<times> node_state \<Rightarrow> string \<times> pyval" where
  "node_entry_to_dict b p = (fst p, PDict (node_state_to_dict b (snd p)))"

definition node_entry_from_dict :: "string \<times> pyval \<Rightarrow> (string \<times> node_state) option" where
  "node_entry_from_dict p =
     (case as_dict (snd p) of None \<Rightarrow> None | Some d \<Rightarrow> map_option (Pair (fst p)) (node_state_from_dict d (fst p)))"

definition entry_ok :: "string \<times> node_state \<Rightarrow> bool" where
  "entry_ok p = node_ok (snd p)"

definition node_item_from_dict :: "pyval \<Rightarrow> node_state option" where
  "node_item_from_dict v = Option.bind (as_dict v) (\<lambda>d. node_state_from_dict d [])"

interpretation node_entry: codec "node_entry_to_dict b" node_entry_from_dict entry_ok for b
  by unfold_locales (auto simp: node_entry_to_dict_def node_entry_from_dict_def entry_ok_def node_state_roundtrip)

interpretation node_item: codec "\<lambda>n. PDict (node_state_to_dict b n)" node_item_from_dict node_ok for b
  by unfold_locales (simp add: node_item_from_dict_def node_state_roundtrip)

definition node_states_to_dict :: "bool \<Rightarrow> (string \<times> node_state) list \<Rightarrow> pyval" where
  "node_states_to_dict b ns = PDict (map (node_entry_to_dict b) ns)"

definition node_states_from_dict :: "doc \<Rightarrow> (string \<times> node_state) list option" where
  "node_states_from_dict data =
     Option.bind (field as_dict data ''node_states'' []) (map_opt node_entry_from_dict)"

definition states_ok :: "(string \<times> node_state) list \<Rightarrow> bool" where
  "states_ok ns = list_all entry_ok ns"

lemma node_states_roundtrip:
  "states_ok ns \<Longrightarrow> dget d ''node_states'' = Some (node_states_to_dict b ns) \<Longrightarrow> node_states_from_dict d = Some ns"
  by (simp add: node_states_from_dict_def node_states_to_dict_def states_ok_def node_entry.dec_enc_list)

record workflow_state =
  ws_workflow_id :: string
  ws_status :: string
  ws_current_node_id :: "string option"
  ws_current_run_id :: "string option"
  ws_started_at :: "string option"
  ws_completed_at :: "string option"
  ws_node_states :: "(string \<times> node_state) list"

definition workflow_state_to_dict :: "workflow_state \<Rightarrow> doc" where
  "workflow_state_to_dict w =
     [(''workflow_id'', PStr (ws_workflow_id w)),
      (''status'', PStr (ws_status w)),
      (''current_node_id'', opt_str (ws_current_node_id w)),
      (''current_run_id'', opt_str (ws_current_run_id w)),
      (''started_at'', opt_str (ws_started_at w)),
      (''completed_at'', opt_str (ws_completed_at w)),
      (''node_states'', node_states_to_dict (retry_status (ws_status w)) (ws_node_states w))]"

definition workflow_state_from_dict :: "doc \<Rightarrow> workflow_state option" where
  "workflow_state_from_dict data =
     Option.bind (field as_str data ''workflow_id'' []) (\<lambda>a1.
     Option.bind (field as_str data ''status'' ''idle'') (\<lambda>a2.
     Option.bind (field as_opt_str data ''current_node_id'' None) (\<lambda>a3.
     Option.bind (field as_opt_str data ''current_run_id'' None) (\<lambda>a4.
     Option.bind (field as_opt_str data ''started_at'' None) (\<lambda>a5.
     Option.bind (field as_opt_str data ''completed_at'' None) (\<lambda>a6.
     Option.bind (node_states_from_dict data) (\<lambda>a7.
       Some \<lparr>ws_workflow_id = a1, ws_status = a2, ws_current_node_id = a3, ws_current_run_id = a4,
         ws_started_at = a5, ws_completed_at = a6, ws_node_states = a7\<rparr>)))))))"

interpretation workflow_state_codec:
  codec workflow_state_to_dict workflow_state_from_dict "\<lambda>w. states_ok (ws_node_states w)"
proof
  fix w :: workflow_state assume ok: "states_ok (ws_node_states w)"
  have "node_states_from_dict (workflow_state_to_dict w) = Some (ws_node_states w)"
    by (rule node_states_roundtrip [OF ok]) (simp add: workflow_state_to_dict_def)
  then show "workflow_state_from_dict (workflow_state_to_dict w) = Some w"
    by (simp add: workflow_state_from_dict_def field_def) (simp add: workflow_state_to_dict_def)
qed

record run_record =
  rr_run_id :: string
  rr_workflow_id :: string
  rr_status :: string
  rr_started_at :: string
  rr_completed_at :: "string option"
  rr_node_executions :: "node_state list"

definition run_record_to_dict :: "run_record \<Rightarrow> doc" where
  "run_record_to_dict r =
     [(''run_id'', PStr (rr_run_id r)),
      (''workflow_id'', PStr (rr_workflow_id r)),
      (''status'', PStr (rr_status r)),
      (''started_at'', PStr (rr_started_at r)),
      (''completed_at'', opt_str (rr_completed_at r)),
      (''node_executions'', PList (map (\<lambda>n. PDict (node_state_to_dict True n)) (rr_node_executions r)))]"

definition run_record_from_dict :: "string \<Rightarrow> string \<Rightarrow> doc \<Rightarrow> run_record option" where
  "run_record_from_dict fresh_id now data =
     Option.bind (field as_str data ''run_id'' fresh_id) (\<lambda>a1.
     Option.bind (field as_str data ''workflow_id'' []) (\<lambda>a2.
     Option.bind (field as_str data ''status'' ''running'') (\<lambda>a3.
     Option.bind (field as_str data ''started_at'' now) (\<lambda>a4.
     Option.bind (field as_opt_str data ''completed_at'' None) (\<lambda>a5.
     Option.bind (Option.bind (field as_list data ''node_executions'' []) (map_opt node_item_from_dict)) (\<lambda>a6.
       Some \<lparr>rr_run_id = a1, rr_workflow_id = a2, rr_status = a3, rr_started_at = a4,
         rr_completed_at = a5, rr_node_executions = a6\<rparr>))))))"

interpretation run_record_codec:
  codec run_record_to_dict "run_record_from_dict fresh_id now" "\<lambda>r. list_all node_ok (rr_node_executions r)"
  for fresh_id now
  by unfold_locales
    (simp add: run_record_from_dict_def run_record_to_dict_def field_def node_item.dec_enc_list)

section \<open>Tasks\<close>

record task =
  task_id :: string
  workflow_id :: string
  task_name :: string
  task_status :: string
  main_session_id :: "string option"
  main_takeover :: bool
  current_node_id :: "string option"
  run_id :: "string option"
  created_at :: string
  updated_at :: string
  task_started_at :: "string option"
  task_completed_at :: "string option"
  node_states :: "(string \<times> node_state) list"
  snapshot_definition :: "doc option"
  parameter_values :: "(string, string) dict"
  snapshot_variables :: "doc list option"
  workspace_override :: "string option"
  workspace_mode :: string
  workspace_ref :: "string option"
  disabled_node_ids :: "string list"
  scheme_id :: "string option"
  control_flow_state :: doc
  executor_id :: "string option"
  executor_epoch :: "string option"

definition opt_dicts :: "doc list option \<Rightarrow> pyval" where
  "opt_dicts x = (case x of None \<Rightarrow> PNone | Some ds \<Rightarrow> dicts ds)"

definition as_opt_dicts :: "pyval \<Rightarrow> doc list option option" where
  "as_opt_dicts v = (if v = PNone then Some None else map_option Some (as_dicts v))"

lemma as_opt_dicts_opt_dicts [simp]: "as_opt_dicts (opt_dicts x) = Some x"
  using as_dicts_dicts by (cases x) (auto simp: as_opt_dicts_def opt_dicts_def dicts_def)

definition task_to_dict :: "task \<Rightarrow> doc" where
  "task_to_dict t =
     [(''task_id'', PStr (task_id t)),
      (''workflow_id'', PStr (workflow_id t)),
      (''name'', PStr (task_name t)),
      (''status'', PStr (task_status t)),
      (''current_node_id'', opt_str (current_node_id t)),
      (''run_id'', opt_str (run_id t)),
      (''created_at'', PStr (created_at t)),
      (''updated_at'', PStr (updated_at t)),
      (''started_at'', opt_str (task_started_at t)),
      (''completed_at'', opt_str (task_completed_at t)),
      (''node_states'', node_states_to_dict (retry_status (task_status t)) (node_states t)),
      (''snapshot_definition'', opt_dict (snapshot_definition t)),
      (''parameter_values'', str_dict (parameter_values t)),
      (''snapshot_variables'', opt_dicts (snapshot_variables t)),
      (''main_session_id'', opt_str (main_session_id t)),
      (''main_takeover'', PBool (main_takeover t)),
      (''disabled_node_ids'', PList (map PStr (disabled_node_ids t))),
      (''scheme_id'', opt_str (scheme_id t)),
      (''workspace_override'', opt_str (workspace_override t)),
      (''workspace_mode'', PStr (workspace_mode t)),
      (''workspace_ref'', opt_str (workspace_ref t)),
      (''control_flow_state'', PDict (control_flow_state t)),
      (''executor_id'', opt_str (executor_id t)),
      (''executor_epoch'', opt_str (executor_epoch t))]"

text \<open>
  Documents written before the \<open>main_takeover\<close> flag existed: the flag is inferred from an
  agent node that waits for approval or is to be reissued. \<open>node_types\<close> is the type of each
  node of the snapshot; an identifier that is not hashable raises.
\<close>

fun node_types :: "pyval list \<Rightarrow> (string, pyval) dict \<Rightarrow> (string, pyval) dict option" where
  "node_types [] acc = Some acc"
| "node_types (PDict d # ns) acc =
     (case dget d ''id'' of
        None \<Rightarrow> node_types ns acc
      | Some i \<Rightarrow>
          (if \<not> truthy i then node_types ns acc
           else if \<not> hashable i then None
           else (case i of
                   PStr s \<Rightarrow> node_types ns (dput s (dgetd d ''node_type'' (PStr ''agent'')) acc)
                 | _ \<Rightarrow> node_types ns acc)))"
| "node_types (_ # ns) acc = node_types ns acc"

definition takeover_node :: "(string, pyval) dict \<Rightarrow> string \<times> pyval \<Rightarrow> bool" where
  "takeover_node types p =
     (case snd p of
        PDict d \<Rightarrow> dgetd types (fst p) (PStr ''agent'') = PStr ''agent''
          \<and> (dgetd d ''status'' PNone = PStr ''waiting_approval''
             \<or> dgetd d ''next_attempt_trigger'' PNone = PStr ''recovery_reissue'')
      | _ \<Rightarrow> False)"

definition infer_takeover :: "doc \<Rightarrow> bool option" where
  "infer_takeover data =
     (if dget data ''main_takeover'' = None \<and> truthy (dgetd data ''main_session_id'' PNone)
      then Option.bind (field as_opt_dict data ''snapshot_definition'' None) (\<lambda>snapshot.
           Option.bind (field as_list (case snapshot of None \<Rightarrow> [] | Some d \<Rightarrow> d) ''nodes'' []) (\<lambda>nodes.
           Option.bind (node_types nodes []) (\<lambda>types.
           Option.bind (field as_dict data ''node_states'' []) (\<lambda>states.
             Some (list_ex (takeover_node types) states)))))
      else Some (dget data ''main_takeover'' = Some (PBool True)))"

definition task_from_dict :: "string \<Rightarrow> string \<Rightarrow> doc \<Rightarrow> task option" where
  "task_from_dict fresh_id now data =
     Option.bind (infer_takeover data) (\<lambda>takeover.
     Option.bind (field as_str data ''task_id'' fresh_id) (\<lambda>a1.
     Option.bind (field as_str data ''workflow_id'' []) (\<lambda>a2.
     Option.bind (field as_str data ''name'' []) (\<lambda>a3.
     Option.bind (field as_str data ''status'' ''running'') (\<lambda>a4.
     Option.bind (field as_opt_str data ''current_node_id'' None) (\<lambda>a5.
     Option.bind (field as_opt_str data ''run_id'' None) (\<lambda>a6.
     Option.bind (field as_str data ''created_at'' now) (\<lambda>a7.
     Option.bind (field as_str data ''updated_at'' a7) (\<lambda>a8.
     Option.bind (field as_opt_str data ''started_at'' None) (\<lambda>a9.
     Option.bind (field as_opt_str data ''completed_at'' None) (\<lambda>a10.
     Option.bind (node_states_from_dict data) (\<lambda>a11.
     Option.bind (field as_opt_dict data ''snapshot_definition'' None) (\<lambda>a12.
     Option.bind (field as_str_dict data ''parameter_values'' []) (\<lambda>a13.
     Option.bind (field as_opt_dicts data ''snapshot_variables'' None) (\<lambda>a14.
     Option.bind (field as_opt_str data ''main_session_id'' None) (\<lambda>a15.
     Option.bind (field strs_of data ''disabled_node_ids'' []) (\<lambda>a16.
     Option.bind (field as_opt_str data ''scheme_id'' None) (\<lambda>a17.
     Option.bind (field as_opt_str data ''workspace_override'' None) (\<lambda>a18.
     Option.bind (field as_str data ''workspace_mode'' ''legacy_shared'') (\<lambda>a19.
     Option.bind (field as_opt_str data ''workspace_ref'' None) (\<lambda>a20.
     Option.bind (field as_opt_str data ''executor_id'' None) (\<lambda>a22.
     Option.bind (field as_opt_str data ''executor_epoch'' None) (\<lambda>a23.
       Some \<lparr>task_id = a1, workflow_id = a2, task_name = a3, task_status = a4, main_session_id = a15,
         main_takeover = takeover, current_node_id = a5, run_id = a6, created_at = a7, updated_at = a8,
         task_started_at = a9, task_completed_at = a10, node_states = a11, snapshot_definition = a12,
         parameter_values = a13, snapshot_variables = a14, workspace_override = a18,
         workspace_mode = a19, workspace_ref = a20, disabled_node_ids = a16, scheme_id = a17,
         control_flow_state = dict_or_empty data ''control_flow_state'',
         executor_id = a22, executor_epoch = a23\<rparr>)))))))))))))))))))))))"

interpretation task_codec:
  codec task_to_dict "task_from_dict fresh_id now" "\<lambda>t. states_ok (node_states t)" for fresh_id now
proof
  fix t :: task assume ok: "states_ok (node_states t)"
  have "node_states_from_dict (task_to_dict t) = Some (node_states t)"
    by (rule node_states_roundtrip [OF ok]) (simp add: task_to_dict_def)
  moreover have "infer_takeover (task_to_dict t) = Some (main_takeover t)"
    by (simp add: infer_takeover_def task_to_dict_def)
  ultimately show "task_from_dict fresh_id now (task_to_dict t) = Some t"
    by (simp add: task_from_dict_def field_def) (simp add: task_to_dict_def dict_or_empty_def)
qed

text \<open>
  C28. A task is what is read back from the document it was written to, with its node states,
  the nested states of the body nodes and their histories.
\<close>

theorem task_roundtrip:
  "states_ok (node_states t) \<Longrightarrow> task_from_dict fresh_id now (task_to_dict t) = Some t"
  by (rule task_codec.dec_enc)

theorem task_roundtrip_witness:
  "\<exists>t. task_from_dict ''fresh'' ''now'' (task_to_dict t) = Some t \<and> task_id t = ''t1'' \<and> node_states t \<noteq> []"
proof -
  define f where "f = \<lparr>node_id = ''n1'', status = ''failed'', session_id = [], started_at = Some ''t0'',
    completed_at = None, summary = [], error = ''boom'', rejection_count = 1, rejection_reason = [],
    reject_upstream_count = 0, outputs = [(''a'', ''b'')], stdout = [], stderr = [],
    token_usage = Some [(''total'', PInt 3)], token_usage_calls = [], rejection_history = [],
    iteration_history = [], is_skipped = False, attempt_count = 2, automatic_retry_count = 1,
    next_retry_at = None, attempt_history = [], input_snapshot = [], upstream_summary_snapshot = [],
    next_attempt_trigger = ''auto_retry''\<rparr>"
  define t where "t = \<lparr>task_id = ''t1'', workflow_id = ''w'', task_name = ''T'', task_status = ''failed'',
    main_session_id = None, main_takeover = False, current_node_id = None, run_id = None,
    created_at = ''c'', updated_at = ''u'', task_started_at = None, task_completed_at = None,
    node_states = [(''n1'', Node f [(''n2'', Node f [])])], snapshot_definition = None,
    parameter_values = [], snapshot_variables = None, workspace_override = None,
    workspace_mode = ''isolated'', workspace_ref = None, disabled_node_ids = [''n9''], scheme_id = None,
    control_flow_state = [], executor_id = None, executor_epoch = None\<rparr>"
  have "states_ok (node_states t)"
    by (simp add: t_def f_def states_ok_def entry_ok_def fields_ok_def)
  from task_roundtrip [OF this, of "''fresh''" "''now''"] show ?thesis
    by (intro exI [of _ t]) (simp add: t_def)
qed

text \<open>
  A workflow state and a run record are what is read back from their documents.
\<close>

theorem workflow_state_and_run_roundtrip:
  "states_ok (ws_node_states w) \<Longrightarrow> list_all node_ok (rr_node_executions r) \<Longrightarrow>
     workflow_state_from_dict (workflow_state_to_dict w) = Some w \<and>
     run_record_from_dict fresh_id now (run_record_to_dict r) = Some r"
  using workflow_state_codec.dec_enc run_record_codec.dec_enc by blast

theorem workflow_state_and_run_roundtrip_witness:
  "workflow_state_from_dict (workflow_state_to_dict
     \<lparr>ws_workflow_id = ''w'', ws_status = ''idle'', ws_current_node_id = None, ws_current_run_id = Some ''r'',
      ws_started_at = None, ws_completed_at = None, ws_node_states = []\<rparr>) =
   Some \<lparr>ws_workflow_id = ''w'', ws_status = ''idle'', ws_current_node_id = None, ws_current_run_id = Some ''r'',
      ws_started_at = None, ws_completed_at = None, ws_node_states = []\<rparr>"
  by (rule workflow_state_and_run_roundtrip [where r = "\<lparr>rr_run_id = [], rr_workflow_id = [], rr_status = [],
        rr_started_at = [], rr_completed_at = None, rr_node_executions = []\<rparr>", THEN conjunct1])
    (simp_all add: states_ok_def)

section \<open>Documents without the takeover flag\<close>

definition snapshot_nodes :: "task \<Rightarrow> pyval list option" where
  "snapshot_nodes t = field as_list (case snapshot_definition t of None \<Rightarrow> [] | Some d \<Rightarrow> d) ''nodes'' []"

definition waits_for_main :: "(string, pyval) dict \<Rightarrow> string \<times> node_state \<Rightarrow> bool" where
  "waits_for_main types p =
     (dgetd types (fst p) (PStr ''agent'') = PStr ''agent'' \<and>
      (status (own (snd p)) = ''waiting_approval'' \<or>
       next_attempt_trigger (own (snd p)) = ''recovery_reissue''))"

lemma takeover_node_written: "takeover_node types (node_entry_to_dict b p) = waits_for_main types p"
  by (simp add: takeover_node_def node_entry_to_dict_def waits_for_main_def dgetd_def dget_always)

text \<open>
  A document without the \<open>main_takeover\<close> flag is read as the same task, the flag inferred:
  set when the task has a main session and one of its agent nodes waits for approval or is
  to be reissued after a recovery, and not otherwise.
\<close>

theorem legacy_takeover_inferred:
  assumes "states_ok (node_states t)" and "snapshot_nodes t = Some ns" and "node_types ns [] = Some types"
  shows "task_from_dict fresh_id now (dpop ''main_takeover'' (task_to_dict t)) =
    Some (t\<lparr>main_takeover := main_session_id t \<notin> {None, Some []} \<and>
      (\<exists>p \<in> set (node_states t). waits_for_main types p)\<rparr>)"
proof -
  let ?d = "dpop ''main_takeover'' (task_to_dict t)"
  have states: "node_states_from_dict ?d = Some (node_states t)"
    by (rule node_states_roundtrip [OF assms(1)]) (simp add: task_to_dict_def)
  have "infer_takeover ?d = Some (main_session_id t \<notin> {None, Some []} \<and>
      (\<exists>p \<in> set (node_states t). waits_for_main types p))"
    using assms(2,3)
    by (auto simp: infer_takeover_def field_def dgetd_def task_to_dict_def snapshot_nodes_def opt_str_def
        node_states_to_dict_def list_ex_iff takeover_node_written as_opt_dict_opt_dict split: option.splits)
  with states show ?thesis
    by (simp add: task_from_dict_def field_def) (simp add: task_to_dict_def dict_or_empty_def)
qed

theorem legacy_takeover_inferred_witness:
  "\<exists>t. main_takeover t \<and> task_from_dict ''f'' ''now'' (dpop ''main_takeover'' (task_to_dict (t\<lparr>main_takeover := False\<rparr>))) = Some t"
proof -
  define f where "f = \<lparr>node_id = ''n1'', status = ''waiting_approval'', session_id = ''s'', started_at = Some ''t0'',
    completed_at = None, summary = [], error = [], rejection_count = 0, rejection_reason = [],
    reject_upstream_count = 0, outputs = [], stdout = [], stderr = [],
    token_usage = None, token_usage_calls = [], rejection_history = [],
    iteration_history = [], is_skipped = False, attempt_count = 1, automatic_retry_count = 0,
    next_retry_at = None, attempt_history = [], input_snapshot = [], upstream_summary_snapshot = [],
    next_attempt_trigger = ''initial''\<rparr>"
  define t where "t = \<lparr>task_id = ''t1'', workflow_id = ''w'', task_name = ''T'', task_status = ''running'',
    main_session_id = Some ''m'', main_takeover = False, current_node_id = None, run_id = None,
    created_at = ''c'', updated_at = ''u'', task_started_at = None, task_completed_at = None,
    node_states = [(''n1'', Node f [])], snapshot_definition = Some [(''nodes'', PList [PDict [(''id'', PStr ''n1'')]])],
    parameter_values = [], snapshot_variables = None, workspace_override = None,
    workspace_mode = ''isolated'', workspace_ref = None, disabled_node_ids = [], scheme_id = None,
    control_flow_state = [], executor_id = None, executor_epoch = None\<rparr>"
  have "states_ok (node_states t)"
    by (simp add: t_def f_def states_ok_def entry_ok_def fields_ok_def)
  from legacy_takeover_inferred [OF this, of "[PDict [(''id'', PStr ''n1'')]]" "[(''n1'', PStr ''agent'')]" "''f''" "''now''"]
  show ?thesis
    by (intro exI [of _ "t\<lparr>main_takeover := True\<rparr>"])
      (simp add: t_def f_def snapshot_nodes_def waits_for_main_def dgetd_def field_def)
qed

end
