(* ===== verification/FailurePolicy.thy ===== *)
theory FailurePolicy
  imports RuntimeModels
begin

text \<open>
  \<open>src/workflow/failure_policy.py\<close>: what happens to a node that failed. The functions copy the
  state they change (\<open>_copy_state\<close>), so here they are functions from states to states; a
  \<open>ValueError\<close> is \<open>Inl\<close>. The operations are the steps of a state machine (\<open>node_op\<close>).
\<close>

section \<open>Automatic retries\<close>

definition max_auto_retry_count :: int where
  "max_auto_retry_count = 20"

definition max_auto_retry_interval_seconds :: int where
  "max_auto_retry_interval_seconds = 86400"

definition initial_attempt_trigger :: string where
  "initial_attempt_trigger = ''initial''"

definition auto_retry_trigger :: string where
  "auto_retry_trigger = ''auto_retry''"

definition manual_retry_trigger :: string where
  "manual_retry_trigger = ''manual_retry''"

definition validator_retry_trigger :: string where
  "validator_retry_trigger = ''validator_retry''"

definition recovery_reissue_trigger :: string where
  "recovery_reissue_trigger = ''recovery_reissue''"

definition retry_triggers :: "string set" where
  "retry_triggers = {auto_retry_trigger, manual_retry_trigger, validator_retry_trigger}"

lemmas trigger_defs = initial_attempt_trigger_def auto_retry_trigger_def manual_retry_trigger_def
  validator_retry_trigger_def recovery_reissue_trigger_def retry_triggers_def

record policy_node =
  policy_retry_count :: pyval
  policy_retry_interval :: pyval
  policy_auto_skip :: bool

definition normalize_node_status :: "string \<Rightarrow> string" where
  "normalize_node_status s = (if s \<in> {''success'', ''completed''} then ''completed'' else s)"

definition automatic_retries_remaining :: "policy_node \<Rightarrow> node_state \<Rightarrow> int" where
  "automatic_retries_remaining node s =
     (case policy_retry_count node of
        PInt configured \<Rightarrow>
          (let consumed = max 0 (automatic_retry_count (own s))
           in max 0 (min configured max_auto_retry_count - consumed))
      | _ \<Rightarrow> 0)"

definition can_auto_retry :: "policy_node \<Rightarrow> node_state \<Rightarrow> bool" where
  "can_auto_retry node s =
     (normalize_node_status (status (own s)) = ''failed'' \<and> 0 < automatic_retries_remaining node s)"

definition should_auto_skip :: "policy_node \<Rightarrow> node_state \<Rightarrow> bool" where
  "should_auto_skip node s =
     (normalize_node_status (status (own s)) = ''failed'' \<and> policy_auto_skip node \<and> \<not> can_auto_retry node s)"

section \<open>Attempts\<close>

fun update_own :: "(node_fields \<Rightarrow> node_fields) \<Rightarrow> node_state \<Rightarrow> node_state" where
  "update_own f (Node s children) = Node (f s) children"

lemma update_own_simps [simp]:
  "own (update_own f s) = f (own s)"
  "child_states (update_own f s) = child_states s"
  by (cases s; simp)+

definition begin_node_attempt :: "string \<Rightarrow> doc option \<Rightarrow> string option \<Rightarrow> node_state \<Rightarrow> node_state" where
  "begin_node_attempt now input upstream state =
     (let s = own state;
          first = (attempt_count s = 0 \<or> next_attempt_trigger s = initial_attempt_trigger);
          frozen_input = (case input of Some d \<Rightarrow> if first then d else input_snapshot s | None \<Rightarrow> input_snapshot s);
          frozen_upstream = (case upstream of Some u \<Rightarrow> if first then u else upstream_summary_snapshot s
                             | None \<Rightarrow> upstream_summary_snapshot s);
          reissuing = (next_attempt_trigger s = recovery_reissue_trigger)
      in update_own (\<lambda>s. s\<lparr>status := ''running'',
           session_id := if reissuing then session_id s else [],
           started_at := Some now,
           completed_at := None,
           summary := if reissuing then summary s else [],
           error := [],
           outputs := [],
           stdout := [],
           stderr := [],
           is_skipped := False,
           attempt_count := attempt_count s + 1,
           next_retry_at := None,
           input_snapshot := frozen_input,
           upstream_summary_snapshot := frozen_upstream\<rparr>) state)"

text \<open>\<open>a or b\<close> on optional strings: an empty string counts as absent.\<close>

definition str_default :: "string option \<Rightarrow> string option \<Rightarrow> string option" where
  "str_default a b = (if a = None \<or> a = Some [] then b else a)"

definition attempt_record :: "string \<Rightarrow> string option \<Rightarrow> node_fields \<Rightarrow> doc" where
  "attempt_record normalized completed s =
     [(''attempt_number'', PInt (attempt_count s)),
      (''trigger'', PStr (next_attempt_trigger s)),
      (''status'', PStr normalized),
      (''automatic_retry_count'', PInt (automatic_retry_count s)),
      (''session_id'', PStr (session_id s)),
      (''started_at'', opt_str (started_at s)),
      (''completed_at'', opt_str (str_default completed (completed_at s))),
      (''error'', PStr (error s))]"

definition same_attempt :: "int \<Rightarrow> doc \<Rightarrow> bool" where
  "same_attempt n r = eq_int (dgetd r ''attempt_number'' PNone) n"

definition record_attempt :: "string option \<Rightarrow> string option \<Rightarrow> node_state \<Rightarrow> node_state" where
  "record_attempt new_status completed state =
     (let s = own state;
          normalized = normalize_node_status
            (case str_default new_status None of None \<Rightarrow> status s | Some x \<Rightarrow> x);
          r = attempt_record normalized completed s;
          history = attempt_history s;
          history' = (if history \<noteq> [] \<and> same_attempt (attempt_count s) (last history)
                      then butlast history @ [r] else history @ [r])
      in update_own (\<lambda>s. s\<lparr>status := normalized,
           completed_at := str_default completed (completed_at s),
           attempt_history := history'\<rparr>) state)"

section \<open>Retry, activation, skip\<close>

datatype policy_error = UnsupportedTrigger string | NotFailed | NotWaiting

definition retry_replayed :: "string \<Rightarrow> string option \<Rightarrow> node_fields \<Rightarrow> bool" where
  "retry_replayed trigger next s =
     (trigger = auto_retry_trigger \<and> status s = ''retry_waiting''
      \<and> next_attempt_trigger s = trigger \<and> next_retry_at s = next)"

definition prepare_node_retry ::
  "string \<Rightarrow> string option \<Rightarrow> bool \<Rightarrow> node_state \<Rightarrow> policy_error + node_state" where
  "prepare_node_retry trigger next preserve state =
     (let s = own state
      in if trigger \<notin> retry_triggers then Inl (UnsupportedTrigger trigger)
         else if retry_replayed trigger next s then Inr state
         else if normalize_node_status (status s) \<noteq> ''failed'' then Inl NotFailed
         else Inr (Node (s\<lparr>status := if next \<noteq> None then ''retry_waiting'' else ''pending'',
           session_id := [],
           started_at := None,
           completed_at := None,
           summary := [],
           error := [],
           rejection_reason := [],
           outputs := [],
           stdout := [],
           stderr := [],
           is_skipped := False,
           automatic_retry_count := if trigger = auto_retry_trigger then automatic_retry_count s + 1 else 0,
           next_retry_at := next,
           next_attempt_trigger := trigger\<rparr>)
           (if preserve then child_states state else [])))"

definition activate_scheduled_retry :: "node_state \<Rightarrow> policy_error + node_state" where
  "activate_scheduled_retry state =
     (if status (own state) \<noteq> ''retry_waiting'' then Inl NotWaiting
      else Inr (update_own (\<lambda>s. s\<lparr>status := ''pending'', next_retry_at := None\<rparr>) state))"

definition apply_failure_skip :: "string option \<Rightarrow> node_state \<Rightarrow> policy_error + node_state" where
  "apply_failure_skip completed state =
     (if normalize_node_status (status (own state)) \<noteq> ''failed'' then Inl NotFailed
      else Inr (update_own (\<lambda>s. s\<lparr>status := ''skipped'',
             session_id := [],
             completed_at := str_default completed (completed_at s),
             summary := [],
             outputs := [],
             stdout := [],
             stderr := [],
             is_skipped := True,
             next_retry_at := None\<rparr>) state))"

section \<open>The life of a node\<close>

text \<open>
  The operations in any order, as the engine applies them: both callers that prepare automatic
  retries, \<open>_apply_failed_node_policy\<close> of \<open>execution_flow.py\<close> (\<open>failed_verdict\<close> of NodeSequence) and the
  recovery of \<open>task_recovery.py\<close> (\<open>recover_running\<close> of TaskRecovery), do so under
  \<open>can_auto_retry\<close>; an operation that raises changes nothing. (The nested states of a subprocess
  node are retried with their parent, by the plugin, and have no policy of their own.)
\<close>

datatype node_op =
    Begin string "doc option" "string option"
  | Finish "string option" "string option"
  | AutoRetry "string option" bool
  | UserRetry string "string option" bool
  | Activate
  | SkipFailed "string option"

definition keep :: "'a \<Rightarrow> 'e + 'a \<Rightarrow> 'a" where
  "keep s r = (case r of Inl _ \<Rightarrow> s | Inr s' \<Rightarrow> s')"

lemma keep_simps [simp]: "keep s (Inl e) = s" "keep s (Inr s') = s'"
  by (simp_all add: keep_def)

fun node_step :: "policy_node \<Rightarrow> node_state \<Rightarrow> node_op \<Rightarrow> node_state" where
  "node_step p s (Begin now i u) = begin_node_attempt now i u s"
| "node_step p s (Finish st c) = record_attempt st c s"
| "node_step p s (AutoRetry next keep_children) =
     (if can_auto_retry p s then keep s (prepare_node_retry auto_retry_trigger next keep_children s) else s)"
| "node_step p s (UserRetry trigger next keep_children) =
     (if trigger = auto_retry_trigger then s else keep s (prepare_node_retry trigger next keep_children s))"
| "node_step p s Activate = keep s (activate_scheduled_retry s)"
| "node_step p s (SkipFailed c) = keep s (apply_failure_skip c s)"

definition retry_budget :: "policy_node \<Rightarrow> int" where
  "retry_budget p =
     (case policy_retry_count p of PInt n \<Rightarrow> max 0 (min n max_auto_retry_count) | _ \<Rightarrow> 0)"

lemma remaining_budget:
  "0 \<le> automatic_retry_count (own s) \<Longrightarrow>
     automatic_retries_remaining p s = max 0 (retry_budget p - automatic_retry_count (own s))"
  by (auto simp: automatic_retries_remaining_def retry_budget_def Let_def split: pyval.splits)

lemma budget_bounds: "0 \<le> retry_budget p" "retry_budget p \<le> max_auto_retry_count"
  by (auto simp: retry_budget_def max_auto_retry_count_def split: pyval.splits)

lemma prepare_Inr:
  assumes "prepare_node_retry trigger next preserve s = Inr s'"
  shows "automatic_retry_count (own s') \<in> {automatic_retry_count (own s), 0} \<or>
      (trigger = auto_retry_trigger \<and> automatic_retry_count (own s') = automatic_retry_count (own s) + 1)"
    and "attempt_count (own s') = attempt_count (own s)"
    and "attempt_history (own s') = attempt_history (own s)"
    and "input_snapshot (own s') = input_snapshot (own s)"
    and "upstream_summary_snapshot (own s') = upstream_summary_snapshot (own s)"
    and "next_attempt_trigger (own s') \<in> retry_triggers"
  using assms by (auto simp: prepare_node_retry_def Let_def retry_replayed_def split: if_splits)

definition within_budget :: "policy_node \<Rightarrow> node_state \<Rightarrow> bool" where
  "within_budget p s = (0 \<le> automatic_retry_count (own s) \<and> automatic_retry_count (own s) \<le> retry_budget p)"

lemma within_budget_step: "within_budget p s \<Longrightarrow> within_budget p (node_step p s a)"
proof (cases a)
  case (AutoRetry nx k)
  assume w: "within_budget p s"
  show ?thesis
  proof (cases "can_auto_retry p s")
    case True
    then have "automatic_retry_count (own s) < retry_budget p"
      using w remaining_budget [of s p] by (simp add: can_auto_retry_def within_budget_def)
    with w show ?thesis
      using prepare_Inr(1) [of auto_retry_trigger nx k s] AutoRetry True
      by (cases "prepare_node_retry auto_retry_trigger nx k s")
        (auto simp: within_budget_def budget_bounds)
  qed (simp add: AutoRetry w)
next
  case (UserRetry t nx k)
  assume "within_budget p s"
  then show ?thesis
    using prepare_Inr(1) [of t nx k s] UserRetry budget_bounds(1) [of p]
    by (cases "prepare_node_retry t nx k s") (auto simp: within_budget_def)
qed (auto simp: within_budget_def begin_node_attempt_def record_attempt_def activate_scheduled_retry_def
    apply_failure_skip_def Let_def)

interpretation budget: machine "\<lambda>s. automatic_retry_count (own s) = 0" "node_step p" "within_budget p" for p
  by unfold_locales (rule within_budget_step | simp add: within_budget_def budget_bounds)+

text \<open>
  The retries that happen in a run, read off the status of the node: a failed node becomes pending or
  waits for its retry. \<open>chain p s k as\<close> counts the automatic ones since the last manual or validator
  retry, starting from \<open>k\<close>.
\<close>

definition retried :: "node_state \<Rightarrow> node_state \<Rightarrow> bool" where
  "retried s s' = (normalize_node_status (status (own s)) = ''failed'' \<and> status (own s') \<in> {''pending'', ''retry_waiting''})"

fun chain_step :: "policy_node \<Rightarrow> node_state \<Rightarrow> nat \<Rightarrow> node_op \<Rightarrow> nat" where
  "chain_step p s k (AutoRetry nx kc) = (if retried s (node_step p s (AutoRetry nx kc)) then Suc k else k)"
| "chain_step p s k (UserRetry t nx kc) = (if retried s (node_step p s (UserRetry t nx kc)) then 0 else k)"
| "chain_step p s k _ = k"

fun retry_chain :: "policy_node \<Rightarrow> node_state \<Rightarrow> nat \<Rightarrow> node_op list \<Rightarrow> nat" where
  "retry_chain p s k [] = k"
| "retry_chain p s k (a # as) = retry_chain p (node_step p s a) (chain_step p s k a) as"

lemma failed_not_retried: "normalize_node_status st = ''failed'' \<Longrightarrow> st \<notin> {''pending'', ''retry_waiting''}"
  by (auto simp: normalize_node_status_def split: if_splits)

lemma prepare_counts:
  assumes "prepare_node_retry trigger nx kc s = Inr s'" and "normalize_node_status (status (own s)) = ''failed''"
  shows "retried s s'" and "automatic_retry_count (own s') = (if trigger = auto_retry_trigger then automatic_retry_count (own s) + 1 else 0)"
  using assms by (auto simp: prepare_node_retry_def Let_def retry_replayed_def retried_def normalize_node_status_def split: if_splits)

lemma chain_step_counts: "automatic_retry_count (own s) = int k \<Longrightarrow> automatic_retry_count (own (node_step p s a)) = int (chain_step p s k a)"
proof (cases a)
  case (AutoRetry nx kc)
  assume k: "automatic_retry_count (own s) = int k"
  show ?thesis
  proof (cases "can_auto_retry p s")
    case True
    then have f: "normalize_node_status (status (own s)) = ''failed''" by (simp add: can_auto_retry_def)
    show ?thesis
    proof (cases "prepare_node_retry auto_retry_trigger nx kc s")
      case (Inl e)
      then show ?thesis using True AutoRetry k failed_not_retried [OF f] by (simp add: retried_def)
    next
      case (Inr s')
      then show ?thesis using prepare_counts [OF Inr f] True AutoRetry k by simp
    qed
  next
    case False
    then show ?thesis using AutoRetry k failed_not_retried by (auto simp: retried_def)
  qed
next
  case (UserRetry t nx kc)
  assume k: "automatic_retry_count (own s) = int k"
  have same: "\<not> retried s s" using failed_not_retried by (auto simp: retried_def)
  show ?thesis
  proof (cases "t = auto_retry_trigger")
    case False
    show ?thesis
    proof (cases "prepare_node_retry t nx kc s")
      case (Inl e)
      then show ?thesis using UserRetry k False same by simp
    next
      case (Inr s')
      then have "normalize_node_status (status (own s)) = ''failed''"
        using False by (auto simp: prepare_node_retry_def Let_def retry_replayed_def split: if_splits)
      then show ?thesis using prepare_counts [OF Inr] UserRetry Inr False by simp
    qed
  qed (use UserRetry k same in simp)
qed (auto simp: begin_node_attempt_def record_attempt_def activate_scheduled_retry_def apply_failure_skip_def Let_def)

lemma chain_counts:
  "automatic_retry_count (own s) = int k \<Longrightarrow>
     automatic_retry_count (own (fold (\<lambda>a t. node_step p t a) as s)) = int (retry_chain p s k as)"
  by (induction as arbitrary: s k) (simp_all add: chain_step_counts)

text \<open>
  C24. Whatever happens to a node, the automatic retries that happen in a row (without a manual or
  validator retry between them) are at most as many as its policy says, and never more than
  twenty; the counter of the node is their number.
\<close>

theorem retries_within_budget:
  assumes "automatic_retry_count (own s) = 0"
  shows "int (retry_chain p s 0 as) \<le> min 20 (retry_budget p) \<and>
    automatic_retry_count (own (fold (\<lambda>a t. node_step p t a) as s)) = int (retry_chain p s 0 as)"
  using budget.run_from_init [of s p as] budget_bounds(2) [of p] chain_counts [of s 0 p as] assms
  by (simp add: within_budget_def max_auto_retry_count_def)

theorem retries_within_budget_witness:
  "retry_chain \<lparr>policy_retry_count = PInt 2, policy_retry_interval = PInt 0, policy_auto_skip = True\<rparr> (new_node_state ''n'') 0
      [Begin ''t0'' None None, Finish (Some ''failed'') None, AutoRetry None True] \<le> 2"
  using retries_within_budget [of "new_node_state ''n''"
      "\<lparr>policy_retry_count = PInt 2, policy_retry_interval = PInt 0, policy_auto_skip = True\<rparr>"
      "[Begin ''t0'' None None, Finish (Some ''failed'') None, AutoRetry None True]"]
  by (simp add: new_node_state_def retry_budget_def max_auto_retry_count_def del: retry_chain.simps)

section \<open>The history of attempts\<close>

definition numbered :: "node_state \<Rightarrow> bool" where
  "numbered s = (0 \<le> attempt_count (own s) \<and>
     (\<exists>ns. map (\<lambda>r. dgetd r ''attempt_number'' PNone) (attempt_history (own s)) = map PInt ns \<and>
       sorted_wrt (<) ns \<and> (\<forall>n \<in> set ns. 0 \<le> n \<and> n \<le> attempt_count (own s))))"

lemma numbered_prepare: "numbered s \<Longrightarrow> prepare_node_retry t nx k s = Inr s' \<Longrightarrow> numbered s'"
  by (simp add: numbered_def prepare_Inr(2,3))

lemma numbered_begin: "numbered s \<Longrightarrow> numbered (begin_node_attempt now i u s)"
  unfolding numbered_def by (fastforce simp: begin_node_attempt_def Let_def)

lemma map_snocE:
  assumes "map f (xs @ [x]) = map g ns"
  obtains ms m where "ns = ms @ [m]" "map f xs = map g ms" "f x = g m"
  using assms by (cases ns rule: rev_cases) auto

lemma attempt_record_number [simp]: "dgetd (attempt_record st c s) ''attempt_number'' v = PInt (attempt_count s)"
  by (simp add: attempt_record_def dgetd_def)

lemma numbered_record: "numbered s \<Longrightarrow> numbered (record_attempt st c s)"
proof -
  assume "numbered s"
  then obtain ns where z: "0 \<le> attempt_count (own s)"
    and ns: "map (\<lambda>r. dgetd r ''attempt_number'' PNone) (attempt_history (own s)) = map PInt ns"
    and sorted: "sorted_wrt (<) ns" and le: "\<And>n. n \<in> set ns \<Longrightarrow> 0 \<le> n \<and> n \<le> attempt_count (own s)"
    unfolding numbered_def by blast
  show ?thesis
  proof (cases "attempt_history (own s)" rule: rev_cases)
    case Nil
    with z show ?thesis
      by (auto simp: numbered_def record_attempt_def Let_def intro!: exI [of _ "[attempt_count (own s)]"])
  next
    case (snoc h r)
    obtain ms m where ms: "ns = ms @ [m]" and h: "map (\<lambda>r. dgetd r ''attempt_number'' PNone) h = map PInt ms"
      and r: "dgetd r ''attempt_number'' PNone = PInt m"
      by (rule map_snocE [OF ns [unfolded snoc]])
    have below: "\<forall>n \<in> set ms. n < m" using sorted ms by (simp add: sorted_wrt_append)
    have m: "m \<le> attempt_count (own s)" using le ms by simp
    show ?thesis
    proof (cases "m = attempt_count (own s)")
      case True
      with snoc h r z sorted ms le show ?thesis
        by (auto simp: numbered_def record_attempt_def same_attempt_def Let_def intro!: exI [of _ "ms @ [m]"])
    next
      case False
      with m have lt: "m < attempt_count (own s)" by simp
      with below have "\<forall>n \<in> set ms. n < attempt_count (own s)" by fastforce
      with False lt snoc h r z sorted ms le show ?thesis
        by (auto simp: numbered_def record_attempt_def same_attempt_def Let_def sorted_wrt_append
            intro!: exI [of _ "ms @ [m, attempt_count (own s)]"])
    qed
  qed
qed

lemma numbered_step: "numbered s \<Longrightarrow> numbered (node_step p s a)"
proof (cases a)
  case (AutoRetry nx k)
  assume "numbered s"
  then show ?thesis
    using AutoRetry numbered_prepare [of s auto_retry_trigger nx k]
    by (cases "prepare_node_retry auto_retry_trigger nx k s") auto
next
  case (UserRetry t nx k)
  assume "numbered s"
  then show ?thesis
    using UserRetry numbered_prepare [of s t nx k]
    by (cases "prepare_node_retry t nx k s") auto
next
  case Activate
  assume "numbered s"
  then show ?thesis using Activate by (simp add: activate_scheduled_retry_def numbered_def)
next
  case (SkipFailed c)
  assume "numbered s"
  then show ?thesis using SkipFailed by (simp add: apply_failure_skip_def numbered_def)
qed (simp_all add: numbered_begin numbered_record)

interpretation history: machine "\<lambda>s. attempt_count (own s) = 0 \<and> attempt_history (own s) = []" "node_step p" numbered for p
  by unfold_locales (rule numbered_step | simp add: numbered_def)+

text \<open>The numbers of the attempts that end in a run, in the order in which they are recorded.\<close>

fun ended_attempts :: "policy_node \<Rightarrow> node_state \<Rightarrow> node_op list \<Rightarrow> int list" where
  "ended_attempts p s [] = []"
| "ended_attempts p s (a # as) =
     (case a of Finish _ _ \<Rightarrow> [attempt_count (own s)] | _ \<Rightarrow> []) @ ended_attempts p (node_step p s a) as"

lemma ended_attempts_append:
  "ended_attempts p s (as @ bs) = ended_attempts p s as @ ended_attempts p (fold (\<lambda>a t. node_step p t a) as s) bs"
  by (induction as arbitrary: s) simp_all

definition recorded_numbers :: "node_state \<Rightarrow> pyval list" where
  "recorded_numbers s = map (\<lambda>r. dgetd r ''attempt_number'' PNone) (attempt_history (own s))"

lemma remdups_adj_snoc: "remdups_adj (xs @ [x]) = (if xs \<noteq> [] \<and> last xs = x then remdups_adj xs else remdups_adj xs @ [x])"
  by (induction xs rule: remdups_adj.induct) auto

lemma recorded_Finish:
  assumes "recorded_numbers s = map PInt (remdups_adj ns)"
  shows "recorded_numbers (record_attempt st c s) = map PInt (remdups_adj (ns @ [attempt_count (own s)]))"
proof (cases "attempt_history (own s)" rule: rev_cases)
  case Nil
  then have "ns = []" using assms by (simp add: recorded_numbers_def)
  with Nil show ?thesis by (simp add: recorded_numbers_def record_attempt_def Let_def)
next
  case (snoc h r)
  obtain ms m where ms: "remdups_adj ns = ms @ [m]" and h: "map (\<lambda>r. dgetd r ''attempt_number'' PNone) h = map PInt ms"
    and r: "dgetd r ''attempt_number'' PNone = PInt m"
    by (rule map_snocE [OF assms [unfolded recorded_numbers_def snoc]])
  have ne: "ns \<noteq> []" using ms by auto
  have "m = last ns" using ms last_remdups_adj [of ns] by simp
  then show ?thesis using snoc h r ms ne
    by (auto simp: recorded_numbers_def record_attempt_def same_attempt_def Let_def remdups_adj_snoc)
qed

lemma history_of_step:
  assumes "recorded_numbers s = map PInt (remdups_adj ns)"
  shows "recorded_numbers (node_step p s a) = map PInt (remdups_adj (ns @ ended_attempts p s [a]))"
proof (cases a)
  case (Finish st c)
  then show ?thesis using recorded_Finish [OF assms] by simp
next
  case (AutoRetry nx k)
  then show ?thesis using assms prepare_Inr(3) [of auto_retry_trigger nx k s]
    by (cases "prepare_node_retry auto_retry_trigger nx k s") (simp_all add: recorded_numbers_def)
next
  case (UserRetry t nx k)
  then show ?thesis using assms prepare_Inr(3) [of t nx k s]
    by (cases "prepare_node_retry t nx k s") (simp_all add: recorded_numbers_def)
qed (use assms in \<open>simp_all add: recorded_numbers_def begin_node_attempt_def activate_scheduled_retry_def
    apply_failure_skip_def Let_def\<close>)

lemma history_of_run:
  assumes "attempt_history (own s) = []"
  shows "recorded_numbers (fold (\<lambda>a t. node_step p t a) as s) = map PInt (remdups_adj (ended_attempts p s as))"
proof (induction as rule: rev_induct)
  case Nil
  then show ?case using assms by (simp add: recorded_numbers_def)
next
  case (snoc a as)
  then show ?case using history_of_step [OF snoc, of p a] by (simp add: ended_attempts_append)
qed

text \<open>
  C25. Each attempt of a node that ends is recorded exactly once, in the order of the attempts:
  whatever is done to a fresh node, the numbers in its history are those of the attempts that
  ended, an attempt that was ended again keeping its one entry; they increase strictly and do
  not exceed the number of attempts begun.
\<close>

theorem attempts_recorded_once:
  assumes "attempt_count (own s) = 0" and "attempt_history (own s) = []"
    and "s' = fold (\<lambda>a t. node_step p t a) as s" and "ns = remdups_adj (ended_attempts p s as)"
  shows "map (\<lambda>r. dgetd r ''attempt_number'' PNone) (attempt_history (own s')) = map PInt ns \<and>
    sorted_wrt (<) ns \<and> (\<forall>n \<in> set ns. n \<le> attempt_count (own s'))"
proof -
  have run: "map (\<lambda>r. dgetd r ''attempt_number'' PNone) (attempt_history (own s')) = map PInt ns"
    using history_of_run [OF assms(2)] assms(3,4) by (simp add: recorded_numbers_def)
  moreover obtain ms where "map (\<lambda>r. dgetd r ''attempt_number'' PNone) (attempt_history (own s')) = map PInt ms"
    "sorted_wrt (<) ms" "\<forall>n \<in> set ms. n \<le> attempt_count (own s')"
    using history.run_from_init [of s p as] assms unfolding numbered_def by blast
  moreover from run this(1) have "ms = ns" by (simp add: inj_map_eq_map inj_def)
  ultimately show ?thesis by simp
qed

theorem attempts_recorded_once_witness:
  "map (\<lambda>r. dgetd r ''attempt_number'' PNone) (attempt_history (own
      (fold (\<lambda>a t. node_step \<lparr>policy_retry_count = PInt 2, policy_retry_interval = PInt 0, policy_auto_skip = True\<rparr> t a)
        [Begin ''t0'' None None, Finish (Some ''failed'') None, AutoRetry None True, Begin ''t1'' None None, Finish None None, Finish None None]
        (new_node_state ''n'')))) = [PInt 1, PInt 2]"
proof -
  let ?p = "\<lparr>policy_retry_count = PInt 2, policy_retry_interval = PInt 0, policy_auto_skip = True\<rparr>"
  let ?as = "[Begin ''t0'' None None, Finish (Some ''failed'') None, AutoRetry None True, Begin ''t1'' None None, Finish None None, Finish None None]"
  have "remdups_adj (ended_attempts ?p (new_node_state ''n'') ?as) = [1, 2]" by code_simp
  with attempts_recorded_once [of "new_node_state ''n''" _ ?p ?as, OF _ _ refl refl] show ?thesis
    by (simp add: new_node_state_def)
qed

section \<open>Frozen inputs\<close>

definition frozen :: "node_state \<Rightarrow> node_state \<Rightarrow> bool" where
  "frozen s0 s =
     (0 < attempt_count (own s) \<and> next_attempt_trigger (own s) \<noteq> initial_attempt_trigger \<and>
      input_snapshot (own s) = input_snapshot (own s0) \<and>
      upstream_summary_snapshot (own s) = upstream_summary_snapshot (own s0))"

lemma retry_not_initial: "t \<in> retry_triggers \<Longrightarrow> t \<noteq> initial_attempt_trigger"
  by (auto simp: trigger_defs)

lemma frozen_prepare: "frozen s0 s \<Longrightarrow> prepare_node_retry t nx k s = Inr s' \<Longrightarrow> frozen s0 s'"
  using retry_not_initial by (simp add: frozen_def prepare_Inr)

lemma frozen_step: "frozen s0 s \<Longrightarrow> frozen s0 (node_step p s a)"
proof (cases a)
  case (AutoRetry nx k)
  assume "frozen s0 s"
  then show ?thesis
    using AutoRetry frozen_prepare [of s0 s auto_retry_trigger nx k]
    by (cases "prepare_node_retry auto_retry_trigger nx k s") auto
next
  case (UserRetry t nx k)
  assume "frozen s0 s"
  then show ?thesis
    using UserRetry frozen_prepare [of s0 s t nx k] by (cases "prepare_node_retry t nx k s") auto
qed (auto simp: frozen_def begin_node_attempt_def record_attempt_def activate_scheduled_retry_def
    apply_failure_skip_def Let_def split: option.splits)

interpretation frozen: machine "frozen s0" "node_step p" "frozen s0" for s0 p
  by unfold_locales (simp_all add: frozen_step)

text \<open>
  The input and the upstream summary of the first attempt are frozen: once a retry of a
  node has been prepared, nothing done to the node later changes them, whatever inputs later
  attempts are begun with.
\<close>

theorem inputs_frozen_after_retry:
  assumes "prepare_node_retry trigger next_at preserve s = Inr s'" and "0 < attempt_count (own s)"
  shows "input_snapshot (own (fold (\<lambda>a t. node_step p t a) as s')) = input_snapshot (own s) \<and>
    upstream_summary_snapshot (own (fold (\<lambda>a t. node_step p t a) as s')) = upstream_summary_snapshot (own s)"
proof -
  have "frozen s s'"
    using prepare_Inr [OF assms(1)] assms(2) retry_not_initial by (simp add: frozen_def)
  from frozen.run_from_init [OF this, of p as] show ?thesis by (simp add: frozen_def)
qed

theorem inputs_frozen_after_retry_witness:
  "\<exists>s s'. prepare_node_retry manual_retry_trigger None True s = Inr s' \<and>
     (\<forall>p. input_snapshot (own (node_step p s' (Begin ''t1'' (Some [(''other'', PInt 2)]) None))) = [(''x'', PInt 1)])"
proof -
  let ?s = "update_own (\<lambda>s. s\<lparr>status := ''failed'', attempt_count := 1, input_snapshot := [(''x'', PInt 1)]\<rparr>)
    (new_node_state ''n'')"
  obtain s' where s': "prepare_node_retry manual_retry_trigger None True ?s = Inr s'"
    by (simp add: prepare_node_retry_def trigger_defs retry_replayed_def new_node_state_def normalize_node_status_def)
  have "0 < attempt_count (own ?s)" by simp
  from inputs_frozen_after_retry [OF s' this, of _ "[Begin ''t1'' (Some [(''other'', PInt 2)]) None]"]
  show ?thesis using s' by (intro exI [of _ ?s] exI [of _ s']) simp
qed

section \<open>Chains of automatic retries\<close>

text \<open>One round: the retry is prepared, the new attempt begins and fails again.\<close>

definition failing_round :: "policy_node \<Rightarrow> node_state \<Rightarrow> node_state" where
  "failing_round p s =
     fold (\<lambda>a t. node_step p t a) [AutoRetry None True, Begin ''now'' None None, Finish (Some ''failed'') None] s"

lemma failing_round_count:
  assumes "can_auto_retry p s"
  shows "automatic_retry_count (own (failing_round p s)) = automatic_retry_count (own s) + 1"
    and "status (own (failing_round p s)) = ''failed''"
proof -
  have "\<not> retry_replayed auto_retry_trigger None (own s)" "auto_retry_trigger \<in> retry_triggers"
    using assms by (auto simp: can_auto_retry_def retry_replayed_def normalize_node_status_def trigger_defs split: if_splits)
  with assms show "automatic_retry_count (own (failing_round p s)) = automatic_retry_count (own s) + 1"
    and "status (own (failing_round p s)) = ''failed''"
    by (simp_all add: failing_round_def prepare_node_retry_def can_auto_retry_def begin_node_attempt_def
        record_attempt_def str_default_def normalize_node_status_def Let_def)
qed

lemma failing_rounds:
  assumes "status (own s) = ''failed''" and "automatic_retry_count (own s) = 0" and "int k \<le> retry_budget p"
  shows "status (own ((failing_round p ^^ k) s)) = ''failed'' \<and>
    automatic_retry_count (own ((failing_round p ^^ k) s)) = int k"
  using assms(3)
proof (induction k)
  case 0
  show ?case using assms(1,2) by simp
next
  case (Suc k)
  then have ih: "status (own ((failing_round p ^^ k) s)) = ''failed''"
    "automatic_retry_count (own ((failing_round p ^^ k) s)) = int k" by auto
  then have "can_auto_retry p ((failing_round p ^^ k) s)"
    using Suc.prems by (simp add: can_auto_retry_def remaining_budget normalize_node_status_def)
  from failing_round_count [OF this] ih show ?case by simp
qed

text \<open>
  C23. A node that keeps failing is retried exactly as often as its policy says, twenty times at
  most: each of the first retries is allowed, and after the last one it is skipped
  when the policy asks for that and stays failed otherwise.
\<close>

theorem failing_node_retried_exactly:
  assumes "status (own s) = ''failed''" and "automatic_retry_count (own s) = 0" and "int k \<le> retry_budget p"
  shows "(can_auto_retry p ((failing_round p ^^ k) s) \<longleftrightarrow> int k < retry_budget p) \<and>
    (should_auto_skip p ((failing_round p ^^ k) s) \<longleftrightarrow> policy_auto_skip p \<and> int k = retry_budget p)"
  using failing_rounds [OF assms] assms(3)
  by (auto simp: can_auto_retry_def should_auto_skip_def remaining_budget normalize_node_status_def)

theorem failing_node_retried_exactly_witness:
  "\<exists>p s. retry_budget p = 2 \<and> can_auto_retry p ((failing_round p ^^ 1) s) \<and>
     should_auto_skip p ((failing_round p ^^ 2) s)"
proof -
  let ?p = "\<lparr>policy_retry_count = PInt 2, policy_retry_interval = PInt 0, policy_auto_skip = True\<rparr>"
  let ?s = "update_own (\<lambda>s. s\<lparr>status := ''failed''\<rparr>) (new_node_state ''n'')"
  have b: "retry_budget ?p = 2" by (simp add: retry_budget_def max_auto_retry_count_def)
  have s: "status (own ?s) = ''failed''" "automatic_retry_count (own ?s) = 0"
    by (simp_all add: new_node_state_def)
  show ?thesis
    using failing_node_retried_exactly [OF s, of 1 ?p] failing_node_retried_exactly [OF s, of 2 ?p] b
    by (intro exI [of _ ?p] exI [of _ ?s]) simp
qed

end
