(* ===== verification/VariableResolution.thy ===== *)
theory VariableResolution
  imports PyText
begin

text \<open>
  \<open>src/workflow/variable_resolution.py\<close>: the loop expressions of loop gateways
  (\<open>parse_loop_expression\<close>) and the nested expansion of \<open>{{key}}\<close> placeholders
  (\<open>_resolve_nested_value\<close>), whose \<open>while\<close> loop need not end: \<open>None\<close> is "does not
  return". The file and JSON phases of \<open>resolve_placeholders\<close> are not modelled.
\<close>

section \<open>Loop expressions\<close>

datatype loop_info =
    RangeLoop string nat nat
  | DictLoop string string string
  | ListLoop string string

text \<open>At least one white space character, then as many as there are.\<close>

fun spaces1 :: "string \<Rightarrow> string option" where
  "spaces1 [] = None"
| "spaces1 (c # cs) = (if py_space c then Some (dropWhile py_space cs) else None)"

definition word1 :: "string \<Rightarrow> (string \<times> string) option" where
  "word1 s = (let (w, r) = take_word s in if w = [] then None else Some (w, r))"

definition num1 :: "string \<Rightarrow> (string \<times> string) option" where
  "num1 s = (let (w, r) = take_digits s in if w = [] then None else Some (w, r))"

definition expect :: "string \<Rightarrow> string \<Rightarrow> string option" where
  "expect p s = (if starts_with s p then Some (drop (length p) s) else None)"

text \<open>The iteration variables: one word, or two separated by a comma.\<close>

definition loop_vars :: "string \<Rightarrow> (string \<times> string option \<times> string) option" where
  "loop_vars s =
     (case word1 s of
        None \<Rightarrow> None
      | Some (v, r) \<Rightarrow>
          (case expect '','' (dropWhile py_space r) of
             None \<Rightarrow> Some (v, None, r)
           | Some r' \<Rightarrow>
               (case word1 (dropWhile py_space r') of
                  None \<Rightarrow> None
                | Some (w, r'') \<Rightarrow> Some (v, Some w, r''))))"

text \<open>What follows \<open>in\<close>: a range with one or two bounds, or the name of a variable.\<close>

datatype loop_source = FromRange nat "nat option" | FromVar string

definition range_source :: "string \<Rightarrow> loop_source option" where
  "range_source s =
     (case expect ''range('' s of
        None \<Rightarrow> None
      | Some r \<Rightarrow>
          (case num1 r of
             None \<Rightarrow> None
           | Some (a, r') \<Rightarrow>
               (case expect '')'' r' of
                  Some t \<Rightarrow> (if list_all py_space t then Some (FromRange (digits_val a) None) else None)
                | None \<Rightarrow>
                    (case expect '','' (dropWhile py_space r') of
                       None \<Rightarrow> None
                     | Some q \<Rightarrow>
                         (case num1 (dropWhile py_space q) of
                            None \<Rightarrow> None
                          | Some (b, q') \<Rightarrow>
                              (case expect '')'' q' of
                                 None \<Rightarrow> None
                               | Some t \<Rightarrow>
                                   (if list_all py_space t
                                    then Some (FromRange (digits_val a) (Some (digits_val b)))
                                    else None)))))))"

definition var_source :: "string \<Rightarrow> loop_source option" where
  "var_source s =
     (case word1 s of
        None \<Rightarrow> None
      | Some (w, r) \<Rightarrow> (if list_all py_space r then Some (FromVar w) else None))"

definition loop_match :: "string \<Rightarrow> (string \<times> string \<times> string option \<times> loop_source) option" where
  \<comment> \<open>the text of the iteration variables, the variables, the source\<close>
  "loop_match s =
     (case Option.bind (expect ''for'' s) spaces1 of
        None \<Rightarrow> None
      | Some r \<Rightarrow>
          (case loop_vars r of
             None \<Rightarrow> None
           | Some (v, w, r') \<Rightarrow>
               (case Option.bind (Option.bind (spaces1 r') (expect ''in'')) spaces1 of
                  None \<Rightarrow> None
                | Some t \<Rightarrow>
                    map_option (\<lambda>src. (take (length r - length r') r, v, w, src))
                      (case range_source t of None \<Rightarrow> var_source t | Some src \<Rightarrow> Some src))))"

text \<open>\<open>None\<close> is the \<open>ValueError\<close>.\<close>

definition parse_loop_expression :: "string \<Rightarrow> loop_info option" where
  "parse_loop_expression expression =
     (case loop_match (strip expression) of
        None \<Rightarrow> None
      | Some (var_part, v, w, FromRange a None) \<Rightarrow> Some (RangeLoop var_part 0 a)
      | Some (var_part, v, w, FromRange a (Some e)) \<Rightarrow> Some (RangeLoop var_part a e)
      | Some (var_part, v, Some w, FromVar src) \<Rightarrow> Some (DictLoop v w src)
      | Some (var_part, v, None, FromVar src) \<Rightarrow> Some (ListLoop v src))"

section \<open>Nested placeholders\<close>

definition max_resolve_depth :: nat where
  "max_resolve_depth = 10"

definition key_char :: "char \<Rightarrow> bool" where
  "key_char c = (word_char c \<or> c = CHR ''.'' \<or> c = CHR ''-'')"

text \<open>The placeholder that starts a text, and the first one in it: what is before, its key, what is after.\<close>

definition placeholder_at :: "string \<Rightarrow> (string \<times> string) option" where
  "placeholder_at s =
     (if starts_with s ''{{'' then
        (let k = takeWhile key_char (drop 2 s); r = dropWhile key_char (drop 2 s)
         in if k \<noteq> [] \<and> starts_with r ''}}'' then Some (k, drop 2 r) else None)
      else None)"

fun find_placeholder :: "string \<Rightarrow> (string \<times> string \<times> string) option" where
  "find_placeholder [] = None"
| "find_placeholder (c # cs) =
     (case placeholder_at (c # cs) of
        Some (k, r) \<Rightarrow> Some ([], k, r)
      | None \<Rightarrow> (case find_placeholder cs of None \<Rightarrow> None | Some (p, k, r) \<Rightarrow> Some (c # p, k, r)))"

datatype resolve_error = TooDeep | CircularReference string

definition plain :: "string \<Rightarrow> bool" where
  "plain v = (v = [] \<or> \<not> contains v ''{{'')"

partial_function (option) expand ::
  "(string, string) dict \<Rightarrow> string \<Rightarrow> string list \<Rightarrow> nat \<Rightarrow> (resolve_error + string) option" where
  "expand values result visited depth =
     (case find_placeholder result of
        None \<Rightarrow> Some (Inr result)
      | Some (before, key, after) \<Rightarrow>
          (if key \<in> set visited then Some (Inl (CircularReference key))
           else (case dget values key of
                   None \<Rightarrow> Some (Inr result)
                 | Some v \<Rightarrow>
                     Option.bind
                       (if plain v then Some (Inr v)
                        else if max_resolve_depth < depth + 1 then Some (Inl TooDeep)
                        else expand values v (key # visited) (depth + 1))
                       (\<lambda>r. case r of
                              Inl e \<Rightarrow> Some (Inl e)
                            | Inr replacement \<Rightarrow>
                                expand values (before @ replacement @ after) visited depth))))"

definition resolve_nested_value ::
  "string \<Rightarrow> (string, string) dict \<Rightarrow> string list \<Rightarrow> nat \<Rightarrow> (resolve_error + string) option" where
  "resolve_nested_value value values visited depth =
     (if plain value then Some (Inr value)
      else if max_resolve_depth < depth then Some (Inl TooDeep)
      else expand values value visited depth)"

section \<open>Loop expressions round trip\<close>

definition is_word :: "string \<Rightarrow> bool" where
  "is_word w = (w \<noteq> [] \<and> list_all word_char w)"

fun show_loop :: "loop_info \<Rightarrow> string" where
  "show_loop (RangeLoop v a b) = ''for '' @ v @ '' in range('' @ show_nat a @ '', '' @ show_nat b @ '')''"
| "show_loop (DictLoop k v src) = ''for '' @ k @ '', '' @ v @ '' in '' @ src"
| "show_loop (ListLoop v src) = ''for '' @ v @ '' in '' @ src"

fun loop_ok :: "loop_info \<Rightarrow> bool" where
  "loop_ok (RangeLoop v a b) = is_word v"
| "loop_ok (DictLoop k v src) = (is_word k \<and> is_word v \<and> is_word src)"
| "loop_ok (ListLoop v src) = (is_word v \<and> is_word src)"

lemma word1_append: "is_word w \<Longrightarrow> r = [] \<or> \<not> word_char (hd r) \<Longrightarrow> word1 (w @ r) = Some (w, r)"
  by (auto simp: word1_def is_word_def take_word_append)

lemma num1_append: "r = [] \<or> \<not> ascii_digit (hd r) \<Longrightarrow> num1 (show_nat n @ r) = Some (show_nat n, r)"
  using show_nat_digits [of n] by (auto simp: num1_def take_digits_append)

lemma space_facts [simp]: "py_space CHR '' ''" "\<not> word_char CHR '' ''" "\<not> word_char CHR '',''"
  "\<not> ascii_digit CHR '',''" "\<not> ascii_digit CHR '')''" "\<not> py_space CHR '',''" "\<not> word_char CHR ''(''"
  "\<not> py_space CHR ''f''" "\<not> py_space CHR '')''" "\<not> py_space CHR ''i''" "\<not> py_space CHR ''r''"
  by (simp_all add: py_space_def word_char_def ascii_letter_def ascii_digit_def code_def Let_def)

lemma word_first: "is_word w \<Longrightarrow> dropWhile py_space (w @ r) = w @ r"
  by (cases w) (auto simp: is_word_def word_not_space)

lemma digits_first: "dropWhile py_space (show_nat n @ r) = show_nat n @ r"
  using show_nat_digits [of n] by (cases "show_nat n") (auto simp: digit_not_space)

lemma spaces1_space: "spaces1 (CHR '' '' # s) = Some (dropWhile py_space s)"
  by simp

lemma expect_append [simp]: "expect p (p @ s) = Some s"
  by (simp add: expect_def)

lemma expect_comma: "expect '','' (CHR '','' # s) = Some s"
  using expect_append [of "'',''" s] by simp

lemma expect_not_comma: "s \<noteq> [] \<Longrightarrow> hd s \<noteq> CHR '','' \<Longrightarrow> expect '','' s = None"
  by (cases s) (auto simp: expect_def starts_with_def)

lemma vars_single:
  assumes "is_word v"
  shows "loop_vars (v @ '' in '' @ t) = Some (v, None, '' in '' @ t)"
  using word1_append [OF assms, of "'' in '' @ t"] by (simp add: loop_vars_def expect_not_comma)

lemma vars_pair:
  assumes "is_word v" and "is_word w"
  shows "loop_vars (v @ '', '' @ w @ '' in '' @ t) = Some (v, Some w, '' in '' @ t)"
  using word1_append [OF assms(1), of "'', '' @ w @ '' in '' @ t"] word1_append [OF assms(2), of "'' in '' @ t"]
    word_first [OF assms(2), of "'' in '' @ t"]
  by (simp add: loop_vars_def expect_comma)

lemma in_source:
  assumes "dropWhile py_space t = t"
  shows "Option.bind (Option.bind (spaces1 ('' in '' @ t)) (expect ''in'')) spaces1 = Some t"
  using assms expect_append [of "''in''" "'' '' @ t"] by simp

lemma source_var:
  assumes "is_word src"
  shows "range_source src = None" and "var_source src = Some (FromVar src)"
proof -
  have "expect ''range('' src = None"
  proof (rule ccontr)
    assume "expect ''range('' src \<noteq> None"
    then obtain r where "src = ''range('' @ r"
      by (auto simp: expect_def starts_with_iff split: if_splits)
    with assms show False by (simp add: is_word_def)
  qed
  then show "range_source src = None" by (simp add: range_source_def)
  show "var_source src = Some (FromVar src)"
    using word1_append [OF assms, of "[]"] by (simp add: var_source_def)
qed

lemma source_range:
  "range_source (''range('' @ show_nat a @ '', '' @ show_nat b @ '')'') = Some (FromRange a (Some b))"
proof -
  have "expect '')'' ('', '' @ show_nat b @ '')'') = None" by (simp add: expect_def starts_with_def)
  moreover have "expect '')'' '')'' = Some []" by (simp add: expect_def starts_with_def)
  ultimately show ?thesis
    using num1_append [of "'', '' @ show_nat b @ '')''" a] num1_append [of "'')''" b]
      expect_append [of "''range(''" "show_nat a @ '', '' @ show_nat b @ '')''"]
    by (simp add: range_source_def expect_comma digits_first digits_val_show)
qed

lemma loop_match_single:
  assumes v: "is_word v" and t: "dropWhile py_space t = t"
    and src: "(case range_source t of None \<Rightarrow> var_source t | Some s \<Rightarrow> Some s) = Some src"
  shows "loop_match (''for '' @ v @ '' in '' @ t) = Some (v, v, None, src)"
  using expect_append [of "''for''" "'' '' @ v @ '' in '' @ t"] word_first [OF v, of "'' in '' @ t"]
    vars_single [OF v, of t] in_source [OF t] src
  by (simp add: loop_match_def)

lemma loop_match_pair:
  assumes v: "is_word v" "is_word w" and t: "dropWhile py_space t = t"
    and src: "(case range_source t of None \<Rightarrow> var_source t | Some s \<Rightarrow> Some s) = Some src"
  shows "loop_match (''for '' @ v @ '', '' @ w @ '' in '' @ t) = Some (v @ '', '' @ w, v, Some w, src)"
  using expect_append [of "''for''" "'' '' @ v @ '', '' @ w @ '' in '' @ t"]
    word_first [OF v(1), of "'', '' @ w @ '' in '' @ t"] vars_pair [OF v, of t] in_source [OF t] src
  by (simp add: loop_match_def)

lemma strip_for: "t \<noteq> [] \<Longrightarrow> \<not> py_space (last t) \<Longrightarrow> strip (''for '' @ t) = ''for '' @ t"
  by (rule strip_idle) simp

lemma word_last: "is_word w \<Longrightarrow> w \<noteq> [] \<and> \<not> py_space (last w)"
  by (auto simp: is_word_def list_all_iff word_not_space)

text \<open>
  Every loop description, written out as a loop expression, parses back to itself:
  a range with both bounds, a dictionary loop with its two variables, a list loop.
\<close>

theorem loop_expression_roundtrip:
  "loop_ok l \<Longrightarrow> parse_loop_expression (show_loop l) = Some l"
proof (cases l)
  case (RangeLoop v a b)
  assume "loop_ok l"
  with RangeLoop have v: "is_word v" by simp
  let ?t = "''range('' @ show_nat a @ '', '' @ show_nat b @ '')''"
  have "loop_match (''for '' @ v @ '' in '' @ ?t) = Some (v, v, None, FromRange a (Some b))"
    by (rule loop_match_single [OF v]) (use source_range [of a b] in simp_all)
  then show ?thesis using RangeLoop strip_for [of "v @ '' in '' @ ?t"]
    by (simp add: parse_loop_expression_def)
next
  case (DictLoop k v src)
  assume "loop_ok l"
  with DictLoop have w: "is_word k" "is_word v" "is_word src" by auto
  have "loop_match (''for '' @ k @ '', '' @ v @ '' in '' @ src) = Some (k @ '', '' @ v, k, Some v, FromVar src)"
    by (rule loop_match_pair [OF w(1,2)]) (use source_var [OF w(3)] word_first [OF w(3), of "[]"] in simp_all)
  then show ?thesis using DictLoop strip_for [of "k @ '', '' @ v @ '' in '' @ src"] word_last [OF w(3)]
    by (simp add: parse_loop_expression_def)
next
  case (ListLoop v src)
  assume "loop_ok l"
  with ListLoop have w: "is_word v" "is_word src" by auto
  have "loop_match (''for '' @ v @ '' in '' @ src) = Some (v, v, None, FromVar src)"
    by (rule loop_match_single [OF w(1)]) (use source_var [OF w(2)] word_first [OF w(2), of "[]"] in simp_all)
  then show ?thesis using ListLoop strip_for [of "v @ '' in '' @ src"] word_last [OF w(2)]
    by (simp add: parse_loop_expression_def)
qed

theorem loop_expression_roundtrip_witness:
  "parse_loop_expression ''for key, value in config'' = Some (DictLoop ''key'' ''value'' ''config'')"
proof -
  have "loop_ok (DictLoop ''key'' ''value'' ''config'')"
    by (simp add: is_word_def word_char_def ascii_letter_def code_def Let_def)
  from loop_expression_roundtrip [OF this] show ?thesis by simp
qed

section \<open>Placeholders in a text\<close>

definition brace_free :: "string \<Rightarrow> bool" where
  "brace_free s = (CHR 0x7B \<notin> set s \<and> CHR 0x7D \<notin> set s)"

definition is_key :: "string \<Rightarrow> bool" where
  "is_key k = (k \<noteq> [] \<and> list_all key_char k)"

lemma brace_not_key [simp]: "\<not> key_char CHR 0x7D" "\<not> key_char CHR 0x7B"
  by (simp_all add: key_char_def word_char_def ascii_letter_def ascii_digit_def code_def Let_def)

lemma takeWhile_key:
  "list_all key_char k \<Longrightarrow> takeWhile key_char (k @ CHR 0x7D # r) = k"
  "list_all key_char k \<Longrightarrow> dropWhile key_char (k @ CHR 0x7D # r) = CHR 0x7D # r"
  by (induction k) auto

lemma placeholder_at_key: "is_key k \<Longrightarrow> placeholder_at (''{{'' @ k @ ''}}'' @ r) = Some (k, r)"
  by (simp add: placeholder_at_def is_key_def takeWhile_key starts_with_def)

lemma placeholder_at_not_brace: "c \<noteq> CHR 0x7B \<Longrightarrow> placeholder_at (c # s) = None"
  by (simp add: placeholder_at_def starts_with_def)

lemma find_placeholder_key:
  "CHR 0x7B \<notin> set s \<Longrightarrow> is_key k \<Longrightarrow> find_placeholder (s @ ''{{'' @ k @ ''}}'' @ r) = Some (s, k, r)"
proof (induction s)
  case Nil
  then show ?case using placeholder_at_key [of k r] by simp
next
  case (Cons c s)
  then have "c \<noteq> CHR 0x7B" by auto
  with Cons show ?case by (simp add: placeholder_at_not_brace)
qed

lemma find_placeholder_none: "CHR 0x7B \<notin> set s \<Longrightarrow> find_placeholder s = None"
  by (induction s) (auto simp: placeholder_at_not_brace)

lemma plain_iff: "plain v \<longleftrightarrow> \<not> (\<exists>a b. v = a @ ''{{'' @ b)"
  by (auto simp: plain_def contains_iff)

lemma brace_free_plain: "brace_free v \<Longrightarrow> plain v"
  by (auto simp: plain_iff brace_free_def)

lemma key_not_plain: "\<not> plain (a @ ''{{'' @ k)"
  by (auto simp: plain_iff)

section \<open>Acyclic references resolve\<close>

text \<open>
  A template: literal text without braces and placeholders. \<open>meaning T n t\<close> replaces
  every placeholder by the meaning of its template, to nesting n.
\<close>

datatype seg = Lit string | Ph string

fun render :: "seg list \<Rightarrow> string" where
  "render [] = []"
| "render (Lit s # t) = s @ render t"
| "render (Ph k # t) = ''{{'' @ k @ ''}}'' @ render t"

fun seg_ok :: "seg \<Rightarrow> bool" where
  "seg_ok (Lit s) = brace_free s"
| "seg_ok (Ph k) = is_key k"

fun seg_refs :: "seg list \<Rightarrow> string set" where
  "seg_refs [] = {}"
| "seg_refs (Lit s # t) = seg_refs t"
| "seg_refs (Ph k # t) = insert k (seg_refs t)"

fun meaning :: "(string \<Rightarrow> seg list) \<Rightarrow> nat \<Rightarrow> seg list \<Rightarrow> string" where
  "meaning T n [] = []"
| "meaning T n (Lit s # t) = s @ meaning T n t"
| "meaning T 0 (Ph k # t) = meaning T 0 t"
| "meaning T (Suc n) (Ph k # t) = meaning T n (T k) @ meaning T (Suc n) t"

text \<open>
  The values define the variables by templates, and the references of a variable of rank
  r have smaller ranks: no variable refers to itself, directly or through others.
\<close>

definition acyclic_env :: "(string, string) dict \<Rightarrow> (string \<Rightarrow> seg list) \<Rightarrow> (string \<Rightarrow> nat) \<Rightarrow> bool" where
  "acyclic_env values T rank =
     (\<forall>k \<in> fst ` set values. dget values k = Some (render (T k)) \<and> list_all seg_ok (T k) \<and>
        (\<forall>k' \<in> seg_refs (T k). k' \<in> fst ` set values \<and> rank k' < rank k))"

lemma acyclic_envD:
  assumes "acyclic_env values T rank" and "k \<in> fst ` set values"
  shows "dget values k = Some (render (T k))" "list_all seg_ok (T k)"
    "k' \<in> seg_refs (T k) \<Longrightarrow> k' \<in> fst ` set values \<and> rank k' < rank k"
  using assms unfolding acyclic_env_def by auto

lemma brace_free_append [simp]: "brace_free (a @ b) \<longleftrightarrow> brace_free a \<and> brace_free b"
  by (auto simp: brace_free_def)

lemma meaning_brace_free:
  "acyclic_env values T rank \<Longrightarrow> list_all seg_ok t \<Longrightarrow> seg_refs t \<subseteq> fst ` set values \<Longrightarrow> brace_free (meaning T n t)"
proof (induction T n t rule: meaning.induct)
  case (4 T n k t)
  have "k \<in> fst ` set values" using 4(5) by simp
  from acyclic_envD [OF 4(3) this] have "brace_free (meaning T n (T k))"
    using 4(1) [OF 4(3)] by blast
  with 4 show ?case by simp
qed (auto simp: brace_free_def)

lemma plain_template:
  assumes "list_all seg_ok t" and "plain (render t)"
  shows "meaning T n t = render t" and "seg_refs t = {}"
proof -
  have "\<forall>s \<in> set t. \<exists>l. s = Lit l"
    using assms
  proof (induction t rule: render.induct)
    case (2 s t)
    then have "plain (render t)" by (auto simp: plain_iff) (metis append.assoc)
    with 2 show ?case by auto
  next
    case (3 k t)
    then show ?case using key_not_plain [of "[]" "k @ ''}}'' @ render t"] by simp
  qed simp
  then show "meaning T n t = render t" and "seg_refs t = {}"
    by (induction T n t rule: meaning.induct) auto
qed

lemma refs_empty_plain: "list_all seg_ok t \<Longrightarrow> seg_refs t = {} \<Longrightarrow> plain (render t)"
  by (rule brace_free_plain) (induction t rule: seg_refs.induct; simp add: brace_free_def)

lemma expand_unfold:
  assumes "find_placeholder result = Some (a, key, b)" and "key \<notin> set visited"
    and "dget values key = Some v"
    and "(if plain v then Some (Inr v) else if max_resolve_depth < depth + 1 then Some (Inl TooDeep)
          else expand values v (key # visited) (depth + 1)) = Some (Inr r)"
  shows "expand values result visited depth = expand values (a @ r @ b) visited depth"
  using assms by (subst expand.simps) simp

lemma expand_template:
  assumes env: "acyclic_env values T rank"
  shows "list_all seg_ok t \<Longrightarrow> seg_refs t \<subseteq> fst ` set values \<Longrightarrow> \<forall>k \<in> seg_refs t. rank k < n
    \<Longrightarrow> \<forall>v \<in> set visited. \<forall>k \<in> seg_refs t. rank k < rank v \<Longrightarrow> n + depth \<le> max_resolve_depth + 1 \<Longrightarrow> brace_free s
    \<Longrightarrow> expand values (s @ render t) visited depth = Some (Inr (s @ meaning T n t))"
proof (induction n arbitrary: t s visited depth)
  case 0
  then have "seg_refs t = {}" by auto
  with 0(1) have "brace_free (render t) \<and> meaning T 0 t = render t"
    by (induction T "0::nat" t rule: meaning.induct) (auto simp: brace_free_def)
  with 0(6) show ?case
    by (subst expand.simps) (simp add: find_placeholder_none brace_free_def)
next
  case (Suc n)
  from Suc.prems show ?case
  proof (induction t arbitrary: s)
    case Nil
    then show ?case by (subst expand.simps) (simp add: find_placeholder_none brace_free_def)
  next
    case (Cons x t)
    show ?case
    proof (cases x)
      case (Lit l)
      with Cons.prems Cons.IH [of "s @ l"] show ?thesis by simp
    next
      case (Ph k)
      note k = Cons.prems(1-5) [unfolded Ph, simplified]
      have d: "dget values k = Some (render (T k))" and ok: "list_all seg_ok (T k)"
        and sub: "\<And>k'. k' \<in> seg_refs (T k) \<Longrightarrow> k' \<in> fst ` set values \<and> rank k' < rank k"
        using acyclic_envD [OF env, of k] k by auto
      have nv: "k \<notin> set visited" using k by auto
      have inner: "(if plain (render (T k)) then Some (Inr (render (T k)))
          else if max_resolve_depth < depth + 1 then Some (Inl TooDeep)
          else expand values (render (T k)) (k # visited) (depth + 1)) = Some (Inr (meaning T n (T k)))"
      proof (cases "plain (render (T k))")
        case True
        then show ?thesis using plain_template(1) [OF ok True] by simp
      next
        case False
        then have "seg_refs (T k) \<noteq> {}"
          using refs_empty_plain [OF ok] by blast
        then have "0 < rank k" using sub by fastforce
        with k have deep: "\<not> max_resolve_depth < depth + 1" by simp
        have "expand values ([] @ render (T k)) (k # visited) (depth + 1) = Some (Inr ([] @ meaning T n (T k)))"
        proof (rule Suc.IH [OF ok])
          show "seg_refs (T k) \<subseteq> fst ` set values" using sub by blast
          show "\<forall>k' \<in> seg_refs (T k). rank k' < n" using sub k by fastforce
          show "\<forall>v \<in> set (k # visited). \<forall>k' \<in> seg_refs (T k). rank k' < rank v"
            using sub k by (auto intro: less_trans)
          show "n + (depth + 1) \<le> max_resolve_depth + 1" using k by simp
        qed (simp add: brace_free_def)
        with False deep show ?thesis by simp
      qed
      have bf: "brace_free (meaning T n (T k))"
        using meaning_brace_free [OF env ok] sub by blast
      have "expand values (s @ render (Ph k # t)) visited depth =
          expand values (s @ meaning T n (T k) @ render t) visited depth"
        by (rule expand_unfold [OF _ nv d inner])
          (use find_placeholder_key [of s k "render t"] Cons.prems(6) k in \<open>simp add: brace_free_def\<close>)
      also have "\<dots> = Some (Inr ((s @ meaning T n (T k)) @ meaning T (Suc n) t))"
        using Cons.IH [of "s @ meaning T n (T k)"] bf Cons.prems(6) k by simp
      finally show ?thesis using Ph by simp
    qed
  qed
qed

text \<open>
  C26. Placeholders whose references are acyclic, at most ten levels deep, always resolve: the
  loop ends, no error is raised, and the result is the text with every placeholder replaced
  by the meaning of its variable.
\<close>

theorem acyclic_placeholders_resolve:
  assumes "acyclic_env values T rank" and "list_all seg_ok t" and "seg_refs t \<subseteq> fst ` set values"
    and "\<forall>k \<in> seg_refs t. rank k \<le> max_resolve_depth"
  shows "resolve_nested_value (render t) values [] 0 = Some (Inr (meaning T (max_resolve_depth + 1) t))"
proof (cases "plain (render t)")
  case True
  then show ?thesis
    using plain_template(1) [OF assms(2)] by (simp add: resolve_nested_value_def)
next
  case False
  have "expand values ([] @ render t) [] 0 = Some (Inr ([] @ meaning T (max_resolve_depth + 1) t))"
    by (rule expand_template [OF assms(1-3)]) (use assms(4) in \<open>auto simp: brace_free_def less_Suc_eq_le\<close>)
  with False show ?thesis by (simp add: resolve_nested_value_def)
qed

theorem acyclic_placeholders_resolve_witness:
  "resolve_nested_value ''run {{cmd}}!'' [(''cmd'', ''ls {{dir}}''), (''dir'', ''src'')] [] 0 =
     Some (Inr ''run ls src!'')"
proof -
  let ?T = "\<lambda>k. if k = ''cmd'' then [Lit ''ls '', Ph ''dir''] else [Lit ''src'']"
  let ?rank = "\<lambda>k. if k = ''cmd'' then 1 else (0::nat)"
  have "resolve_nested_value (render [Lit ''run '', Ph ''cmd'', Lit ''!''])
      [(''cmd'', ''ls {{dir}}''), (''dir'', ''src'')] [] 0 =
      Some (Inr (meaning ?T (max_resolve_depth + 1) [Lit ''run '', Ph ''cmd'', Lit ''!'']))"
    by (rule acyclic_placeholders_resolve [where rank = ?rank])
      (simp_all add: acyclic_env_def brace_free_def is_key_def key_char_def word_char_def ascii_letter_def
        code_def Let_def max_resolve_depth_def)
  then show ?thesis by (simp add: max_resolve_depth_def numeral_eq_Suc)
qed

section \<open>The loop over placeholders need not end\<close>

text \<open>
  A value that closes and opens braces around its own name: replacing the placeholder inside
  a run of braces makes the next one. The texts below grow forever.
\<close>

definition growing :: "string" where
  "growing = ''}}}}{{b{{b''"

lemma placeholder_close: "placeholder_at (''{{b{{b'' @ r) = None"
  by (simp add: placeholder_at_def starts_with_def key_char_def word_char_def ascii_letter_def ascii_digit_def code_def Let_def)

lemma find_growing:
  assumes "CHR 0x7B \<notin> set p"
  shows "find_placeholder (p @ ''{{b{{b}}'' @ r) = Some (p @ ''{{b'', ''b'', r)"
  using assms
proof (induction p)
  case Nil
  have b: "is_key ''b''" by (simp add: is_key_def key_char_def word_char_def ascii_letter_def code_def Let_def)
  have "placeholder_at (''{b{{b}}'' @ r) = None" "placeholder_at (''b{{b}}'' @ r) = None"
    by (simp_all add: placeholder_at_def starts_with_def)
  moreover have "placeholder_at (''{{b{{b}}'' @ r) = None"
    using placeholder_close [of "''}}'' @ r"] by simp
  moreover have "placeholder_at (''{{b}}'' @ r) = Some (''b'', r)"
    using placeholder_at_key [OF b, of r] by simp
  ultimately show ?case by simp
next
  case (Cons c p)
  then have "c \<noteq> CHR 0x7B" by auto
  with Cons show ?case by (simp add: placeholder_at_not_brace)
qed

definition in_braces :: "string \<Rightarrow> bool" where
  "in_braces s = (\<exists>p r. CHR 0x7B \<notin> set p \<and>
     (s = p @ ''{{b{{b}}'' @ r \<or> s = p @ ''{{b}}}}{{b{{b'' @ r))"

lemma find_in_braces:
  assumes "in_braces s"
  shows "\<exists>p r. find_placeholder s = Some (p, ''b'', r) \<and> in_braces (p @ growing @ r)"
proof -
  from assms obtain p r where p: "CHR 0x7B \<notin> set p"
    and s: "s = p @ ''{{b{{b}}'' @ r \<or> s = p @ ''{{b}}}}{{b{{b'' @ r"
    by (auto simp: in_braces_def)
  have b: "is_key ''b''" by (simp add: is_key_def key_char_def word_char_def ascii_letter_def code_def Let_def)
  from s show ?thesis
  proof
    assume "s = p @ ''{{b{{b}}'' @ r"
    then have "find_placeholder s = Some (p @ ''{{b'', ''b'', r)" using find_growing [OF p, of r] by simp
    moreover have "in_braces ((p @ ''{{b'') @ growing @ r)"
      unfolding in_braces_def growing_def using p by (intro exI [of _ p] exI [of _ r]) simp
    ultimately show ?thesis by blast
  next
    assume "s = p @ ''{{b}}}}{{b{{b'' @ r"
    then have "find_placeholder s = Some (p, ''b'', ''}}{{b{{b'' @ r)"
      using find_placeholder_key [OF p b, of "''}}{{b{{b'' @ r"] by simp
    moreover have "in_braces (p @ growing @ ''}}{{b{{b'' @ r)"
      unfolding in_braces_def growing_def using p
      by (intro exI [of _ "p @ ''}}}}''"] exI [of _ "''{{b{{b'' @ r"]) simp
    ultimately show ?thesis by blast
  qed
qed

lemma growing_final: "find_placeholder growing = None" "\<not> plain growing"
proof -
  have "placeholder_at growing = None" "placeholder_at ''}}}{{b{{b'' = None" "placeholder_at ''}}{{b{{b'' = None"
    "placeholder_at ''}{{b{{b'' = None" "placeholder_at ''{b{{b'' = None" "placeholder_at ''b{{b'' = None"
    "placeholder_at ''{b'' = None" "placeholder_at ''b'' = None"
    by (simp_all add: placeholder_at_def starts_with_def growing_def)
  moreover have "placeholder_at ''{{b{{b'' = None" "placeholder_at ''{{b'' = None"
    using placeholder_close [of "[]"]
    by (simp_all add: placeholder_at_def starts_with_def key_char_def word_char_def ascii_letter_def
        ascii_digit_def code_def Let_def)
  ultimately show "find_placeholder growing = None" by (simp add: growing_def)
  show "\<not> plain growing" using key_not_plain [of "''}}}}''" "''b{{b''"] by (simp add: growing_def)
qed

lemma growing_returns:
  "expand values s visited depth = Some y \<Longrightarrow> values = [(''b'', growing)] \<longrightarrow>
     (s = growing \<longrightarrow> y = Inr growing) \<and> (in_braces s \<longrightarrow> ''b'' \<in> set visited \<or> max_resolve_depth \<le> depth)"
proof (erule expand.raw_induct [rotated])
  fix rec and vals :: "(string, string) dict" and s visited depth and y :: "resolve_error + string"
  assume rec: "\<And>v s' w n y'. rec v s' w n = Some y' \<Longrightarrow> v = [(''b'', growing)] \<longrightarrow>
      (s' = growing \<longrightarrow> y' = Inr growing) \<and> (in_braces s' \<longrightarrow> ''b'' \<in> set w \<or> max_resolve_depth \<le> n)"
    and body: "(case find_placeholder s of
        None \<Rightarrow> Some (Inr s)
      | Some (before, key, after) \<Rightarrow>
          (if key \<in> set visited then Some (Inl (CircularReference key))
           else (case dget vals key of
                   None \<Rightarrow> Some (Inr s)
                 | Some v \<Rightarrow>
                     Option.bind
                       (if plain v then Some (Inr v)
                        else if max_resolve_depth < depth + 1 then Some (Inl TooDeep)
                        else rec vals v (key # visited) (depth + 1))
                       (\<lambda>r. case r of Inl e \<Rightarrow> Some (Inl e)
                              | Inr replacement \<Rightarrow> rec vals (before @ replacement @ after) visited depth)))) = Some y"
  show "vals = [(''b'', growing)] \<longrightarrow>
     (s = growing \<longrightarrow> y = Inr growing) \<and> (in_braces s \<longrightarrow> ''b'' \<in> set visited \<or> max_resolve_depth \<le> depth)"
  proof (intro conjI impI)
    assume "s = growing"
    with body show "y = Inr growing" by (simp add: growing_final)
  next
    assume v: "vals = [(''b'', growing)]" and "in_braces s"
    then obtain p r where f: "find_placeholder s = Some (p, ''b'', r)" and n: "in_braces (p @ growing @ r)"
      using find_in_braces by blast
    show "''b'' \<in> set visited \<or> max_resolve_depth \<le> depth"
    proof (rule ccontr)
      assume nv: "\<not> (''b'' \<in> set visited \<or> max_resolve_depth \<le> depth)"
      with body f v growing_final obtain r1 where r1: "rec vals growing (''b'' # visited) (depth + 1) = Some r1"
        and k: "(case r1 of Inl e \<Rightarrow> Some (Inl e)
          | Inr replacement \<Rightarrow> rec vals (p @ replacement @ r) visited depth) = Some y"
        by (auto simp: bind_eq_Some_conv)
      from rec [OF r1] v have "r1 = Inr growing" by simp
      with k have "rec vals (p @ growing @ r) visited depth = Some y" by simp
      from rec [OF this] v n nv show False by simp
    qed
  qed
qed

text \<open>
  C27. Resolving a value can go on forever: with the variable \<open>b\<close> whose value closes the braces
  it stands in and opens new ones, the loop of \<open>_resolve_nested_value\<close> never ends. The
  depth limit and the visited set do not stop it, as every replacement is at the first level.
\<close>

theorem resolve_need_not_end:
  "resolve_nested_value ''{{b{{b}}'' [(''b'', growing)] [] 0 = None"
proof (cases "resolve_nested_value ''{{b{{b}}'' [(''b'', growing)] [] 0")
  case (Some y)
  have "\<not> plain ''{{b{{b}}''" using key_not_plain [of "[]" "''b{{b}}''"] by simp
  with Some have "expand [(''b'', growing)] ''{{b{{b}}'' [] 0 = Some y"
    by (simp add: resolve_nested_value_def)
  moreover have "in_braces ''{{b{{b}}''"
    unfolding in_braces_def by (intro exI [of _ "[]"]) simp
  ultimately show ?thesis using growing_returns by (fastforce simp: max_resolve_depth_def)
qed simp

end
