(* ===== verification/WorkflowModel.thy ===== *)
theory WorkflowModel
  imports FailurePolicy VariableResolution
begin

text \<open>
  The data model of \<open>src/workflow/definition.py\<close>: nodes, edges, gateways, variables, execution
  schemes and the workflow definition, with their documents. Fields that keep an illegal
  value for \<open>validate\<close> to report are of type \<^typ>\<open>pyval\<close>. \<open>from_dict\<close> gives \<open>None\<close> for a
  document that is not of the declared types, or that raises; the identifiers and the time it
  would generate are arguments.
\<close>

section \<open>Settings that may be illegal\<close>

definition lstrip_signs :: "string \<Rightarrow> string" where
  "lstrip_signs s = dropWhile (\<lambda>c. c = CHR ''+'' \<or> c = CHR ''-'') s"

definition is_digit_str :: "string \<Rightarrow> bool" where
  "is_digit_str s = (s \<noteq> [] \<and> list_all py_digit s)"

text \<open>\<open>None\<close>: \<open>int(stripped)\<close> raises \<open>ValueError\<close>.\<close>

definition coerce_integer_setting :: "pyval \<Rightarrow> int \<Rightarrow> pyval option" where
  "coerce_integer_setting value dflt =
     (case value of
        PNone \<Rightarrow> Some (PInt dflt)
      | PStr s \<Rightarrow>
          (let stripped = strip s
           in if stripped \<noteq> [] \<and> is_digit_str (lstrip_signs stripped)
              then map_option PInt (py_int stripped) else Some value)
      | _ \<Rightarrow> Some value)"

definition is_integer_in_range :: "pyval \<Rightarrow> int \<Rightarrow> int \<Rightarrow> bool" where
  "is_integer_in_range value lo hi = (case value of PInt i \<Rightarrow> lo \<le> i \<and> i \<le> hi | _ \<Rightarrow> False)"

text \<open>\<open>int(x)\<close>, \<open>None\<close> where it raises.\<close>

fun int_of :: "pyval \<Rightarrow> int option" where
  "int_of (PBool b) = Some (if b then 1 else 0)"
| "int_of (PInt i) = Some i"
| "int_of (PFloat (Fin m e)) = Some (trunc_float m e)"
| "int_of (PStr s) = py_int s"
| "int_of _ = None"

section \<open>Nodes, edges, gateways, variables, schemes\<close>

record execution_scheme =
  s_id :: string
  s_name :: string
  s_selected_node_ids :: "string list"
  s_created_at :: string
  s_updated_at :: string

definition scheme_to_dict :: "execution_scheme \<Rightarrow> doc" where
  "scheme_to_dict s =
     [(''id'', PStr (s_id s)),
      (''name'', PStr (s_name s)),
      (''selected_node_ids'', PList (map PStr (s_selected_node_ids s))),
      (''created_at'', PStr (s_created_at s)),
      (''updated_at'', PStr (s_updated_at s))]"

definition scheme_from_dict :: "string \<Rightarrow> string \<Rightarrow> doc \<Rightarrow> execution_scheme option" where
  "scheme_from_dict fresh_id now data =
     Option.bind (field as_str data ''id'' fresh_id) (\<lambda>a1.
     Option.bind (field as_str data ''name'' []) (\<lambda>a2.
     Option.bind (field strs_of data ''selected_node_ids'' []) (\<lambda>a3.
     Option.bind (field as_str data ''created_at'' now) (\<lambda>a4.
     Option.bind (field as_str data ''updated_at'' now) (\<lambda>a5.
       Some \<lparr>s_id = a1, s_name = a2, s_selected_node_ids = a3, s_created_at = a4, s_updated_at = a5\<rparr>)))))"

record workflow_node =
  n_id :: string
  n_label :: string
  n_type :: string
  n_agent_type :: string
  n_system_prompt_template :: string
  n_first_message :: string
  n_position :: doc
  n_var_bindings :: "(string, doc) dict"
  n_node_params :: doc
  n_auto_flow :: bool
  n_enable_complete_node_task :: bool
  n_output_variable :: string
  n_enable_reject_upstream :: bool
  n_max_reject_count :: int
  n_save_output_to_file :: bool
  n_output_file_path :: string
  n_require_non_empty_output :: pyval
  n_retry_empty_output_in_session :: pyval
  n_json_output_field :: pyval
  n_json_output_field_min_chars :: pyval
  n_model_override :: string
  n_sub_workflow_id :: "string option"
  n_sub_scheme_id :: "string option"
  n_sub_workflow_params :: doc
  n_fail_auto_skip :: bool
  n_auto_retry_count :: pyval
  n_auto_retry_interval_seconds :: pyval

text \<open>A node with the defaults of the data class.\<close>

definition new_node :: "string \<Rightarrow> workflow_node" where
  "new_node nid =
     \<lparr>n_id = nid, n_label = [], n_type = ''agent'', n_agent_type = ''default'', n_system_prompt_template = [],
      n_first_message = [], n_position = [(''x'', PInt 0), (''y'', PInt 0)], n_var_bindings = [],
      n_node_params = [], n_auto_flow = False, n_enable_complete_node_task = True, n_output_variable = [],
      n_enable_reject_upstream = False, n_max_reject_count = 3, n_save_output_to_file = False,
      n_output_file_path = [], n_require_non_empty_output = PBool False,
      n_retry_empty_output_in_session = PBool False, n_json_output_field = PStr [],
      n_json_output_field_min_chars = PInt 0, n_model_override = [], n_sub_workflow_id = None,
      n_sub_scheme_id = None, n_sub_workflow_params = [], n_fail_auto_skip = False,
      n_auto_retry_count = PInt 0, n_auto_retry_interval_seconds = PInt 0\<rparr>"

text \<open>What the failure policy sees of a node.\<close>

definition policy_of :: "workflow_node \<Rightarrow> policy_node" where
  "policy_of n = \<lparr>policy_retry_count = n_auto_retry_count n,
     policy_retry_interval = n_auto_retry_interval_seconds n, policy_auto_skip = n_fail_auto_skip n\<rparr>"

definition dict_dict :: "(string, doc) dict \<Rightarrow> pyval" where
  "dict_dict d = PDict (map (\<lambda>(k, v). (k, PDict v)) d)"

definition node_to_dict :: "workflow_node \<Rightarrow> doc" where
  "node_to_dict n =
     [(''id'', PStr (n_id n)),
      (''label'', PStr (n_label n)),
      (''node_type'', PStr (n_type n)),
      (''agent_type'', PStr (n_agent_type n)),
      (''system_prompt_template'', PStr (n_system_prompt_template n)),
      (''first_message'', PStr (n_first_message n)),
      (''position'', PDict (n_position n)),
      (''var_bindings'', dict_dict (n_var_bindings n)),
      (''node_params'', PDict (n_node_params n)),
      (''auto_flow'', PBool (n_auto_flow n)),
      (''enable_complete_node_task'', PBool (n_enable_complete_node_task n)),
      (''output_variable'', PStr (n_output_variable n)),
      (''enable_reject_upstream'', PBool (n_enable_reject_upstream n)),
      (''max_reject_count'', PInt (n_max_reject_count n)),
      (''save_output_to_file'', PBool (n_save_output_to_file n)),
      (''output_file_path'', PStr (n_output_file_path n)),
      (''require_non_empty_output'', n_require_non_empty_output n),
      (''retry_empty_output_in_session'', n_retry_empty_output_in_session n),
      (''json_output_field'', n_json_output_field n),
      (''json_output_field_min_chars'', n_json_output_field_min_chars n)]
     @ when_some (n_model_override n \<noteq> []) ''model_override'' (PStr (n_model_override n))
     @ when_some (n_sub_workflow_id n \<noteq> None) ''sub_workflow_id'' (opt_str (n_sub_workflow_id n))
     @ when_some (n_sub_scheme_id n \<noteq> None) ''sub_scheme_id'' (opt_str (n_sub_scheme_id n))
     @ [(''sub_workflow_params'', PDict (n_sub_workflow_params n)),
        (''fail_auto_skip'', PBool (n_fail_auto_skip n)),
        (''auto_retry_count'', n_auto_retry_count n),
        (''auto_retry_interval_seconds'', n_auto_retry_interval_seconds n)]"

text \<open>
  A binding that is not a dictionary is dropped; one without a \<open>var_key\<close> gets the one made of
  the node's identifier and the field.
\<close>

fun read_bindings :: "string \<Rightarrow> (string \<times> pyval) list \<Rightarrow> (string, doc) dict" where
  "read_bindings nid [] = []"
| "read_bindings nid ((f, PDict b) # bs) =
     (f, if dget b ''var_key'' = None then b @ [(''var_key'', PStr (nid @ ''_'' @ f))] else b) # read_bindings nid bs"
| "read_bindings nid (_ # bs) = read_bindings nid bs"

definition default_position :: doc where
  "default_position = [(''x'', PInt 0), (''y'', PInt 0)]"

definition node_from_dict :: "string \<Rightarrow> doc \<Rightarrow> workflow_node option" where
  "node_from_dict fresh_id data =
     Option.bind (field as_dict data ''var_bindings'' []) (\<lambda>raw_bindings.
     Option.bind (field as_str data ''id'' []) (\<lambda>a0.
     Option.bind (field as_str data ''label'' []) (\<lambda>a2.
     Option.bind (field as_str data ''node_type'' ''agent'') (\<lambda>a3.
     Option.bind (field as_str data ''agent_type'' ''default'') (\<lambda>a4.
     Option.bind (field as_str data ''system_prompt_template'' []) (\<lambda>a5.
     Option.bind (field as_str data ''first_message'' []) (\<lambda>a6.
     Option.bind (field as_dict data ''position'' default_position) (\<lambda>a7.
     Option.bind (field as_dict data ''node_params'' []) (\<lambda>a9.
     Option.bind (field as_bool data ''auto_flow'' False) (\<lambda>a10.
     Option.bind (field as_bool data ''enable_complete_node_task'' True) (\<lambda>a11.
     Option.bind (field as_str data ''output_variable'' []) (\<lambda>a12.
     Option.bind (field as_bool data ''enable_reject_upstream'' False) (\<lambda>a13.
     Option.bind (field int_of data ''max_reject_count'' 3) (\<lambda>a14.
     Option.bind (field as_bool data ''save_output_to_file'' False) (\<lambda>a15.
     Option.bind (field as_str data ''output_file_path'' []) (\<lambda>a16.
     Option.bind (field Some data ''require_non_empty_output'' (PBool False)) (\<lambda>a17.
     Option.bind (field Some data ''retry_empty_output_in_session'' (PBool False)) (\<lambda>a18.
     Option.bind (field Some data ''json_output_field'' (PStr [])) (\<lambda>a19.
     Option.bind (field (\<lambda>v. coerce_integer_setting v 0) data ''json_output_field_min_chars'' (PInt 0)) (\<lambda>a20.
     Option.bind (field as_str data ''model_override'' []) (\<lambda>a21.
     Option.bind (field as_opt_str data ''sub_workflow_id'' None) (\<lambda>a22.
     Option.bind (field as_opt_str data ''sub_scheme_id'' None) (\<lambda>a23.
     Option.bind (field as_dict data ''sub_workflow_params'' []) (\<lambda>a24.
     Option.bind (field as_bool data ''fail_auto_skip'' False) (\<lambda>a25.
     Option.bind (field (\<lambda>v. coerce_integer_setting v 0) data ''auto_retry_count'' (PInt 0)) (\<lambda>a26.
     Option.bind (field (\<lambda>v. coerce_integer_setting v 0) data ''auto_retry_interval_seconds'' (PInt 0)) (\<lambda>a27.
       Some \<lparr>n_id = (if dget data ''id'' = None then fresh_id else a0), n_label = a2, n_type = a3,
         n_agent_type = a4, n_system_prompt_template = a5, n_first_message = a6, n_position = a7,
         n_var_bindings = read_bindings a0 raw_bindings, n_node_params = a9, n_auto_flow = a10,
         n_enable_complete_node_task = a11, n_output_variable = a12, n_enable_reject_upstream = a13,
         n_max_reject_count = a14, n_save_output_to_file = a15, n_output_file_path = a16,
         n_require_non_empty_output = a17, n_retry_empty_output_in_session = a18,
         n_json_output_field = a19, n_json_output_field_min_chars = a20, n_model_override = a21,
         n_sub_workflow_id = a22, n_sub_scheme_id = a23, n_sub_workflow_params = a24,
         n_fail_auto_skip = a25, n_auto_retry_count = a26,
         n_auto_retry_interval_seconds = a27\<rparr>)))))))))))))))))))))))))))"

record workflow_edge =
  e_id :: string
  e_source :: string
  e_target :: string
  e_condition :: "doc option"

definition edge_to_dict :: "workflow_edge \<Rightarrow> doc" where
  "edge_to_dict e =
     [(''id'', PStr (e_id e)), (''source'', PStr (e_source e)), (''target'', PStr (e_target e))]
     @ when_some (e_condition e \<noteq> None) ''condition'' (opt_dict (e_condition e))"

definition edge_from_dict :: "string \<Rightarrow> doc \<Rightarrow> workflow_edge option" where
  "edge_from_dict fresh_id data =
     Option.bind (field as_str data ''id'' fresh_id) (\<lambda>a1.
     Option.bind (field as_str data ''source'' []) (\<lambda>a2.
     Option.bind (field as_str data ''target'' []) (\<lambda>a3.
     Option.bind (field as_opt_dict data ''condition'' None) (\<lambda>a4.
       Some \<lparr>e_id = a1, e_source = a2, e_target = a3, e_condition = a4\<rparr>))))"

record workflow_gateway =
  g_id :: string
  g_type :: string
  g_label :: string
  g_position :: doc
  g_converge_gateway_id :: "string option"

definition gateway_to_dict :: "workflow_gateway \<Rightarrow> doc" where
  "gateway_to_dict g =
     [(''id'', PStr (g_id g)),
      (''gateway_type'', PStr (g_type g)),
      (''label'', PStr (g_label g)),
      (''position'', PDict (g_position g)),
      (''converge_gateway_id'', opt_str (g_converge_gateway_id g))]"

definition gateway_from_dict :: "string \<Rightarrow> doc \<Rightarrow> workflow_gateway option" where
  "gateway_from_dict fresh_id data =
     Option.bind (field as_str data ''id'' fresh_id) (\<lambda>a1.
     Option.bind (field as_str data ''gateway_type'' ''parallel'') (\<lambda>a2.
     Option.bind (field as_str data ''label'' []) (\<lambda>a3.
     Option.bind (field as_dict data ''position'' default_position) (\<lambda>a4.
     Option.bind (field as_opt_str data ''converge_gateway_id'' None) (\<lambda>a5.
       Some \<lparr>g_id = a1, g_type = a2, g_label = a3, g_position = a4, g_converge_gateway_id = a5\<rparr>)))))"

record workflow_variable =
  v_key :: string
  v_name :: string
  v_type :: string
  v_default :: string
  v_required :: bool
  v_description :: string
  v_options :: "doc list"
  v_source_type :: string
  v_source_node_id :: string
  v_hidden :: bool

definition variable_to_dict :: "workflow_variable \<Rightarrow> doc" where
  "variable_to_dict v =
     [(''key'', PStr (v_key v)),
      (''name'', PStr (v_name v)),
      (''type'', PStr (v_type v)),
      (''default'', PStr (v_default v)),
      (''required'', PBool (v_required v)),
      (''description'', PStr (v_description v)),
      (''options'', dicts (v_options v)),
      (''source_type'', PStr (v_source_type v)),
      (''source_node_id'', PStr (v_source_node_id v)),
      (''hidden'', PBool (v_hidden v))]"

definition variable_from_dict :: "doc \<Rightarrow> workflow_variable option" where
  "variable_from_dict data =
     Option.bind (field as_str data ''key'' []) (\<lambda>a1.
     Option.bind (field as_str data ''name'' []) (\<lambda>a2.
     Option.bind (field as_str data ''type'' ''text'') (\<lambda>a3.
     Option.bind (field as_str data ''default'' []) (\<lambda>a4.
     Option.bind (field as_bool data ''required'' False) (\<lambda>a5.
     Option.bind (field as_str data ''description'' []) (\<lambda>a6.
     Option.bind (field as_dicts data ''options'' []) (\<lambda>a7.
     Option.bind (field as_str data ''source_type'' ''input'') (\<lambda>a8.
     Option.bind (field as_str data ''source_node_id'' []) (\<lambda>a9.
     Option.bind (field as_bool data ''hidden'' False) (\<lambda>a10.
       Some \<lparr>v_key = a1, v_name = a2, v_type = a3, v_default = a4, v_required = a5,
         v_description = a6, v_options = a7, v_source_type = a8, v_source_node_id = a9, v_hidden = a10\<rparr>))))))))))"

section \<open>The workflow definition\<close>

record workflow_def =
  d_workflow_id :: string
  d_name :: string
  d_version :: int
  d_created_at :: string
  d_updated_at :: string
  d_nodes :: "workflow_node list"
  d_edges :: "workflow_edge list"
  d_variables :: "workflow_variable list"
  d_gateways :: "workflow_gateway list"
  d_execution_schemes :: "execution_scheme list"
  d_http_execution_policy :: string
  d_start_position :: doc
  d_end_position :: doc

text \<open>A workflow of these nodes, edges and gateways, with the other defaults of the data class.\<close>

definition new_def ::
  "string \<Rightarrow> string \<Rightarrow> workflow_node list \<Rightarrow> workflow_edge list \<Rightarrow> workflow_gateway list \<Rightarrow> workflow_def" where
  "new_def fresh_id now ns es gs =
     \<lparr>d_workflow_id = fresh_id, d_name = [], d_version = 1, d_created_at = now, d_updated_at = now,
      d_nodes = ns, d_edges = es, d_variables = [], d_gateways = gs, d_execution_schemes = [],
      d_http_execution_policy = ''public'', d_start_position = [(''x'', PInt 300), (''y'', PInt 50)],
      d_end_position = [(''x'', PInt 300), (''y'', PInt 550)]\<rparr>"

definition items_to_dict :: "('a \<Rightarrow> doc) \<Rightarrow> 'a list \<Rightarrow> pyval" where
  "items_to_dict enc xs = PList (map (\<lambda>x. PDict (enc x)) xs)"

text \<open>The items of a list, each read with the identifier generated for it.\<close>

definition read_items :: "(string \<Rightarrow> doc \<Rightarrow> 'a option) \<Rightarrow> (nat \<Rightarrow> string) \<Rightarrow> doc \<Rightarrow> string \<Rightarrow> 'a list option" where
  "read_items dec fresh data k =
     Option.bind (field as_dicts data k []) (\<lambda>ds. map_opt (\<lambda>(i, d). dec (fresh i) d) (enumerate 0 ds))"

definition def_to_dict :: "workflow_def \<Rightarrow> doc" where
  "def_to_dict d =
     [(''workflow_id'', PStr (d_workflow_id d)),
      (''name'', PStr (d_name d)),
      (''version'', PInt (d_version d)),
      (''created_at'', PStr (d_created_at d)),
      (''updated_at'', PStr (d_updated_at d)),
      (''nodes'', items_to_dict node_to_dict (d_nodes d)),
      (''edges'', items_to_dict edge_to_dict (d_edges d)),
      (''variables'', items_to_dict variable_to_dict (d_variables d)),
      (''gateways'', items_to_dict gateway_to_dict (d_gateways d)),
      (''execution_schemes'', items_to_dict scheme_to_dict (d_execution_schemes d)),
      (''http_execution_policy'', PStr (d_http_execution_policy d)),
      (''start_position'', PDict (d_start_position d)),
      (''end_position'', PDict (d_end_position d))]"

text \<open>
  The version: \<open>int(raw)\<close>, else \<open>int(float(raw))\<close> for a string and 1 for anything else; an
  infinite or unreadable number raises.
\<close>

definition read_version :: "pyval \<Rightarrow> int option" where
  "read_version raw =
     (case raw of
        PFloat PosInf \<Rightarrow> None
      | PFloat NegInf \<Rightarrow> None
      | PStr s \<Rightarrow>
          (case py_int s of
             Some i \<Rightarrow> Some i
           | None \<Rightarrow> (case py_float s of Some (Fin m e) \<Rightarrow> Some (trunc_float m e) | _ \<Rightarrow> None))
      | _ \<Rightarrow> (case int_of raw of Some i \<Rightarrow> Some i | None \<Rightarrow> Some 1))"

definition read_policy :: "pyval \<Rightarrow> string option" where
  "read_policy v = (if \<not> truthy v then Some ''public'' else as_str v)"

definition position_at :: "int \<Rightarrow> int \<Rightarrow> doc" where
  "position_at x y = [(''x'', PInt x), (''y'', PInt y)]"

definition def_from_dict :: "(string \<Rightarrow> nat \<Rightarrow> string) \<Rightarrow> string \<Rightarrow> doc \<Rightarrow> workflow_def option" where
  "def_from_dict fresh now data =
     Option.bind (read_items node_from_dict (fresh ''wf'') data ''nodes'') (\<lambda>nodes.
     Option.bind (read_items edge_from_dict (fresh ''edge'') data ''edges'') (\<lambda>edges.
     Option.bind (read_items (\<lambda>_. variable_from_dict) (fresh ''var'') data ''variables'') (\<lambda>variables.
     Option.bind (read_items gateway_from_dict (fresh ''gw'') data ''gateways'') (\<lambda>gateways.
     Option.bind (read_items (\<lambda>i. scheme_from_dict i now) (fresh ''scheme'') data ''execution_schemes'') (\<lambda>schemes.
     Option.bind (field read_version data ''version'' 1) (\<lambda>version.
     Option.bind (field as_str data ''workflow_id'' (fresh ''wf'' (length nodes))) (\<lambda>a1.
     Option.bind (field as_str data ''name'' []) (\<lambda>a2.
     Option.bind (field as_str data ''created_at'' now) (\<lambda>a4.
     Option.bind (field as_str data ''updated_at'' now) (\<lambda>a5.
     Option.bind (field read_policy data ''http_execution_policy'' ''public'') (\<lambda>a11.
     Option.bind (field as_dict data ''start_position'' (position_at 300 50)) (\<lambda>a12.
     Option.bind (field as_dict data ''end_position'' (position_at 300 550)) (\<lambda>a13.
       Some \<lparr>d_workflow_id = a1, d_name = a2, d_version = version, d_created_at = a4, d_updated_at = a5,
         d_nodes = nodes, d_edges = edges, d_variables = variables, d_gateways = gateways,
         d_execution_schemes = schemes, d_http_execution_policy = a11,
         d_start_position = a12, d_end_position = a13\<rparr>)))))))))))))"

definition bump_version :: "string \<Rightarrow> workflow_def \<Rightarrow> workflow_def" where
  "bump_version now d = d\<lparr>d_version := d_version d + 1, d_updated_at := now\<rparr>"

text \<open>The index of nodes: of several with one identifier the last is kept.\<close>

definition get_node :: "workflow_def \<Rightarrow> string \<Rightarrow> workflow_node option" where
  "get_node d nid = find (\<lambda>n. n_id n = nid) (rev (d_nodes d))"

definition get_gateway :: "workflow_def \<Rightarrow> string \<Rightarrow> workflow_gateway option" where
  "get_gateway d gid = find (\<lambda>g. g_id g = gid) (rev (d_gateways d))"

definition get_next_node_id :: "workflow_def \<Rightarrow> string \<Rightarrow> string option" where
  "get_next_node_id d nid = map_option e_target (find (\<lambda>e. e_source e = nid) (d_edges d))"

section \<open>Documents of definitions\<close>

interpretation scheme_codec: codec scheme_to_dict "scheme_from_dict fresh now" "\<lambda>_. True" for fresh now
  by unfold_locales (simp add: scheme_from_dict_def scheme_to_dict_def field_def)

interpretation edge_codec: codec edge_to_dict "edge_from_dict fresh" "\<lambda>_. True" for fresh
proof
  fix e :: workflow_edge
  show "edge_from_dict fresh (edge_to_dict e) = Some e"
    by (cases "e_condition e") (simp_all add: edge_from_dict_def edge_to_dict_def field_def opt_dict_def when_some_def)
qed

interpretation gateway_codec: codec gateway_to_dict "gateway_from_dict fresh" "\<lambda>_. True" for fresh
  by unfold_locales (simp add: gateway_from_dict_def gateway_to_dict_def field_def)

interpretation variable_codec: codec variable_to_dict variable_from_dict "\<lambda>_. True"
  by unfold_locales (simp add: variable_from_dict_def variable_to_dict_def field_def)

text \<open>The nodes \<open>from_dict\<close> makes: settings already coerced, bindings that name a variable.\<close>

definition settled :: "pyval \<Rightarrow> bool" where
  "settled v = (coerce_integer_setting v 0 = Some v)"

definition bindings_named :: "(string, doc) dict \<Rightarrow> bool" where
  "bindings_named bs = list_all (\<lambda>(f, b). dget b ''var_key'' \<noteq> None) bs"

definition workflow_node_ok :: "workflow_node \<Rightarrow> bool" where
  "workflow_node_ok n = (settled (n_json_output_field_min_chars n) \<and> settled (n_auto_retry_count n) \<and>
     settled (n_auto_retry_interval_seconds n) \<and>
     bindings_named (n_var_bindings n))"

lemma read_bindings_written:
  "bindings_named bs \<Longrightarrow> read_bindings nid (map (\<lambda>(k, v). (k, PDict v)) bs) = bs"
  by (induction bs) (auto simp: bindings_named_def)

lemma dget_node_to_dict:
  "dget (node_to_dict n) ''model_override'' = (if n_model_override n = [] then None else Some (PStr (n_model_override n)))"
  "dget (node_to_dict n) ''sub_workflow_id'' = map_option PStr (n_sub_workflow_id n)"
  "dget (node_to_dict n) ''sub_scheme_id'' = map_option PStr (n_sub_scheme_id n)"
  "dget (node_to_dict n) ''id'' = Some (PStr (n_id n))"
  "dget (node_to_dict n) ''label'' = Some (PStr (n_label n))"
  "dget (node_to_dict n) ''node_type'' = Some (PStr (n_type n))"
  "dget (node_to_dict n) ''agent_type'' = Some (PStr (n_agent_type n))"
  "dget (node_to_dict n) ''system_prompt_template'' = Some (PStr (n_system_prompt_template n))"
  "dget (node_to_dict n) ''first_message'' = Some (PStr (n_first_message n))"
  "dget (node_to_dict n) ''position'' = Some (PDict (n_position n))"
  "dget (node_to_dict n) ''var_bindings'' = Some (dict_dict (n_var_bindings n))"
  "dget (node_to_dict n) ''node_params'' = Some (PDict (n_node_params n))"
  "dget (node_to_dict n) ''auto_flow'' = Some (PBool (n_auto_flow n))"
  "dget (node_to_dict n) ''enable_complete_node_task'' = Some (PBool (n_enable_complete_node_task n))"
  "dget (node_to_dict n) ''output_variable'' = Some (PStr (n_output_variable n))"
  "dget (node_to_dict n) ''enable_reject_upstream'' = Some (PBool (n_enable_reject_upstream n))"
  "dget (node_to_dict n) ''max_reject_count'' = Some (PInt (n_max_reject_count n))"
  "dget (node_to_dict n) ''save_output_to_file'' = Some (PBool (n_save_output_to_file n))"
  "dget (node_to_dict n) ''output_file_path'' = Some (PStr (n_output_file_path n))"
  "dget (node_to_dict n) ''require_non_empty_output'' = Some (n_require_non_empty_output n)"
  "dget (node_to_dict n) ''retry_empty_output_in_session'' = Some (n_retry_empty_output_in_session n)"
  "dget (node_to_dict n) ''json_output_field'' = Some (n_json_output_field n)"
  "dget (node_to_dict n) ''json_output_field_min_chars'' = Some (n_json_output_field_min_chars n)"
  "dget (node_to_dict n) ''sub_workflow_params'' = Some (PDict (n_sub_workflow_params n))"
  "dget (node_to_dict n) ''fail_auto_skip'' = Some (PBool (n_fail_auto_skip n))"
  "dget (node_to_dict n) ''auto_retry_count'' = Some (n_auto_retry_count n)"
  "dget (node_to_dict n) ''auto_retry_interval_seconds'' = Some (n_auto_retry_interval_seconds n)"
  by (simp add: node_to_dict_def map_add_def opt_str_def split: option.splits)+

lemma workflow_node_roundtrip:
  "workflow_node_ok n \<Longrightarrow> node_from_dict fresh (node_to_dict n) = Some n"
  by (cases "n_sub_workflow_id n"; cases "n_sub_scheme_id n"; cases "n_model_override n = []")
    (simp_all add: node_from_dict_def field_def dget_node_to_dict workflow_node_ok_def settled_def
      dict_dict_def read_bindings_written)

interpretation node_codec: codec node_to_dict "node_from_dict fresh" workflow_node_ok for fresh
  by unfold_locales (rule workflow_node_roundtrip)

lemma read_items_written:
  assumes "\<And>i x. x \<in> set xs \<Longrightarrow> dec i (enc x) = Some x" and "dget d k = Some (items_to_dict enc xs)"
  shows "read_items dec fresh d k = Some xs"
proof -
  have "map_opt (\<lambda>(i, d). dec (fresh i) d) (enumerate m (map enc ys)) = Some ys" if "set ys \<subseteq> set xs" for m ys
    using that by (induction ys arbitrary: m) (auto simp: assms(1))
  moreover have "as_dicts (items_to_dict enc xs) = Some (map enc xs)"
    using as_dicts_dicts [of "map enc xs"] by (simp add: items_to_dict_def dicts_def comp_def)
  ultimately show ?thesis using assms(2) by (simp add: read_items_def)
qed

definition def_ok :: "workflow_def \<Rightarrow> bool" where
  "def_ok d = (list_all workflow_node_ok (d_nodes d) \<and> d_http_execution_policy d \<noteq> [])"

lemma def_roundtrip:
  assumes "def_ok d"
  shows "def_from_dict fresh now (def_to_dict d) = Some d"
proof -
  let ?doc = "def_to_dict d"
  have "read_items node_from_dict (fresh ''wf'') ?doc ''nodes'' = Some (d_nodes d)"
    by (rule read_items_written [where enc = node_to_dict])
      (use assms workflow_node_roundtrip in \<open>auto simp: def_to_dict_def def_ok_def list_all_iff\<close>)
  moreover have "read_items edge_from_dict (fresh ''edge'') ?doc ''edges'' = Some (d_edges d)"
    by (rule read_items_written [where enc = edge_to_dict]) (simp_all add: edge_codec.dec_enc def_to_dict_def)
  moreover have "read_items (\<lambda>_. variable_from_dict) (fresh ''var'') ?doc ''variables'' = Some (d_variables d)"
    by (rule read_items_written [where enc = variable_to_dict]) (simp_all add: variable_codec.dec_enc def_to_dict_def)
  moreover have "read_items gateway_from_dict (fresh ''gw'') ?doc ''gateways'' = Some (d_gateways d)"
    by (rule read_items_written [where enc = gateway_to_dict]) (simp_all add: gateway_codec.dec_enc def_to_dict_def)
  moreover have "read_items (\<lambda>i. scheme_from_dict i now) (fresh ''scheme'') ?doc ''execution_schemes''
      = Some (d_execution_schemes d)"
    by (rule read_items_written [where enc = scheme_to_dict]) (simp_all add: scheme_codec.dec_enc def_to_dict_def)
  ultimately show ?thesis using assms
    by (simp add: def_from_dict_def field_def)
      (simp add: def_to_dict_def read_version_def read_policy_def def_ok_def)
qed

interpretation def_codec: codec def_to_dict "def_from_dict fresh now" def_ok for fresh now
  by unfold_locales (rule def_roundtrip)

section \<open>What is loaded can be stored\<close>

lemma coerce_settled: "coerce_integer_setting v 0 = Some w \<Longrightarrow> settled w"
  by (cases v) (auto simp: coerce_integer_setting_def settled_def Let_def split: if_splits)

lemma field_settled: "field (\<lambda>v. coerce_integer_setting v 0) d k (PInt 0) = Some w \<Longrightarrow> settled w"
proof (cases "dget d k")
  case None
  assume "field (\<lambda>v. coerce_integer_setting v 0) d k (PInt 0) = Some w"
  with None show ?thesis by (auto simp: settled_def coerce_integer_setting_def)
qed (simp add: coerce_settled)

lemma read_bindings_named: "bindings_named (read_bindings nid bs)"
  by (induction nid bs rule: read_bindings.induct) (auto simp: bindings_named_def map_add_def)

lemma node_from_dict_ok: "node_from_dict fresh data = Some n \<Longrightarrow> workflow_node_ok n"
  unfolding node_from_dict_def
  by (clarsimp simp: bind_eq_Some_conv workflow_node_ok_def read_bindings_named)
    (intro conjI; rule field_settled; assumption)

lemma read_items_all:
  assumes "read_items dec fresh data k = Some xs" and "\<And>i d x. dec i d = Some x \<Longrightarrow> P x"
  shows "list_all P xs"
proof -
  obtain ds where "map_opt (\<lambda>(i, d). dec (fresh i) d) (enumerate 0 ds) = Some xs"
    using assms(1) by (auto simp: read_items_def bind_eq_Some_conv)
  then have "list_all2 (\<lambda>(i, d) y. dec (fresh i) d = Some y) (enumerate 0 ds) xs"
    by (simp add: map_opt_Some_iff split_def)
  then show ?thesis
    by (induction rule: list_all2_induct) (auto simp: assms(2))
qed

lemma read_policy_not_empty: "field read_policy d k ''public'' = Some s \<Longrightarrow> s \<noteq> []"
proof (cases "dget d k")
  case (Some v)
  assume "field read_policy d k ''public'' = Some s"
  with Some show ?thesis by (cases v) (auto simp: read_policy_def split: if_splits)
qed auto

lemma def_from_dict_ok: "def_from_dict fresh now data = Some d \<Longrightarrow> def_ok d"
  unfolding def_from_dict_def
  by (clarsimp simp: bind_eq_Some_conv def_ok_def)
    (auto intro: read_items_all node_from_dict_ok dest: read_policy_not_empty)

text \<open>
  C29. A definition loaded from a document whose fields hold values of their declared types is stored
  without loss: the document written for it reads back as the same definition, whatever
  identifiers and times are generated while it is read. (Outside this domain \<open>def_from_dict\<close> is
  \<open>None\<close>; the code loads a \<open>null\<close> in an untyped field such as the identifier of an edge, and then
  the round trip fails.)
\<close>

theorem loaded_definition_roundtrip:
  "def_from_dict fresh now data = Some d \<Longrightarrow> def_from_dict fresh' now' (def_to_dict d) = Some d"
  by (rule def_roundtrip) (rule def_from_dict_ok)

theorem loaded_definition_roundtrip_witness:
  "\<exists>d. d_version d = 2 \<and> n_auto_retry_count (d_nodes d ! 0) = PInt 3 \<and>
     def_from_dict (\<lambda>_ _. ''other'') ''later'' (def_to_dict d) = Some d"
proof -
  let ?doc = "[(''version'', PStr ''2''), (''nodes'', PList [PDict [(''id'', PStr ''n1''), (''auto_retry_count'', PStr '' 3 '')]])]"
  have spaces: "strip '' 3 '' = ''3''" "strip ''3'' = ''3''" "strip ''2'' = ''2''"
    by (simp_all add: strip_def lstrip_def rstrip_def py_space_def code_def Let_def)
  have ints: "py_int ''3'' = Some 3" "py_int ''2'' = Some 2" "is_digit_str ''3''" "lstrip_signs ''3'' = ''3''"
    by (simp_all add: py_int_def spaces no_underscores_def ascii_digit_def code_def Let_def digits_val_def
        digit_val_def is_digit_str_def py_digit_def lstrip_signs_def)
  obtain d where d: "def_from_dict (\<lambda>_ _. ''fresh'') ''now'' ?doc = Some d"
    and v: "d_version d = 2" "n_auto_retry_count (d_nodes d ! 0) = PInt 3"
    by (simp add: def_from_dict_def read_items_def field_def read_version_def node_from_dict_def
        coerce_integer_setting_def spaces ints Let_def)
  show ?thesis
    using loaded_definition_roundtrip [OF d, of "\<lambda>_ _. ''other''" "''later''"] v by blast
qed

text \<open>
  Reading a node raises for a numeric setting such as \<open>"+-5"\<close>: \<open>_coerce_integer_setting\<close>
  strips all signs before it looks for digits, and then \<open>int\<close> refuses the text. Other
  illegal texts are kept, for \<open>validate\<close> to report.
\<close>

theorem signs_setting_raises:
  "node_from_dict fresh [(''auto_retry_count'', PStr ''+-5'')] = None \<and>
   map_option n_auto_retry_count (node_from_dict fresh [(''auto_retry_count'', PStr ''many'')]) = Some (PStr ''many'')"
proof -
  have "strip ''+-5'' = ''+-5''" "strip ''many'' = ''many''"
    by (simp_all add: strip_def lstrip_def rstrip_def py_space_def code_def Let_def)
  then have "coerce_integer_setting (PStr ''+-5'') 0 = None"
    "coerce_integer_setting (PStr ''many'') 0 = Some (PStr ''many'')"
    by (simp_all add: coerce_integer_setting_def lstrip_signs_def is_digit_str_def py_digit_def ascii_digit_def
        code_def Let_def py_int_def no_underscores_def)
  then show ?thesis by (simp add: node_from_dict_def field_def)
qed

section \<open>References to variables\<close>

text \<open>The keys of the placeholders of a text, as \<open>finditer\<close> finds them.\<close>

lemma placeholder_at_shorter: "placeholder_at s = Some (k, r) \<Longrightarrow> length r < length s"
proof -
  assume p: "placeholder_at s = Some (k, r)"
  let ?d = "dropWhile key_char (drop 2 s)"
  have "length ?d \<le> length s" by (rule order_trans [OF length_dropWhile_le]) simp
  moreover have "starts_with ?d ''}}''" "r = drop 2 ?d"
    using p by (auto simp: placeholder_at_def Let_def split: if_splits)
  ultimately show ?thesis by (auto simp: starts_with_iff)
qed

lemma find_placeholder_shorter: "find_placeholder s = Some (p, k, r) \<Longrightarrow> length r < length s"
  by (induction s arbitrary: p) (auto dest: placeholder_at_shorter split: option.splits)

function placeholder_keys :: "string \<Rightarrow> string list" where
  "placeholder_keys s = (case find_placeholder s of None \<Rightarrow> [] | Some (p, k, r) \<Rightarrow> k # placeholder_keys r)"
  by pat_completeness auto
termination
  by (relation "measure length") (auto dest: find_placeholder_shorter)

declare placeholder_keys.simps [simp del]

text \<open>The strings in a value, at any depth.\<close>

function iter_text_values :: "pyval \<Rightarrow> string list" where
  "iter_text_values (PStr s) = [s]"
| "iter_text_values (PDict d) = concat (map (\<lambda>p. iter_text_values (snd p)) d)"
| "iter_text_values (PList xs) = concat (map iter_text_values xs)"
| "iter_text_values PNone = []"
| "iter_text_values (PBool b) = []"
| "iter_text_values (PInt i) = []"
| "iter_text_values (PFloat f) = []"
  by pat_completeness auto
termination
proof (relation "measure ssize", goal_cases)
  case (2 d p)
  then show ?case using ssize_dict [of "fst p" "snd p" d] by simp
next
  case (3 xs x)
  then show ?case by (induction xs) auto
qed simp

definition node_texts :: "workflow_node \<Rightarrow> string list" where
  "node_texts n =
     [n_label n, n_agent_type n, n_system_prompt_template n, n_first_message n, n_output_file_path n,
      n_model_override n] @ concat (map (\<lambda>p. iter_text_values (snd p)) (n_node_params n))"

text \<open>The variables the bindings name; a \<open>var_key\<close> is a string in the declared type.\<close>

definition binding_keys :: "workflow_node \<Rightarrow> string list" where
  "binding_keys n = concat (map (\<lambda>(f, b).
     case dget b ''var_key'' of Some (PStr k) \<Rightarrow> (if k \<noteq> [] then [k] else []) | _ \<Rightarrow> []) (n_var_bindings n))"

definition node_references :: "workflow_node \<Rightarrow> string list" where
  "node_references n = concat (map placeholder_keys (node_texts n)) @ binding_keys n"

definition add_reference :: "string \<Rightarrow> string \<Rightarrow> (string, string list) dict \<Rightarrow> (string, string list) dict" where
  "add_reference nid k refs = dput k (insort_insert nid (dgetd refs k [])) refs"

text \<open>The sets of nodes are kept sorted, as the result lists them.\<close>

definition get_variable_references :: "workflow_def \<Rightarrow> (string, string list) dict" where
  "get_variable_references d =
     fold (\<lambda>n refs. fold (add_reference (n_id n)) (node_references n) refs) (d_nodes d) []"

definition refs_inv :: "(string, string list) dict \<Rightarrow> (string \<times> string) set \<Rightarrow> bool" where
  "refs_inv refs R = (distinct (dkeys refs) \<and>
     (\<forall>k. sorted (dgetd refs k []) \<and> distinct (dgetd refs k [])) \<and>
     (\<forall>k nid. nid \<in> set (dgetd refs k []) \<longleftrightarrow> (k, nid) \<in> R))"

lemma add_reference_inv: "refs_inv refs R \<Longrightarrow> refs_inv (add_reference nid k refs) (insert (k, nid) R)"
  by (auto simp: refs_inv_def add_reference_def set_insort_insert sorted_insort_insert distinct_insort_insert
      intro: distinct_dput)

lemma add_references_inv:
  "refs_inv refs R \<Longrightarrow> refs_inv (fold (add_reference nid) ks refs) (R \<union> {(k, nid) | k. k \<in> set ks})"
proof (induction ks arbitrary: refs R)
  case (Cons k ks)
  have "insert (k, nid) R \<union> {(j, nid) | j. j \<in> set ks} = R \<union> {(j, nid) | j. j \<in> set (k # ks)}" by auto
  with Cons.IH [OF add_reference_inv [OF Cons.prems, of nid k]] show ?case by simp
qed simp

lemma all_references_inv:
  "refs_inv refs R \<Longrightarrow> refs_inv (fold (\<lambda>n refs. fold (add_reference (n_id n)) (node_references n) refs) ns refs)
     (R \<union> {(k, n_id n) | k n. n \<in> set ns \<and> k \<in> set (node_references n)})"
proof (induction ns arbitrary: refs R)
  case (Cons n ns)
  have "R \<union> {(k, n_id m) | k m. m \<in> set (n # ns) \<and> k \<in> set (node_references m)} =
      (R \<union> {(k, n_id n) | k. k \<in> set (node_references n)}) \<union>
      {(k, n_id m) | k m. m \<in> set ns \<and> k \<in> set (node_references m)}" by auto
  with Cons.IH [OF add_references_inv [OF Cons.prems, of "n_id n" "node_references n"]]
  show ?case by simp
qed simp

text \<open>
  What it means to use a variable, without the search: a text mentions a key when it holds the key in
  double braces; a value holds its strings at any depth; a node uses a variable when one of its
  text fields, a string of a parameter, or a binding names it.
\<close>

definition mentions :: "string \<Rightarrow> string \<Rightarrow> bool" where
  "mentions s k = (is_key k \<and> (\<exists>p r. s = p @ ''{{'' @ k @ ''}}'' @ r))"

inductive holds_text :: "pyval \<Rightarrow> string \<Rightarrow> bool" where
  "holds_text (PStr s) s"
| "v \<in> set xs \<Longrightarrow> holds_text v s \<Longrightarrow> holds_text (PList xs) s"
| "(k, v) \<in> set d \<Longrightarrow> holds_text v s \<Longrightarrow> holds_text (PDict d) s"

inductive_simps holds_text_simps [simp]:
  "holds_text (PStr t) s" "holds_text PNone s" "holds_text (PBool b) s" "holds_text (PInt i) s" "holds_text (PFloat f) s"
  "holds_text (PList xs) s" "holds_text (PDict d) s"

definition uses_variable :: "workflow_node \<Rightarrow> string \<Rightarrow> bool" where
  "uses_variable n k =
     (mentions (n_label n) k \<or> mentions (n_agent_type n) k \<or> mentions (n_system_prompt_template n) k \<or>
      mentions (n_first_message n) k \<or> mentions (n_output_file_path n) k \<or> mentions (n_model_override n) k \<or>
      (\<exists>p v s. (p, v) \<in> set (n_node_params n) \<and> holds_text v s \<and> mentions s k) \<or>
      (\<exists>f b. (f, b) \<in> set (n_var_bindings n) \<and> dget b ''var_key'' = Some (PStr k) \<and> k \<noteq> []))"

lemma placeholder_at_iff: "placeholder_at s = Some (k, r) \<longleftrightarrow> is_key k \<and> s = ''{{'' @ k @ ''}}'' @ r"
proof
  assume a: "placeholder_at s = Some (k, r)"
  then have s: "starts_with s ''{{''" and k: "k = takeWhile key_char (drop 2 s)" "k \<noteq> []"
    and c: "starts_with (dropWhile key_char (drop 2 s)) ''}}''" "r = drop 2 (dropWhile key_char (drop 2 s))"
    by (auto simp: placeholder_at_def Let_def split: if_splits)
  obtain u where u: "s = ''{{'' @ u" using s by (auto simp: starts_with_iff)
  obtain v where v: "dropWhile key_char u = ''}}'' @ v" using c(1) u by (auto simp: starts_with_iff)
  have "u = k @ ''}}'' @ v" using takeWhile_dropWhile_id [of key_char u] k(1) u v by simp
  moreover have "r = v" using c(2) u v by simp
  moreover have "is_key k" using k by (auto simp: is_key_def list_all_iff dest: set_takeWhileD)
  ultimately show "is_key k \<and> s = ''{{'' @ k @ ''}}'' @ r" using u by simp
qed (auto dest: placeholder_at_key)

lemma mentions_Cons: "mentions (c # s) k \<longleftrightarrow> (\<exists>r. placeholder_at (c # s) = Some (k, r)) \<or> mentions s k"
proof
  assume "mentions (c # s) k"
  then obtain p r where p: "is_key k" "c # s = p @ ''{{'' @ k @ ''}}'' @ r" by (auto simp: mentions_def)
  show "(\<exists>r. placeholder_at (c # s) = Some (k, r)) \<or> mentions s k"
  proof (cases p)
    case Nil
    then show ?thesis using p by (auto simp: placeholder_at_iff)
  next
    case (Cons a q)
    then show ?thesis using p by (auto simp: mentions_def)
  qed
next
  assume "(\<exists>r. placeholder_at (c # s) = Some (k, r)) \<or> mentions s k"
  then show "mentions (c # s) k"
    unfolding mentions_def placeholder_at_iff by (metis append_Cons append_Nil)
qed

lemma mentions_skip: "CHR 0x7B \<notin> set p \<Longrightarrow> mentions (p @ r) k \<longleftrightarrow> mentions r k"
  by (induction p) (auto simp: mentions_Cons placeholder_at_iff)

lemma mentions_after: "is_key k' \<Longrightarrow> mentions (''{{'' @ k' @ ''}}'' @ r) k \<longleftrightarrow> k = k' \<or> mentions r k"
proof -
  assume k': "is_key k'"
  then have "CHR 0x7B \<notin> set (k' @ ''}}'')" by (auto simp: is_key_def list_all_iff)
  from mentions_skip [OF this] have rest: "mentions (k' @ ''}}'' @ r) k \<longleftrightarrow> mentions r k" by simp
  have "placeholder_at (CHR 0x7B # k' @ ''}}'' @ r) = None"
    using k' by (cases k') (auto simp: is_key_def placeholder_at_def starts_with_def)
  then have "mentions (CHR 0x7B # k' @ ''}}'' @ r) k \<longleftrightarrow> mentions r k" using rest by (simp add: mentions_Cons [of "CHR 0x7B" "k' @ _"])
  then show ?thesis using placeholder_at_key [OF k', of r] by (auto simp: mentions_Cons [of "CHR 0x7B" "CHR 0x7B # _"])
qed

lemma find_placeholder_mentions:
  "case find_placeholder s of None \<Rightarrow> \<not> mentions s k | Some (p, k', r) \<Rightarrow> mentions s k \<longleftrightarrow> k = k' \<or> mentions r k"
proof (induction s)
  case Nil
  show ?case by (simp add: mentions_def)
next
  case (Cons c s)
  show ?case
  proof (cases "placeholder_at (c # s)")
    case None
    then show ?thesis using Cons by (auto simp: mentions_Cons split: option.splits)
  next
    case (Some q)
    then obtain k' r where q: "placeholder_at (c # s) = Some (k', r)" by (cases q) auto
    then have "is_key k'" "c # s = ''{{'' @ k' @ ''}}'' @ r" by (simp_all add: placeholder_at_iff)
    then show ?thesis using mentions_after [of k' r k] q by simp
  qed
qed

lemma placeholder_keys_mentions: "k \<in> set (placeholder_keys s) \<longleftrightarrow> mentions s k"
proof (induction s rule: placeholder_keys.induct)
  case (1 s)
  show ?case
  proof (cases "find_placeholder s")
    case None
    then show ?thesis using find_placeholder_mentions [of s k] by (simp add: placeholder_keys.simps)
  next
    case (Some q)
    obtain p k' r where q: "q = (p, k', r)" by (cases q) auto
    have "k \<in> set (placeholder_keys r) \<longleftrightarrow> mentions r k" using 1 [OF Some] q by simp
    then show ?thesis using Some q find_placeholder_mentions [of s k]
      by (subst placeholder_keys.simps) auto
  qed
qed

lemma iter_text_values_holds: "s \<in> set (iter_text_values v) \<longleftrightarrow> holds_text v s"
proof (induction v rule: iter_text_values.induct)
  case (2 d)
  have "s \<in> set (iter_text_values (PDict d)) \<longleftrightarrow> (\<exists>p \<in> set d. holds_text (snd p) s)" using 2 by simp
  then show ?case by (auto simp: Bex_def)
qed auto

lemma node_references_uses: "k \<in> set (node_references n) \<longleftrightarrow> uses_variable n k"
proof -
  have "k \<in> set (binding_keys n) \<longleftrightarrow> (\<exists>f b. (f, b) \<in> set (n_var_bindings n) \<and> dget b ''var_key'' = Some (PStr k) \<and> k \<noteq> [])"
    by (force simp: binding_keys_def split: option.splits pyval.splits if_split_asm)
  moreover have "(\<exists>t \<in> set (node_texts n). mentions t k) \<longleftrightarrow>
      mentions (n_label n) k \<or> mentions (n_agent_type n) k \<or> mentions (n_system_prompt_template n) k \<or>
      mentions (n_first_message n) k \<or> mentions (n_output_file_path n) k \<or> mentions (n_model_override n) k \<or>
      (\<exists>p v s. (p, v) \<in> set (n_node_params n) \<and> holds_text v s \<and> mentions s k)"
    by (force simp: node_texts_def iter_text_values_holds)
  ultimately show ?thesis by (simp add: node_references_def placeholder_keys_mentions uses_variable_def)
qed

text \<open>
  C30. The variable references list under each key, sorted and without repetition, exactly the
  nodes that use the variable: one of their texts, or a string in their parameters, however deep,
  holds the key in double braces, or a binding names it.
\<close>

theorem variable_references_exact:
  "distinct (dkeys (get_variable_references d)) \<and>
   sorted (dgetd (get_variable_references d) k []) \<and> distinct (dgetd (get_variable_references d) k []) \<and>
   set (dgetd (get_variable_references d) k []) = {n_id n | n. n \<in> set (d_nodes d) \<and> uses_variable n k}"
proof -
  have "refs_inv [] {}" by (simp add: refs_inv_def dgetd_def)
  from all_references_inv [OF this, of "d_nodes d"] show ?thesis
    unfolding get_variable_references_def refs_inv_def by (auto simp: node_references_uses)
qed

end
