(* ===== verification/WorkflowGraph.thy ===== *)
theory WorkflowGraph
  imports WorkflowModel
begin

text \<open>
  The searches of \<open>src/workflow/definition.py\<close> over the edges of a workflow: the breadth-first
  search of \<open>_find_convergence_node\<close> and \<open>_collect_branch_nodes\<close>, the depth-first search of
  \<open>auto_pair_gateways\<close>, \<open>_compute_loop_body_node_ids\<close> and \<open>validate\<close>. The locale
  \<open>graph_search\<close> is what they share: a worklist, a visited set and a node not to enter; it is
  interpreted by both. Sets of nodes are lists in the order they were filled.
\<close>

section \<open>Adjacency\<close>

definition succs :: "('a, 'a list) dict \<Rightarrow> 'a \<Rightarrow> 'a list" where
  "succs adj n = dgetd adj n []"

definition add_edge :: "'a \<Rightarrow> 'a \<Rightarrow> ('a, 'a list) dict \<Rightarrow> ('a, 'a list) dict" where
  "add_edge a b adj = dput a (succs adj a @ [b]) adj"

definition adjacency :: "workflow_edge list \<Rightarrow> (string, string list) dict" where
  "adjacency edges = fold (\<lambda>e. add_edge (e_source e) (e_target e)) edges []"

definition rev_adjacency :: "workflow_edge list \<Rightarrow> (string, string list) dict" where
  "rev_adjacency edges = fold (\<lambda>e. add_edge (e_target e) (e_source e)) edges []"

lemma succs_Nil [simp]: "succs [] n = []"
  by (simp add: succs_def dgetd_def)

lemma succs_add_edge: "succs (add_edge a b adj) n = (if n = a then succs adj n @ [b] else succs adj n)"
  by (simp add: succs_def add_edge_def)

lemma succs_adjacency_acc:
  "succs (fold (\<lambda>e. add_edge (f e) (g e)) es adj) n = succs adj n @ map g (filter (\<lambda>e. f e = n) es)"
  by (induction es arbitrary: adj) (auto simp: succs_add_edge)

lemma succs_adjacency: "succs (adjacency es) n = map e_target (filter (\<lambda>e. e_source e = n) es)"
  by (simp add: adjacency_def succs_adjacency_acc)

lemma succs_rev_adjacency: "succs (rev_adjacency es) n = map e_source (filter (\<lambda>e. e_target e = n) es)"
  by (simp add: rev_adjacency_def succs_adjacency_acc)

lemma succs_in_values: "set (succs adj n) \<subseteq> \<Union> (set ` snd ` set adj)"
  by (cases "dget adj n") (force simp: succs_def dgetd_def dest: map_of_SomeD)+

section \<open>Reachability\<close>

inductive reach :: "('a \<Rightarrow> 'a list) \<Rightarrow> ('a \<Rightarrow> bool) \<Rightarrow> 'a set \<Rightarrow> 'a \<Rightarrow> bool"
  for succ stop starts where
    reach_start: "x \<in> starts \<Longrightarrow> \<not> stop x \<Longrightarrow> reach succ stop starts x"
  | reach_step: "reach succ stop starts x \<Longrightarrow> y \<in> set (succ x) \<Longrightarrow> \<not> stop y \<Longrightarrow> reach succ stop starts y"

inductive_cases reachE: "reach succ stop starts x"

lemma reach_closed:
  assumes "reach succ stop starts x" and "\<And>y. y \<in> starts \<Longrightarrow> \<not> stop y \<Longrightarrow> y \<in> V"
    and "\<And>y z. y \<in> V \<Longrightarrow> z \<in> set (succ y) \<Longrightarrow> \<not> stop z \<Longrightarrow> z \<in> V"
  shows "x \<in> V"
  using assms(1) by (induction rule: reach.induct) (auto intro: assms(2,3))

lemma reach_not_stop: "reach succ stop starts x \<Longrightarrow> \<not> stop x"
  by (erule reachE) auto

section \<open>Searching with a worklist\<close>

text \<open>
  The interface of the searches: \<open>run work visited\<close> is the loop, \<open>pick\<close> the element taken
  from the worklist and \<open>rest\<close> what remains, \<open>extend\<close> the worklist after its successors
  were put in. What is left out of it is visited already or must not be entered. Every round
  goes down in a well-founded order, so the loop ends.
\<close>

locale graph_search =
  fixes succ :: "'a \<Rightarrow> 'a list"
    and stop :: "'a \<Rightarrow> bool"
    and run :: "'a list \<Rightarrow> 'a list \<Rightarrow> 'a list"
    and pick :: "'a list \<Rightarrow> 'a"
    and rest :: "'a list \<Rightarrow> 'a list"
    and extend :: "'a list \<Rightarrow> 'a list \<Rightarrow> 'a list"
    and order :: "(('a list \<times> 'a list) \<times> ('a list \<times> 'a list)) set"
  assumes run_empty: "run [] V = V"
    and run_skip: "q \<noteq> [] \<Longrightarrow> pick q \<in> set V \<or> stop (pick q) \<Longrightarrow> run q V = run (rest q) V"
    and run_visit: "q \<noteq> [] \<Longrightarrow> \<not> (pick q \<in> set V \<or> stop (pick q)) \<Longrightarrow> run q V = run (extend q V) (V @ [pick q])"
    and pick_rest: "q \<noteq> [] \<Longrightarrow> set q = insert (pick q) (set (rest q))"
    and extend_upper: "q \<noteq> [] \<Longrightarrow> set (extend q V) \<subseteq> set (rest q) \<union> set (succ (pick q))"
    and extend_lower: "q \<noteq> [] \<Longrightarrow>
      set (rest q) \<union> {x \<in> set (succ (pick q)). x \<noteq> pick q \<and> x \<notin> set V \<and> \<not> stop x} \<subseteq> set (extend q V)"
    and order_wf: "wf order"
    and order_skip: "q \<noteq> [] \<Longrightarrow> ((rest q, V), (q, V)) \<in> order"
    and order_visit: "q \<noteq> [] \<Longrightarrow> pick q \<notin> set V \<Longrightarrow> ((extend q V, V @ [pick q]), (q, V)) \<in> order"
begin

lemma run_induct [case_names empty skip visit]:
  assumes "\<And>V. P [] V"
    and "\<And>q V. q \<noteq> [] \<Longrightarrow> pick q \<in> set V \<or> stop (pick q) \<Longrightarrow> P (rest q) V \<Longrightarrow> P q V"
    and "\<And>q V. q \<noteq> [] \<Longrightarrow> pick q \<notin> set V \<Longrightarrow> \<not> stop (pick q) \<Longrightarrow> P (extend q V) (V @ [pick q]) \<Longrightarrow> P q V"
  shows "P q V"
proof (induction "(q, V)" arbitrary: q V rule: wf_induct_rule [OF order_wf])
  case 1
  then show ?case
    using assms(1) assms(2) [OF _ _ 1 [OF order_skip]] assms(3) [OF _ _ _ 1 [OF order_visit]]
    by (cases "q = []") blast+
qed

lemma run_keeps: "\<exists>W. run q V = V @ W"
proof (induction q V rule: run_induct)
  case (skip q V)
  then show ?case using run_skip [OF skip(1,2)] by simp
next
  case (visit q V)
  then show ?case using run_visit [of q V] by auto
qed (simp add: run_empty)

lemma run_superset: "set V \<subseteq> set (run q V)"
  using run_keeps [of q V] by auto

lemma run_distinct: "distinct V \<Longrightarrow> distinct (run q V)"
proof (induction q V rule: run_induct)
  case (skip q V)
  then show ?case using run_skip [OF skip(1,2)] by simp
next
  case (visit q V)
  then show ?case using run_visit [of q V] by simp
qed (simp add: run_empty)

lemma reach_mono:
  assumes "reach succ stop A x" and "\<And>y. y \<in> A \<Longrightarrow> \<not> stop y \<Longrightarrow> reach succ stop B y"
  shows "reach succ stop B x"
  using assms(1) by (induction rule: reach.induct) (auto intro: assms(2) reach_step)

definition frontier :: "'a list \<Rightarrow> 'a list \<Rightarrow> 'a set" where
  "frontier q V = set q \<union> \<Union> (set ` succ ` set V)"

lemma run_sound: "x \<in> set (run q V) \<Longrightarrow> x \<in> set V \<or> reach succ stop (frontier q V) x"
proof (induction q V rule: run_induct)
  case (skip q V)
  have "x \<in> set (run (rest q) V)" using skip(4) run_skip [OF skip(1,2)] by simp
  with skip(3) consider "x \<in> set V" | "reach succ stop (frontier (rest q) V) x" by blast
  then show ?case
  proof cases
    case 2
    then have "reach succ stop (frontier q V) x"
      by (rule reach_mono) (use pick_rest [OF skip(1)] in \<open>auto simp: frontier_def intro: reach_start\<close>)
    then show ?thesis by simp
  qed simp
next
  case (visit q V)
  have start: "reach succ stop (frontier q V) (pick q)"
    using pick_rest [OF visit(1)] visit(3) by (intro reach_start) (auto simp: frontier_def)
  have "x \<in> set (run (extend q V) (V @ [pick q]))" using visit run_visit [of q V] by simp
  with visit(4) consider "x \<in> set (V @ [pick q])" | "reach succ stop (frontier (extend q V) (V @ [pick q])) x"
    by blast
  then show ?case
  proof cases
    case 1
    with start show ?thesis by auto
  next
    case 2
    then have "reach succ stop (frontier q V) x"
    proof (rule reach_mono)
      fix y assume y: "y \<in> frontier (extend q V) (V @ [pick q])" "\<not> stop y"
      then consider "y \<in> frontier q V" | "y \<in> set (succ (pick q))"
        using extend_upper [OF visit(1), of V] pick_rest [OF visit(1)] by (auto simp: frontier_def)
      then show "reach succ stop (frontier q V) y"
        using y(2) start by cases (auto intro: reach_start reach_step)
    qed
    then show ?thesis by simp
  qed
qed (simp add: run_empty)

definition covered :: "'a set \<Rightarrow> 'a set \<Rightarrow> bool" where
  "covered A B = (\<forall>x \<in> A. stop x \<or> x \<in> B)"

definition closed_upto :: "'a list \<Rightarrow> 'a set \<Rightarrow> bool" where
  "closed_upto q V = (\<forall>x \<in> V. covered (set (succ x)) (V \<union> set q))"

lemma run_closed:
  "closed_upto q (set V) \<Longrightarrow> covered (set q) (set (run q V)) \<and> closed_upto [] (set (run q V))"
proof (induction q V rule: run_induct)
  case (skip q V)
  have "closed_upto (rest q) (set V)"
    using skip(2,4) pick_rest [OF skip(1)] by (auto simp: closed_upto_def covered_def)
  from skip(3) [OF this] show ?case
    using run_skip [OF skip(1,2)] pick_rest [OF skip(1)] skip(2) run_superset [of V "rest q"]
    by (auto simp: covered_def)
next
  case (visit q V)
  have "closed_upto (extend q V) (set (V @ [pick q]))"
    using visit(5) extend_lower [OF visit(1), of V] pick_rest [OF visit(1)]
    by (auto simp: closed_upto_def covered_def)
  from visit(4) [OF this] show ?case
    using run_visit [of q V] visit(1-3) pick_rest [OF visit(1)] extend_lower [OF visit(1), of V]
      run_superset [of "V @ [pick q]" "extend q V"]
    by (auto simp: covered_def)
qed (auto simp: run_empty covered_def)

lemma run_reach: "set (run q []) = {x. reach succ stop (set q) x}"
proof
  show "set (run q []) \<subseteq> {x. reach succ stop (set q) x}"
    using run_sound [of _ q "[]"] by (auto simp: frontier_def)
  show "{x. reach succ stop (set q) x} \<subseteq> set (run q [])"
    using reach_closed [of succ stop "set q" _ "set (run q [])"] run_closed [of q "[]"]
    by (auto simp: closed_upto_def covered_def)
qed

end

section \<open>Breadth first and depth first\<close>

text \<open>The nodes a search can still meet: those in the worklist and the targets of edges.\<close>

definition nodes_of :: "('a, 'a list) dict \<Rightarrow> 'a list \<Rightarrow> 'a set" where
  "nodes_of adj q = set q \<union> \<Union> (set ` snd ` set adj)"

lemma finite_nodes_of [simp]: "finite (nodes_of adj q)"
  by (simp add: nodes_of_def)

definition unseen :: "('a, 'a list) dict \<Rightarrow> 'a list \<Rightarrow> 'a list \<Rightarrow> nat" where
  "unseen adj q V = card (nodes_of adj q - set V)"

lemma unseen_visit:
  assumes "set q' \<subseteq> nodes_of adj q" and "x \<in> nodes_of adj q" and "x \<notin> set V"
  shows "unseen adj q' (V @ [x]) < unseen adj q V"
  unfolding unseen_def
proof (rule psubset_card_mono)
  show "nodes_of adj q' - set (V @ [x]) \<subset> nodes_of adj q - set V"
    using assms by (auto simp: nodes_of_def)
qed simp

lemma unseen_skip: "set q' \<subseteq> set q \<Longrightarrow> unseen adj q' V \<le> unseen adj q V"
  unfolding unseen_def by (rule card_mono) (auto simp: nodes_of_def)

lemma unseen_skip_cases:
  "set q' \<subseteq> set q \<Longrightarrow> unseen adj q' V < unseen adj q V \<or> unseen adj q' V = unseen adj q V"
  using unseen_skip [of q' q adj V] by (simp add: le_less)

lemma succs_in_nodes: "set (succs adj n) \<subseteq> nodes_of adj q"
  using succs_in_values [of adj n] by (auto simp: nodes_of_def)

definition pushed :: "('a \<Rightarrow> bool) \<Rightarrow> ('a, 'a list) dict \<Rightarrow> 'a \<Rightarrow> 'a list \<Rightarrow> 'a list" where
  "pushed stop adj cur visited = filter (\<lambda>t. t \<notin> set visited \<and> \<not> stop t) (succs adj cur)"

text \<open>The queue is popped at its front and filled at its end.\<close>

function bfs :: "('a \<Rightarrow> bool) \<Rightarrow> ('a, 'a list) dict \<Rightarrow> 'a list \<Rightarrow> 'a list \<Rightarrow> 'a list" where
  "bfs stop adj [] visited = visited"
| "bfs stop adj (cur # queue) visited =
     (if cur \<in> set visited \<or> stop cur then bfs stop adj queue visited
      else bfs stop adj (queue @ pushed stop adj cur (visited @ [cur])) (visited @ [cur]))"
  by pat_completeness auto

text \<open>
  The stack is popped where it was pushed last, here at the head of the list. With \<open>full\<close> every
  successor is pushed, without it only those the search may enter: the code has both.
\<close>

definition stacked :: "bool \<Rightarrow> ('a \<Rightarrow> bool) \<Rightarrow> ('a, 'a list) dict \<Rightarrow> 'a \<Rightarrow> 'a list" where
  "stacked full stop adj cur = rev (if full then succs adj cur else filter (\<lambda>t. \<not> stop t) (succs adj cur))"

function dfs :: "bool \<Rightarrow> ('a \<Rightarrow> bool) \<Rightarrow> ('a, 'a list) dict \<Rightarrow> 'a list \<Rightarrow> 'a list \<Rightarrow> 'a list" where
  "dfs full stop adj [] visited = visited"
| "dfs full stop adj (cur # stack) visited =
     (if cur \<in> set visited \<or> stop cur then dfs full stop adj stack visited
      else dfs full stop adj (stacked full stop adj cur @ stack) (visited @ [cur]))"
  by pat_completeness auto

definition search_order :: "('a, 'a list) dict \<Rightarrow> (('a list \<times> 'a list) \<times> ('a list \<times> 'a list)) set" where
  "search_order adj = inv_image (less_than <*lex*> less_than) (\<lambda>(q, V). (unseen adj q V, length q))"

lemma search_order_wf: "wf (search_order adj)"
  by (simp add: search_order_def wf_inv_image wf_lex_prod)

lemma search_order_skip: "set q' \<subseteq> set q \<Longrightarrow> length q' < length q \<Longrightarrow> ((q', V), (q, V)) \<in> search_order adj"
  using unseen_skip_cases [of q' q adj V] by (auto simp: search_order_def)

lemma search_order_visit:
  "set q' \<subseteq> nodes_of adj q \<Longrightarrow> x \<in> nodes_of adj q \<Longrightarrow> x \<notin> set V \<Longrightarrow> ((q', V @ [x]), (q, V)) \<in> search_order adj"
  using unseen_visit [of q' adj q x V] by (simp add: search_order_def)

lemma pushed_in_nodes: "set (pushed stop adj n V) \<subseteq> nodes_of adj q"
  using succs_in_nodes [of adj n q] by (auto simp: pushed_def)

lemma bfs_visit_nodes: "set (queue @ pushed stop adj cur V) \<subseteq> nodes_of adj (cur # queue)"
  using pushed_in_nodes [of stop adj cur V "cur # queue"] by (auto simp: nodes_of_def)

lemma dfs_visit_nodes: "set (stacked full stop adj cur @ stack) \<subseteq> nodes_of adj (cur # stack)"
  using succs_in_nodes [of adj cur "cur # stack"] by (auto simp: stacked_def nodes_of_def)

termination bfs
proof (relation "inv_image (less_than <*lex*> less_than) (\<lambda>(_, adj, q, V). (unseen adj q V, length q))", goal_cases)
  case (2 stop adj cur queue visited)
  show ?case using search_order_skip [of queue "cur # queue" visited adj] by (auto simp: search_order_def)
next
  case (3 stop adj cur queue visited)
  then show ?case
    using unseen_visit [OF bfs_visit_nodes [of queue stop adj cur "visited @ [cur]"], of cur visited]
    by (simp add: nodes_of_def)
qed (simp add: wf_inv_image wf_lex_prod)

termination dfs
proof (relation "inv_image (less_than <*lex*> less_than) (\<lambda>(_, _, adj, q, V). (unseen adj q V, length q))", goal_cases)
  case (2 full stop adj cur stack visited)
  show ?case using search_order_skip [of stack "cur # stack" visited adj] by (auto simp: search_order_def)
next
  case (3 full stop adj cur stack visited)
  then show ?case
    using unseen_visit [OF dfs_visit_nodes [of full stop adj cur stack], of cur visited]
    by (simp add: nodes_of_def)
qed (simp add: wf_inv_image wf_lex_prod)

interpretation bfs: graph_search "succs adj" stop "bfs stop adj" hd tl
  "\<lambda>q V. tl q @ pushed stop adj (hd q) (V @ [hd q])" "search_order adj" for stop adj
proof
  fix q V :: "'a list"
  show "bfs stop adj [] V = V" by simp
  show "wf (search_order adj)" by (rule search_order_wf)
  assume "q \<noteq> []"
  then obtain c r where q: "q = c # r" by (cases q) auto
  show "hd q \<in> set V \<or> stop (hd q) \<Longrightarrow> bfs stop adj q V = bfs stop adj (tl q) V" using q by auto
  show "\<not> (hd q \<in> set V \<or> stop (hd q)) \<Longrightarrow>
      bfs stop adj q V = bfs stop adj (tl q @ pushed stop adj (hd q) (V @ [hd q])) (V @ [hd q])"
    using q by simp
  show "set q = insert (hd q) (set (tl q))" using q by simp
  show "set (tl q @ pushed stop adj (hd q) (V @ [hd q])) \<subseteq> set (tl q) \<union> set (succs adj (hd q))"
    "set (tl q) \<union> {x \<in> set (succs adj (hd q)). x \<noteq> hd q \<and> x \<notin> set V \<and> \<not> stop x} \<subseteq>
      set (tl q @ pushed stop adj (hd q) (V @ [hd q]))"
    by (auto simp: pushed_def)
  show "((tl q, V), (q, V)) \<in> search_order adj" using q by (intro search_order_skip) auto
  show "hd q \<notin> set V \<Longrightarrow>
      ((tl q @ pushed stop adj (hd q) (V @ [hd q]), V @ [hd q]), (q, V)) \<in> search_order adj"
    using q bfs_visit_nodes [of r stop adj c "V @ [c]"] by (intro search_order_visit) (auto simp: nodes_of_def)
qed

interpretation dfs: graph_search "succs adj" stop "dfs full stop adj" hd tl
  "\<lambda>q V. stacked full stop adj (hd q) @ tl q" "search_order adj" for full stop adj
proof
  fix q V :: "'a list"
  show "dfs full stop adj [] V = V" by simp
  show "wf (search_order adj)" by (rule search_order_wf)
  assume "q \<noteq> []"
  then obtain c r where q: "q = c # r" by (cases q) auto
  show "hd q \<in> set V \<or> stop (hd q) \<Longrightarrow> dfs full stop adj q V = dfs full stop adj (tl q) V" using q by auto
  show "\<not> (hd q \<in> set V \<or> stop (hd q)) \<Longrightarrow>
      dfs full stop adj q V = dfs full stop adj (stacked full stop adj (hd q) @ tl q) (V @ [hd q])"
    using q by simp
  show "set q = insert (hd q) (set (tl q))" using q by simp
  show "set (stacked full stop adj (hd q) @ tl q) \<subseteq> set (tl q) \<union> set (succs adj (hd q))"
    "set (tl q) \<union> {x \<in> set (succs adj (hd q)). x \<noteq> hd q \<and> x \<notin> set V \<and> \<not> stop x} \<subseteq>
      set (stacked full stop adj (hd q) @ tl q)"
    by (auto simp: stacked_def)
  show "((tl q, V), (q, V)) \<in> search_order adj" using q by (intro search_order_skip) auto
  show "hd q \<notin> set V \<Longrightarrow>
      ((stacked full stop adj (hd q) @ tl q, V @ [hd q]), (q, V)) \<in> search_order adj"
    using q dfs_visit_nodes [of full stop adj c r] by (intro search_order_visit) (auto simp: nodes_of_def)
qed

declare bfs.simps [simp del] dfs.simps [simp del]

section \<open>The convergence node of branches\<close>

abbreviation never :: "'a \<Rightarrow> bool" where
  "never \<equiv> \<lambda>_. False"

text \<open>The second search of \<open>_find_convergence_node\<close> returns at the first node that satisfies \<open>P\<close>.\<close>

function bfs_first :: "('a \<Rightarrow> bool) \<Rightarrow> ('a, 'a list) dict \<Rightarrow> 'a list \<Rightarrow> 'a list \<Rightarrow> 'a option" where
  "bfs_first P adj [] visited = None"
| "bfs_first P adj (cur # queue) visited =
     (if cur \<in> set visited then bfs_first P adj queue visited
      else if P cur then Some cur
      else bfs_first P adj (queue @ pushed never adj cur (visited @ [cur])) (visited @ [cur]))"
  by pat_completeness auto
termination
proof (relation "inv_image (less_than <*lex*> less_than) (\<lambda>(_, adj, q, V). (unseen adj q V, length q))", goal_cases)
  case (2 P adj cur queue visited)
  show ?case using search_order_skip [of queue "cur # queue" visited adj] by (auto simp: search_order_def)
next
  case (3 P adj cur queue visited)
  then show ?case
    using unseen_visit [OF bfs_visit_nodes [of queue never adj cur "visited @ [cur]"], of cur visited]
    by (simp add: nodes_of_def)
qed (simp add: wf_inv_image wf_lex_prod)

lemma bfs_first_find: "bfs_first P adj q V = find P (drop (length V) (bfs never adj q V))"
proof (induction P adj q V rule: bfs_first.induct)
  case (2 P adj cur queue visited)
  show ?case
  proof (cases "cur \<in> set visited")
    case False
    obtain W where W: "bfs never adj (queue @ pushed never adj cur (visited @ [cur])) (visited @ [cur]) =
        (visited @ [cur]) @ W"
      using bfs.run_keeps by blast
    with 2(2) [OF False] False show ?thesis by (simp add: bfs.simps)
  qed (simp add: 2 bfs.simps)
qed (simp add: bfs.simps)

definition end_node :: string where
  "end_node = ''__end__''"

definition find_convergence_node :: "workflow_edge list \<Rightarrow> string list \<Rightarrow> string" where
  "find_convergence_node edges branch_targets =
     (if length branch_targets < 2 then end_node
      else
        (let adj = adjacency edges;
             reachable_sets = map (\<lambda>t. bfs never adj [t] []) branch_targets;
             common = filter (\<lambda>x. list_all (\<lambda>rs. x \<in> set rs) (tl reachable_sets)) (hd reachable_sets)
         in if common = [] then end_node
            else (case bfs_first (\<lambda>x. x \<in> set common \<and> x \<notin> set branch_targets) adj [hd branch_targets] [] of
                    Some n \<Rightarrow> n
                  | None \<Rightarrow> end_node)))"

definition collect_branch_nodes :: "workflow_edge list \<Rightarrow> string set \<Rightarrow> string \<Rightarrow> string \<Rightarrow> string list" where
  "collect_branch_nodes edges node_ids start conv =
     filter (\<lambda>n. n \<in> node_ids) (bfs (\<lambda>n. n = conv) (adjacency edges) [start] [])"

text \<open>What the code means: the targets reachable from a node along the edges.\<close>

definition edge_rel :: "workflow_edge list \<Rightarrow> (string \<times> string) set" where
  "edge_rel es = {(e_source e, e_target e) | e. e \<in> set es}"

lemma succs_edge_rel: "y \<in> set (succs (adjacency es) x) \<longleftrightarrow> (x, y) \<in> edge_rel es"
  by (auto simp: succs_adjacency edge_rel_def)

lemma reach_rtrancl:
  "reach (succs (adjacency es)) never {a} x \<longleftrightarrow> (a, x) \<in> (edge_rel es)\<^sup>*"
proof
  show "reach (succs (adjacency es)) never {a} x \<Longrightarrow> (a, x) \<in> (edge_rel es)\<^sup>*"
    by (induction rule: reach.induct) (auto simp: succs_edge_rel intro: rtrancl_into_rtrancl)
  show "(a, x) \<in> (edge_rel es)\<^sup>* \<Longrightarrow> reach (succs (adjacency es)) never {a} x"
    by (induction rule: rtrancl_induct) (auto simp: succs_edge_rel intro: reach.intros)
qed

lemma bfs_rtrancl: "x \<in> set (bfs never (adjacency es) [a] []) \<longleftrightarrow> (a, x) \<in> (edge_rel es)\<^sup>*"
  using bfs.run_reach [of never "adjacency es" "[a]"] by (simp add: reach_rtrancl)

lemma dfs_rtrancl: "x \<in> set (dfs True never (adjacency es) [a] []) \<longleftrightarrow> (a, x) \<in> (edge_rel es)\<^sup>*"
  using dfs.run_reach [of True never "adjacency es" "[a]"] by (simp add: reach_rtrancl)

definition converges :: "workflow_edge list \<Rightarrow> string list \<Rightarrow> string \<Rightarrow> bool" where
  "converges es targets x = (x \<notin> set targets \<and> (\<forall>t \<in> set targets. (t, x) \<in> (edge_rel es)\<^sup>*))"

lemma find_Some_first:
  assumes "find P xs = Some x"
  shows "x \<in> set xs \<and> P x"
  using assms by (auto simp: find_Some_iff)

lemma common_iff:
  assumes "targets \<noteq> []"
  shows "x \<in> set (filter (\<lambda>x. list_all (\<lambda>rs. x \<in> set rs) (tl (map (\<lambda>t. bfs never (adjacency es) [t] []) targets)))
      (hd (map (\<lambda>t. bfs never (adjacency es) [t] []) targets))) \<longleftrightarrow> (\<forall>t \<in> set targets. (t, x) \<in> (edge_rel es)\<^sup>*)"
  using assms by (cases targets) (auto simp: bfs_rtrancl list_all_iff)

lemma find_convergence_eq:
  assumes "2 \<le> length targets"
  shows "find_convergence_node es targets =
    (case find (converges es targets) (bfs never (adjacency es) [hd targets] []) of Some n \<Rightarrow> n | None \<Rightarrow> end_node)"
proof -
  have ne: "targets \<noteq> []" using assms by auto
  let ?common = "filter (\<lambda>x. list_all (\<lambda>rs. x \<in> set rs) (tl (map (\<lambda>t. bfs never (adjacency es) [t] []) targets)))
      (hd (map (\<lambda>t. bfs never (adjacency es) [t] []) targets))"
  have p: "(\<lambda>x. x \<in> set ?common \<and> x \<notin> set targets) = converges es targets"
    unfolding common_iff [OF ne] converges_def by auto
  have none: "find (converges es targets) (bfs never (adjacency es) [hd targets] []) = None" if "?common = []"
  proof -
    have "\<not> converges es targets x" for x
      using that common_iff [OF ne, of x es] unfolding converges_def by fastforce
    then show ?thesis by (simp add: find_None_iff)
  qed
  have "find_convergence_node es targets =
     (if ?common = [] then end_node
      else (case bfs_first (\<lambda>x. x \<in> set ?common \<and> x \<notin> set targets) (adjacency es) [hd targets] [] of
                    Some n \<Rightarrow> n | None \<Rightarrow> end_node))"
    using assms by (simp add: find_convergence_node_def Let_def)
  also have "\<dots> = (case find (converges es targets) (bfs never (adjacency es) [hd targets] []) of Some n \<Rightarrow> n | None \<Rightarrow> end_node)"
    unfolding p bfs_first_find using none by (cases "?common = []") (simp_all del: filter_empty_conv)
  finally show ?thesis .
qed

text \<open>
  C6. The convergence node of two or more branches is, of the nodes that every branch reaches and at
  which no branch begins, the first in the breadth-first order from the first branch (this may
  itself be \<open>__end__\<close>). When no such node exists, it is \<open>__end__\<close>, where the docstring of the
  code promises \<open>None\<close>.
\<close>

theorem convergence_node_correct:
  assumes "2 \<le> length targets"
  shows "if \<exists>x. converges es targets x
    then \<exists>before after. bfs never (adjacency es) [hd targets] [] = before @ find_convergence_node es targets # after \<and>
        converges es targets (find_convergence_node es targets) \<and> (\<forall>y \<in> set before. \<not> converges es targets y)
    else find_convergence_node es targets = end_node"
proof (cases "find (converges es targets) (bfs never (adjacency es) [hd targets] [])")
  case None
  have "\<not> converges es targets x" for x
  proof
    assume c: "converges es targets x"
    then have "(hd targets, x) \<in> (edge_rel es)\<^sup>*" using assms unfolding converges_def by (cases targets) auto
    with None c show False by (auto simp: find_None_iff bfs_rtrancl)
  qed
  with None show ?thesis by (simp add: find_convergence_eq [OF assms])
next
  case (Some n)
  let ?xs = "bfs never (adjacency es) [hd targets] []"
  from Some obtain i where i: "i < length ?xs" "converges es targets (?xs ! i)" "n = ?xs ! i"
      "\<forall>j < i. \<not> converges es targets (?xs ! j)"
    by (auto simp: find_Some_iff)
  have "?xs = take i ?xs @ ?xs ! i # drop (Suc i) ?xs" using i(1) by (rule id_take_nth_drop)
  moreover have "\<forall>y \<in> set (take i ?xs). \<not> converges es targets y"
    using i by (auto simp: in_set_conv_nth)
  ultimately show ?thesis using Some i by (auto simp: find_convergence_eq [OF assms])
qed

theorem convergence_node_correct_witness:
  "find_convergence_node
     [\<lparr>e_id = ''e1'', e_source = ''g'', e_target = ''a'', e_condition = None\<rparr>,
      \<lparr>e_id = ''e2'', e_source = ''g'', e_target = ''b'', e_condition = None\<rparr>,
      \<lparr>e_id = ''e3'', e_source = ''a'', e_target = ''c'', e_condition = None\<rparr>,
      \<lparr>e_id = ''e4'', e_source = ''b'', e_target = ''c'', e_condition = None\<rparr>] [''a'', ''b''] = ''c''"
proof -
  define es where "es = [\<lparr>e_id = ''e1'', e_source = ''g'', e_target = ''a'', e_condition = None\<rparr>,
      \<lparr>e_id = ''e2'', e_source = ''g'', e_target = ''b'', e_condition = None\<rparr>,
      \<lparr>e_id = ''e3'', e_source = ''a'', e_target = ''c'', e_condition = None\<rparr>,
      \<lparr>e_id = ''e4'', e_source = ''b'', e_target = ''c'', e_condition = None\<rparr>]"
  have search: "bfs never (adjacency es) [''a''] [] = [''a'', ''c'']"
    by (simp add: es_def succs_adjacency pushed_def bfs.simps)
  have "(''a'', ''c'') \<in> edge_rel es" "(''b'', ''c'') \<in> edge_rel es"
    unfolding edge_rel_def es_def by force+
  then have c: "converges es [''a'', ''b''] ''c''" by (auto simp: converges_def)
  then have "\<exists>x. converges es [''a'', ''b''] x" ..
  with convergence_node_correct [of "[''a'', ''b'']" es]
  obtain before after where "[''a'', ''c''] = before @ find_convergence_node es [''a'', ''b''] # after"
    "converges es [''a'', ''b''] (find_convergence_node es [''a'', ''b''])"
    by (auto simp: search)
  moreover have "\<not> converges es [''a'', ''b''] ''a''" by (simp add: converges_def)
  ultimately have "find_convergence_node es [''a'', ''b''] = ''c''"
    by (auto simp: Cons_eq_append_conv)
  then show ?thesis by (simp add: es_def)
qed

text \<open>
  The nodes of a branch are the executable ones met from its start before the convergence
  node: those on a path of edges that nowhere passes through it.
\<close>

theorem branch_nodes_correct:
  "set (collect_branch_nodes es ids start conv) =
     {n \<in> ids. reach (succs (adjacency es)) (\<lambda>x. x = conv) {start} n}"
  using bfs.run_reach [of "\<lambda>x. x = conv" "adjacency es" "[start]"] by (auto simp: collect_branch_nodes_def)

section \<open>Pairing parallel gateways\<close>

definition dict_of :: "('a \<Rightarrow> 'k) \<Rightarrow> 'a list \<Rightarrow> ('k, 'a) dict" where
  "dict_of key xs = fold (\<lambda>x. dput (key x) x) xs []"

lemma dict_of_acc:
  "dget (fold (\<lambda>x. dput (key x) x) xs d) k = (case find (\<lambda>x. key x = k) (rev xs) of None \<Rightarrow> dget d k | Some x \<Rightarrow> Some x)"
  "fst ` set (fold (\<lambda>x. dput (key x) x) xs d) = fst ` set d \<union> key ` set xs"
proof (induction xs rule: rev_induct)
  case (snoc x xs)
  { case 1 show ?case using snoc(1) by simp next case 2 show ?case using snoc(2) by auto }
qed simp_all

lemma dget_dict_of: "dget (dict_of key xs) k = find (\<lambda>x. key x = k) (rev xs)"
  by (auto simp: dict_of_def dict_of_acc split: option.splits)

lemma keys_dict_of [simp]: "fst ` set (dict_of key xs) = key ` set xs"
  by (simp add: dict_of_def dict_of_acc)

definition gateways_of :: "string \<Rightarrow> workflow_def \<Rightarrow> workflow_gateway list" where
  "gateways_of t d = filter (\<lambda>g. g_type g = t) (d_gateways d)"

definition label_or_id :: "workflow_gateway \<Rightarrow> string" where
  "label_or_id g = (if g_label g \<noteq> [] then g_label g else g_id g)"

text \<open>One parallel gateway: its pairing, and the name in the error when there is none.\<close>

definition pair_gateway ::
  "(string, string list) dict \<Rightarrow> string list \<Rightarrow> workflow_gateway \<Rightarrow> workflow_gateway \<times> string list" where
  "pair_gateway adj converge_ids pg =
     (let out_targets = succs adj (g_id pg)
      in if length out_targets < 2 then (pg, [])
         else
           (let branch_reachable = map (\<lambda>t. g_id pg # dfs True never adj [t] []) out_targets;
                paired = find (\<lambda>c. c \<noteq> g_id pg \<and> list_all (\<lambda>r. c \<in> set r) branch_reachable) converge_ids
            in (pg\<lparr>g_converge_gateway_id := paired\<rparr>, if paired = None then [label_or_id pg] else [])))"

definition auto_pair_gateways :: "workflow_def \<Rightarrow> workflow_def \<times> string list" where
  "auto_pair_gateways d =
     (let adj = adjacency (d_edges d);
          converge_ids = dkeys (dict_of g_id (gateways_of ''converge'' d));
          paired = map (\<lambda>g. if g_type g = ''parallel'' then pair_gateway adj converge_ids g else (g, [])) (d_gateways d)
      in (d\<lparr>d_gateways := map fst paired\<rparr>, concat (map snd paired)))"

text \<open>A gateway every branch of a parallel gateway reaches.\<close>

definition joins :: "workflow_def \<Rightarrow> workflow_gateway \<Rightarrow> string \<Rightarrow> bool" where
  "joins d pg c = (c \<noteq> g_id pg \<and> c \<in> g_id ` set (gateways_of ''converge'' d) \<and>
     (\<forall>e \<in> set (d_edges d). e_source e = g_id pg \<longrightarrow> (e_target e, c) \<in> (edge_rel (d_edges d))\<^sup>*))"

definition out_degree :: "workflow_def \<Rightarrow> string \<Rightarrow> nat" where
  "out_degree d n = length (filter (\<lambda>e. e_source e = n) (d_edges d))"

text \<open>The identifiers of the converge gateways, as they are declared.\<close>

definition converge_ids :: "workflow_def \<Rightarrow> string list" where
  "converge_ids d = map g_id (gateways_of ''converge'' d)"

lemma find_dict_keys_acc:
  "find P (dkeys (fold (\<lambda>x. dput (key x) x) xs d)) = find P (dkeys d @ map key xs)"
proof (induction xs arbitrary: d)
  case (Cons x xs)
  have again: "find P (as @ k # bs) = find P (as @ bs)" if "k \<in> set as" for as bs k
  proof -
    have app: "find P (xs @ ys) = (case find P xs of None \<Rightarrow> find P ys | Some x \<Rightarrow> Some x)" for xs ys
      by (induction xs) auto
    show ?thesis
    proof (cases "find P as")
      case None
      then have "\<not> P k" using that by (simp add: find_None_iff)
      with None show ?thesis by (simp add: app)
    qed (simp add: app)
  qed
  show ?case using Cons again [of "key x" "dkeys d" "map key xs"] by (simp add: dkeys_dput)
qed simp

lemma find_dict_keys: "find P (dkeys (dict_of key xs)) = find P (map key xs)"
  by (simp add: dict_of_def find_dict_keys_acc)

lemma pair_gateway_found:
  assumes "2 \<le> out_degree d (g_id pg)" and "\<And>P. find P ids = find P (converge_ids d)"
    and "set ids = g_id ` set (gateways_of ''converge'' d)"
  shows "g_converge_gateway_id (fst (pair_gateway (adjacency (d_edges d)) ids pg)) = find (joins d pg) (converge_ids d)"
    and "snd (pair_gateway (adjacency (d_edges d)) ids pg) = [] \<longleftrightarrow> (\<exists>c. joins d pg c)"
proof -
  let ?P = "\<lambda>c. c \<noteq> g_id pg \<and> list_all (\<lambda>r. c \<in> set r)
    (map (\<lambda>t. g_id pg # dfs True never (adjacency (d_edges d)) [t] []) (succs (adjacency (d_edges d)) (g_id pg)))"
  have p: "c \<in> set ids \<and> ?P c \<longleftrightarrow> joins d pg c" for c
    using assms(3) by (auto simp: joins_def list_all_iff dfs_rtrancl succs_adjacency)
  have len: "\<not> length (succs (adjacency (d_edges d)) (g_id pg)) < 2"
    using assms(1) by (simp add: out_degree_def succs_adjacency)
  have "find ?P ids = find (joins d pg) ids" by (rule find_cong) (use p in auto)
  then have found: "find ?P ids = find (joins d pg) (converge_ids d)" using assms(2) by simp
  from len found show "g_converge_gateway_id (fst (pair_gateway (adjacency (d_edges d)) ids pg)) = find (joins d pg) (converge_ids d)"
    by (simp add: pair_gateway_def Let_def)
  have "find (joins d pg) (converge_ids d) = None \<longleftrightarrow> (\<nexists>c. joins d pg c)"
    by (auto simp: find_None_iff converge_ids_def joins_def)
  with len found show "snd (pair_gateway (adjacency (d_edges d)) ids pg) = [] \<longleftrightarrow> (\<exists>c. joins d pg c)"
    by (auto simp: pair_gateway_def Let_def)
qed

text \<open>
  C7. Pairing gives every parallel gateway with at least two branches the first converge gateway,
  in the order of declaration, that all its branches reach, and reports an error exactly when one
  has none; it changes nothing else. The degrees of the converge gateway play no part (see
  \<open>single_entry_converge_paired\<close> below).
\<close>

theorem pairing_correct:
  assumes "auto_pair_gateways d = (d', errors)"
  shows "(errors = [] \<longleftrightarrow>
      (\<forall>g \<in> set (d_gateways d). g_type g = ''parallel'' \<and> 2 \<le> out_degree d (g_id g) \<longrightarrow> (\<exists>c. joins d g c))) \<and>
    d' = d\<lparr>d_gateways := map (\<lambda>g. if g_type g = ''parallel'' \<and> 2 \<le> out_degree d (g_id g)
        then g\<lparr>g_converge_gateway_id := find (joins d g) (converge_ids d)\<rparr> else g) (d_gateways d)\<rparr>"
proof -
  let ?adj = "adjacency (d_edges d)" and ?ids = "dkeys (dict_of g_id (gateways_of ''converge'' d))"
  let ?f = "\<lambda>g. if g_type g = ''parallel'' then pair_gateway ?adj ?ids g else (g, [])"
  have ids: "find P ?ids = find P (converge_ids d)" for P by (simp add: find_dict_keys converge_ids_def)
  have ids': "set ?ids = g_id ` set (gateways_of ''converge'' d)" by simp
  note found = pair_gateway_found [OF _ ids ids']
  have few: "\<not> 2 \<le> out_degree d (g_id g) \<Longrightarrow> pair_gateway ?adj ?ids g = (g, [])" for g
    by (simp add: pair_gateway_def out_degree_def succs_adjacency)
  have shape: "fst (pair_gateway ?adj ?ids g) = g\<lparr>g_converge_gateway_id := g_converge_gateway_id (fst (pair_gateway ?adj ?ids g))\<rparr>" for g
    by (simp add: pair_gateway_def Let_def)
  have d': "d' = d\<lparr>d_gateways := map (fst \<circ> ?f) (d_gateways d)\<rparr>" and e: "errors = concat (map (snd \<circ> ?f) (d_gateways d))"
    using assms by (auto simp: auto_pair_gateways_def Let_def)
  have err: "snd (?f g) = [] \<longleftrightarrow> (g_type g = ''parallel'' \<and> 2 \<le> out_degree d (g_id g) \<longrightarrow> (\<exists>c. joins d g c))" for g
    using found(2) [of g] few [of g] by (cases "2 \<le> out_degree d (g_id g)") auto
  have pair: "fst (?f g) = (if g_type g = ''parallel'' \<and> 2 \<le> out_degree d (g_id g)
      then g\<lparr>g_converge_gateway_id := find (joins d g) (converge_ids d)\<rparr> else g)" for g
    using shape [of g] found(1) [of g] few [of g] by (cases "2 \<le> out_degree d (g_id g)") auto
  have "map (fst \<circ> ?f) (d_gateways d) = map (\<lambda>g. if g_type g = ''parallel'' \<and> 2 \<le> out_degree d (g_id g)
      then g\<lparr>g_converge_gateway_id := find (joins d g) (converge_ids d)\<rparr> else g) (d_gateways d)"
    by (rule map_cong [OF refl]) (simp only: comp_apply pair)
  moreover have "errors = [] \<longleftrightarrow> (\<forall>g \<in> set (d_gateways d). snd (?f g) = [])" by (auto simp: e)
  ultimately show ?thesis using err d' by simp
qed

text \<open>A parallel gateway whose one branch passes through the other: the converge gateway has one edge in.\<close>

definition fork_gateway :: workflow_gateway where
  "fork_gateway = \<lparr>g_id = ''fork'', g_type = ''parallel'', g_label = [], g_position = [], g_converge_gateway_id = None\<rparr>"

definition join_gateway :: workflow_gateway where
  "join_gateway = \<lparr>g_id = ''join'', g_type = ''converge'', g_label = [], g_position = [], g_converge_gateway_id = None\<rparr>"

definition edge_of :: "string \<times> string \<Rightarrow> workflow_edge" where
  "edge_of p = \<lparr>e_id = [], e_source = fst p, e_target = snd p, e_condition = None\<rparr>"

definition fork_flow :: "(string \<times> string) list \<Rightarrow> workflow_def" where
  "fork_flow es = \<lparr>d_workflow_id = ''w'', d_name = [], d_version = 1, d_created_at = [], d_updated_at = [],
      d_nodes = [], d_edges = map edge_of es, d_variables = [], d_gateways = [fork_gateway, join_gateway],
      d_execution_schemes = [], d_http_execution_policy = ''public'', d_start_position = [], d_end_position = []\<rparr>"

lemma fork_flow_simps [simp]:
  "d_edges (fork_flow es) = map edge_of es" "d_gateways (fork_flow es) = [fork_gateway, join_gateway]"
  "g_id fork_gateway = ''fork''" "g_id join_gateway = ''join''" "g_type fork_gateway = ''parallel''"
  "g_type join_gateway = ''converge''" "converge_ids (fork_flow es) = [''join'']"
  "g_converge_gateway_id fork_gateway = None"
  by (simp_all add: fork_flow_def fork_gateway_def join_gateway_def converge_ids_def gateways_of_def)

lemma edge_rel_of: "edge_rel (map edge_of es) = set es"
  by (force simp: edge_rel_def edge_of_def)

lemma fork_joined:
  assumes "\<forall>e \<in> set es. fst e = ''fork'' \<longrightarrow> (snd e, ''join'') \<in> (set es)\<^sup>*"
  shows "joins (fork_flow es) fork_gateway ''join''"
  using assms by (auto simp: joins_def edge_rel_of edge_of_def gateways_of_def)

theorem pairing_correct_witness:
  "g_converge_gateway_id (d_gateways (fst (auto_pair_gateways
     (fork_flow [(''fork'', ''a''), (''fork'', ''b''), (''a'', ''join''), (''b'', ''join'')]))) ! 0) = Some ''join''"
proof -
  let ?es = "[(''fork'', ''a''), (''fork'', ''b''), (''a'', ''join''), (''b'', ''join'')]"
  let ?p = "auto_pair_gateways (fork_flow ?es)"
  have j: "joins (fork_flow ?es) fork_gateway ''join''" by (rule fork_joined) auto
  have deg: "2 \<le> out_degree (fork_flow ?es) ''fork''" by (simp add: out_degree_def edge_of_def)
  have "auto_pair_gateways (fork_flow ?es) = (fst ?p, snd ?p)" by simp
  from conjunct2 [OF pairing_correct [OF this]] j deg show ?thesis by simp
qed

lemma single_entry_converge_paired:
  "g_converge_gateway_id (fst (pair_gateway (adjacency (d_edges (fork_flow [(''fork'', ''a''), (''fork'', ''b''), (''a'', ''b''), (''b'', ''join'')])))
     [''join''] fork_gateway)) = Some ''join''"
proof -
  let ?d = "fork_flow [(''fork'', ''a''), (''fork'', ''b''), (''a'', ''b''), (''b'', ''join'')]"
  have "(''a'', ''join'') \<in> (set [(''fork'', ''a''), (''fork'', ''b''), (''a'', ''b''), (''b'', ''join'')])\<^sup>*"
    by (rule rtrancl_trans [of _ "''b''"]) auto
  then have j: "joins ?d fork_gateway ''join''" by (intro fork_joined) auto
  have deg: "2 \<le> out_degree ?d (g_id fork_gateway)" by (simp add: out_degree_def edge_of_def)
  from pair_gateway_found(1) [OF deg, of "[''join'']"] j show ?thesis by (simp add: gateways_of_def)
qed

section \<open>The body of a loop gateway\<close>

definition edge_between :: "workflow_edge list \<Rightarrow> string \<Rightarrow> string \<Rightarrow> workflow_edge option" where
  "edge_between es a b = find (\<lambda>e. e_source e = a \<and> e_target e = b) es"

definition is_default_edge :: "workflow_edge \<Rightarrow> bool" where
  "is_default_edge e =
     (case e_condition e of None \<Rightarrow> False | Some c \<Rightarrow> truthy (dgetd c ''is_default'' PNone))"

definition is_default_target :: "workflow_edge list \<Rightarrow> string \<Rightarrow> string \<Rightarrow> bool" where
  "is_default_target es a b = (case edge_between es a b of None \<Rightarrow> False | Some e \<Rightarrow> is_default_edge e)"

definition compute_loop_body_node_ids :: "workflow_def \<Rightarrow> string \<Rightarrow> (string, string list) dict \<Rightarrow> string list" where
  "compute_loop_body_node_ids d gateway_id adj =
     (case find (\<lambda>t. \<not> is_default_target (d_edges d) gateway_id t) (succs adj gateway_id) of
        None \<Rightarrow> []
      | Some continue_target \<Rightarrow>
          (if continue_target = [] then []
           else filter (\<lambda>n. get_node d n \<noteq> None \<and> n \<notin> g_id ` set (d_gateways d))
             (dfs False (\<lambda>n. n = gateway_id) adj [continue_target] [])))"

lemma loop_body_no_gateway: "n \<in> set (compute_loop_body_node_ids d g adj) \<Longrightarrow> n \<notin> g_id ` set (d_gateways d)"
  by (auto simp: compute_loop_body_node_ids_def split: option.splits if_splits)

text \<open>
  The body of a loop gateway is made of the executable nodes on the paths that leave the
  gateway by its first edge that is not the exit and do not come back through it.
\<close>

theorem loop_body_correct:
  assumes "find (\<lambda>t. \<not> is_default_target (d_edges d) g t) (succs (adjacency (d_edges d)) g) = Some c" and "c \<noteq> []"
  shows "set (compute_loop_body_node_ids d g (adjacency (d_edges d))) =
    {n. get_node d n \<noteq> None \<and> n \<notin> g_id ` set (d_gateways d) \<and>
        reach (succs (adjacency (d_edges d))) (\<lambda>x. x = g) {c} n}"
  using assms dfs.run_reach [of False "\<lambda>x. x = g" "adjacency (d_edges d)" "[c]"]
  by (auto simp: compute_loop_body_node_ids_def)

theorem loop_body_correct_witness:
  "\<exists>d. set (compute_loop_body_node_ids d ''loop'' (adjacency (d_edges d))) = {} \<and> d_edges d \<noteq> []"
proof -
  define es where "es = [\<lparr>e_id = ''e1'', e_source = ''loop'', e_target = ''a'', e_condition = None\<rparr>]"
  define d where "d = \<lparr>d_workflow_id = ''w'', d_name = [], d_version = 1, d_created_at = [], d_updated_at = [],
      d_nodes = [], d_edges = es, d_variables = [], d_gateways = [], d_execution_schemes = [],
      d_http_execution_policy = ''public'', d_start_position = [], d_end_position = []\<rparr>"
  have "find (\<lambda>t. \<not> is_default_target (d_edges d) ''loop'' t) (succs (adjacency (d_edges d)) ''loop'') = Some ''a''"
    by (simp add: d_def es_def succs_adjacency is_default_target_def edge_between_def is_default_edge_def)
  from loop_body_correct [OF this] show ?thesis
    by (intro exI [of _ d]) (simp add: d_def es_def get_node_def)
qed

end
