(* ===== verification/ExecutionPlan.thy ===== *)
theory ExecutionPlan
  imports WorkflowGraph
begin

text \<open>
  \<open>get_execution_plan\<close> of \<open>src/workflow/definition.py\<close> and the serial order of
  \<open>src/workflow/runtime_models.py\<close>. A plan is a list of steps; the walk along the main line is
  a recursion on the current node, which ends because every round visits a new node. The
  iteration order of a Python set is the argument \<open>ord\<close>.
\<close>

section \<open>Steps\<close>

record branch_info =
  b_target :: string
  b_condition :: "doc option"

record loop_step =
  l_body :: "string list"
  l_continue :: branch_info
  l_exit :: "branch_info option"

datatype plan_step =
    NodeStep string
  | ParallelStep string string
  | BranchStep "string list" nat
  | ConvergeStep string string
  | ConditionStep string "branch_info list" "string option" "loop_step option"
  | LoopStep string "string list" "string option" "string option"

definition dunder :: "string \<Rightarrow> bool" where
  "dunder s = (starts_with s ''__'' \<and> ends_with s ''__'')"

definition start_node :: string where
  "start_node = ''__start__''"

definition first_succ :: "(string, string list) dict \<Rightarrow> string \<Rightarrow> string option" where
  "first_succ adj n = (case succs adj n of [] \<Rightarrow> None | t # _ \<Rightarrow> Some t)"

definition is_node :: "workflow_def \<Rightarrow> string \<Rightarrow> bool" where
  "is_node d n = (get_node d n \<noteq> None)"

definition gateway_at :: "string \<Rightarrow> workflow_def \<Rightarrow> string \<Rightarrow> workflow_gateway option" where
  "gateway_at t d n = dget (dict_of g_id (gateways_of t d)) n"

text \<open>\<open>while current and current not in visited\<close>: a missing and an empty identifier end the walk.\<close>

definition walks_on :: "string option \<Rightarrow> string list \<Rightarrow> string option \<Rightarrow> bool" where
  "walks_on current visited stop =
     (case current of None \<Rightarrow> False | Some c \<Rightarrow> c \<noteq> [] \<and> c \<notin> set visited \<and> stop \<noteq> Some c)"

lemma walks_on_Some:
  "walks_on current visited stop \<longleftrightarrow>
     (\<exists>c. current = Some c \<and> c \<noteq> [] \<and> c \<notin> set visited \<and> stop \<noteq> Some c)"
  by (cases current) (auto simp: walks_on_def)

definition here :: "string option \<Rightarrow> string list" where
  "here current = (case current of None \<Rightarrow> [] | Some c \<Rightarrow> [c])"

lemma here_simps [simp]: "here None = []" "here (Some c) = [c]"
  by (simp_all add: here_def)

lemma walk_decreases:
  assumes "walks_on current visited stop" and "set (here next) \<subseteq> nodes_of adj (here current)"
    and "set (the current # visited) \<subseteq> set visited'"
  shows "unseen adj (here next) visited' < unseen adj (here current) visited"
proof -
  obtain c where c: "current = Some c" "c \<notin> set visited" using assms(1) by (auto simp: walks_on_Some)
  show ?thesis
    unfolding unseen_def by (rule psubset_card_mono) (use assms(2,3) c in \<open>auto simp: nodes_of_def\<close>)
qed

lemma first_succ_nodes: "set (here (first_succ adj n)) \<subseteq> nodes_of adj q"
  using succs_in_nodes [of adj n q] by (auto simp: first_succ_def split: list.splits)

section \<open>The serial walk and the branches\<close>

function serial_walk ::
  "workflow_def \<Rightarrow> (string, string list) dict \<Rightarrow> string option \<Rightarrow> string option \<Rightarrow> string list \<Rightarrow> plan_step list" where
  "serial_walk d adj stop current visited =
     (if walks_on current visited stop then
        (if is_node d (the current) then [NodeStep (the current)] else [])
        @ serial_walk d adj stop (first_succ adj (the current)) (visited @ [the current])
      else [])"
  by pat_completeness auto
termination
proof (relation "measure (\<lambda>(d, adj, stop, current, visited). unseen adj (here current) visited)", goal_cases)
  case (2 d adj stop current visited)
  show ?case using walk_decreases [OF 2 first_succ_nodes, where visited' = "visited @ [the current]"] by simp
qed simp

declare serial_walk.simps [simp del]

text \<open>One branch of a parallel gateway: up to its converge gateway \<open>cid\<close>, or any other.\<close>

function branch_walk ::
  "workflow_def \<Rightarrow> (string, string list) dict \<Rightarrow> string option \<Rightarrow> string option \<Rightarrow> string list \<Rightarrow> string list" where
  "branch_walk d adj cid bc visited =
     (if walks_on bc visited cid then
        (if gateway_at ''converge'' d (the bc) \<noteq> None then []
         else (if is_node d (the bc) then [the bc] else [])
           @ branch_walk d adj cid (first_succ adj (the bc)) (visited @ [the bc]))
      else [])"
  by pat_completeness auto
termination
proof (relation "measure (\<lambda>(d, adj, cid, bc, visited). unseen adj (here bc) visited)", goal_cases)
  case (2 d adj cid bc visited)
  show ?case using walk_decreases [OF 2(1) first_succ_nodes, where visited' = "visited @ [the bc]"] by simp
qed simp

declare branch_walk.simps [simp del]

definition branch_steps ::
  "workflow_def \<Rightarrow> (string, string list) dict \<Rightarrow> string option \<Rightarrow> string \<Rightarrow> plan_step list" where
  "branch_steps d adj cid pg =
     map (\<lambda>(bi, target). BranchStep (branch_walk d adj cid (Some target) []) bi) (enumerate 0 (succs adj pg))"

definition branch_members ::
  "workflow_def \<Rightarrow> (string, string list) dict \<Rightarrow> string option \<Rightarrow> string \<Rightarrow> string list" where
  "branch_members d adj cid pg = concat (map (\<lambda>t. branch_walk d adj cid (Some t) []) (succs adj pg))"

section \<open>Condition and loop gateways\<close>

fun index_of :: "'a \<Rightarrow> 'a list \<Rightarrow> nat option" where
  "index_of x [] = None"
| "index_of x (y # ys) = (if x = y then Some 0 else map_option Suc (index_of x ys))"

definition branch_at :: "workflow_def \<Rightarrow> string \<Rightarrow> string \<Rightarrow> branch_info" where
  "branch_at d current target =
     \<lparr>b_target = target,
      b_condition = (case edge_between (d_edges d) current target of
          None \<Rightarrow> None
        | Some e \<Rightarrow> (if e_condition e = Some [] then None else e_condition e))\<rparr>"

text \<open>The nodes visited from the target of a back edge up to the gateway.\<close>

definition back_body :: "workflow_def \<Rightarrow> string list \<Rightarrow> string \<Rightarrow> string \<Rightarrow> string list" where
  "back_body d order current target =
     (case (index_of target order, index_of current order) of
        (Some i, Some j) \<Rightarrow>
          filter (\<lambda>n. is_node d n \<and> n \<notin> g_id ` set (d_gateways d)) (drop i (take j order))
      | _ \<Rightarrow> [])"

text \<open>The last of the edges that lead back decides.\<close>

definition back_branches :: "workflow_def \<Rightarrow> (string, string list) dict \<Rightarrow> string list \<Rightarrow> string \<Rightarrow> branch_info list" where
  "back_branches d adj visited current =
     filter (\<lambda>b. b_target b \<in> set visited \<and> b_target b \<noteq> current) (map (branch_at d current) (succs adj current))"

definition condition_step ::
  "workflow_def \<Rightarrow> (string, string list) dict \<Rightarrow> string list \<Rightarrow> string list \<Rightarrow> string \<Rightarrow> plan_step \<times> string option" where
  "condition_step d adj visited order current =
     (let branches = map (branch_at d current) (succs adj current);
          back = back_branches d adj visited current
      in if back = [] then
           (ConditionStep current branches (Some (find_convergence_node (d_edges d) (map b_target branches))) None,
            first_succ adj current)
         else
           (let continue_branch = last back;
                body = back_body d order current (b_target continue_branch);
                exit_branch = find (\<lambda>b. b_target b \<noteq> b_target continue_branch) branches
            in (ConditionStep current branches None
                  (if body = [] then None
                   else Some \<lparr>l_body = body, l_continue = continue_branch, l_exit = exit_branch\<rparr>),
                map_option b_target exit_branch)))"

definition last_target :: "(string \<Rightarrow> bool) \<Rightarrow> string list \<Rightarrow> string option" where
  "last_target P ts = find P (rev ts)"

definition loop_gateway_step ::
  "workflow_def \<Rightarrow> (string, string list) dict \<Rightarrow> string \<Rightarrow> plan_step \<times> string option" where
  "loop_gateway_step d adj current =
     (let out_targets = succs adj current;
          exit_target = last_target (is_default_target (d_edges d) current) out_targets;
          found = last_target (\<lambda>t. \<not> is_default_target (d_edges d) current t) out_targets;
          continue_target = (if found = None \<or> found = Some [] then first_succ adj current else found);
          loop_body = (if continue_target = None \<or> continue_target = Some [] then []
                       else filter (\<lambda>n. is_node d n \<and> n \<notin> g_id ` set (d_gateways d))
                         (dfs False (\<lambda>n. n = current) adj [the continue_target] []))
      in (LoopStep current loop_body continue_target exit_target, exit_target))"

section \<open>The plan\<close>

text \<open>
  One round at node \<open>c\<close>, which is visited already: the steps it adds, the node to go on with,
  and what it visits besides.
\<close>

definition plan_round ::
  "workflow_def \<Rightarrow> (string, string list) dict \<Rightarrow> string list \<Rightarrow> string list \<Rightarrow> string
     \<Rightarrow> plan_step list \<times> string option \<times> string list \<times> string list" where
  "plan_round d adj visited order c =
     (case gateway_at ''parallel'' d c of
        Some pg \<Rightarrow>
          (let cid = g_converge_gateway_id pg;
               start = ParallelStep c (case cid of None \<Rightarrow> [] | Some x \<Rightarrow> x) # branch_steps d adj cid c;
               members = branch_members d adj cid c
           in if cid = None \<or> cid = Some [] then (start, None, members, [])
              else (start @ [ConvergeStep (the cid) c], first_succ adj (the cid), members @ [the cid], [the cid]))
      | None \<Rightarrow>
          (if gateway_at ''condition'' d c \<noteq> None then
             (let (step, next) = condition_step d adj visited order c in ([step], next, [], []))
           else if gateway_at ''loop'' d c \<noteq> None then
             (let (step, next) = loop_gateway_step d adj c in ([step], next, [], []))
           else if gateway_at ''converge'' d c \<noteq> None then ([], first_succ adj c, [], [])
           else (if is_node d c then [NodeStep c] else [], first_succ adj c, [], [])))"

lemma plan_round_next:
  assumes "plan_round d adj visited order c = (steps, next, extra, extra_order)"
  shows "set (here next) \<subseteq> nodes_of adj q"
proof -
  have t: "t \<in> nodes_of adj q" if "t \<in> set (succs adj n)" for t n
    using that succs_in_nodes [of adj n q] by blast
  have exit: "b_target b \<in> nodes_of adj q" if "find P (map (branch_at d c) (succs adj c)) = Some b" for P b
    using find_Some_first [OF that] t by (auto simp: branch_at_def)
  have cond: "set (here (snd (condition_step d adj visited order c))) \<subseteq> nodes_of adj q"
  proof (cases "back_branches d adj visited c = []")
    case True
    then show ?thesis using first_succ_nodes [of adj c q] by (simp add: condition_step_def Let_def)
  next
    case False
    let ?exit = "find (\<lambda>b. b_target b \<noteq> b_target (last (back_branches d adj visited c)))
      (map (branch_at d c) (succs adj c))"
    have "set (here (map_option b_target ?exit)) \<subseteq> nodes_of adj q"
      using exit by (cases ?exit) auto
    with False show ?thesis by (simp add: condition_step_def Let_def)
  qed
  have loop: "set (here (snd (loop_gateway_step d adj c))) \<subseteq> nodes_of adj q"
  proof (cases "last_target (is_default_target (d_edges d) c) (succs adj c)")
    case (Some x)
    then have "x \<in> set (succs adj c)" using find_Some_first by (fastforce simp: last_target_def)
    with Some t show ?thesis by (simp add: loop_gateway_step_def Let_def)
  qed (simp add: loop_gateway_step_def Let_def)
  show ?thesis
    using assms first_succ_nodes cond loop
    by (auto simp: plan_round_def Let_def split: option.splits if_splits prod.splits) (force+)?
qed

function plan_walk ::
  "workflow_def \<Rightarrow> (string, string list) dict \<Rightarrow> string option \<Rightarrow> string option \<Rightarrow> string list \<Rightarrow> string list
     \<Rightarrow> plan_step list" where
  "plan_walk d adj stop current visited order =
     (if walks_on current visited stop then
        (case plan_round d adj (visited @ [the current]) (order @ [the current]) (the current) of
           (steps, next, extra, extra_order) \<Rightarrow>
             steps @ plan_walk d adj stop next (visited @ [the current] @ extra) (order @ [the current] @ extra_order))
      else [])"
  by pat_completeness auto
termination
proof (relation "measure (\<lambda>(d, adj, stop, current, visited, order). unseen adj (here current) visited)", goal_cases)
  case (2 d adj stop current visited order steps r "next" r' extra extra_order)
  have round: "plan_round d adj (visited @ [the current]) (order @ [the current]) (the current) =
      (steps, next, extra, extra_order)" using 2(2-) by simp
  show ?case
    using walk_decreases [OF 2(1) plan_round_next [OF round], where visited' = "visited @ [the current] @ extra"] by auto
qed simp

declare plan_walk.simps [simp del]

definition start_candidates :: "(string, string list) dict \<Rightarrow> string list" where
  "start_candidates adj = filter (\<lambda>s. s \<notin> set (concat (map snd adj))) (dkeys adj)"

definition get_execution_plan ::
  "(string list \<Rightarrow> string list) \<Rightarrow> workflow_def \<Rightarrow> string option \<Rightarrow> string option \<Rightarrow> plan_step list" where
  "get_execution_plan ord d start stop =
     (if d_edges d = [] then
        map (\<lambda>n. NodeStep (n_id n))
          (filter (\<lambda>n. \<not> dunder (n_id n) \<and> (start = None \<or> start = Some (n_id n)) \<and> stop \<noteq> Some (n_id n)) (d_nodes d))
      else
        (let adj = adjacency (d_edges d);
             start_id = (if start \<noteq> None \<and> start \<noteq> Some [] then the start
                         else (case ord (start_candidates adj) of [] \<Rightarrow> start_node | s # _ \<Rightarrow> s))
         in if start = None \<and> start_id = start_node \<and> start_node \<notin> set (dkeys adj)
            then map (\<lambda>n. NodeStep (n_id n)) (filter (\<lambda>n. \<not> dunder (n_id n)) (d_nodes d))
            else if d_gateways d = [] then serial_walk d adj stop (Some start_id) []
            else plan_walk d adj stop (Some start_id) [] []))"

section \<open>The serial order\<close>

function order_walk :: "workflow_def \<Rightarrow> string option \<Rightarrow> string list \<Rightarrow> string list" where
  "order_walk d current visited =
     (if walks_on current visited None
      then the current # order_walk d (get_next_node_id d (the current)) (visited @ [the current])
      else [])"
  by pat_completeness auto

lemma next_first_succ: "get_next_node_id d n = first_succ (adjacency (d_edges d)) n"
proof -
  have "map_option e_target (find (\<lambda>e. e_source e = n) es) =
      (case map e_target (filter (\<lambda>e. e_source e = n) es) of [] \<Rightarrow> None | t # _ \<Rightarrow> Some t)" for es
    by (induction es) auto
  then show ?thesis by (simp add: get_next_node_id_def first_succ_def succs_adjacency)
qed

termination order_walk
proof (relation "measure (\<lambda>(d, current, visited). unseen (adjacency (d_edges d)) (here current) visited)", goal_cases)
  case (2 d current visited)
  show ?case
    using walk_decreases [OF 2 first_succ_nodes, where visited' = "visited @ [the current]"]
    by (simp add: next_first_succ)
qed simp

declare order_walk.simps [simp del]

fun step_nodes :: "plan_step \<Rightarrow> string list" where
  "step_nodes (NodeStep n) = [n]"
| "step_nodes (BranchStep ns _) = ns"
| "step_nodes (ConditionStep _ _ _ l) = (case l of None \<Rightarrow> [] | Some x \<Rightarrow> l_body x)"
| "step_nodes (LoopStep _ body _ _) = body"
| "step_nodes _ = []"

definition serial_execution_order :: "(string list \<Rightarrow> string list) \<Rightarrow> workflow_def \<Rightarrow> string list" where
  "serial_execution_order ord d =
     (if d_edges d = [] then map n_id (d_nodes d)
      else if d_gateways d \<noteq> [] then concat (map step_nodes (get_execution_plan ord d None None))
      else (case ord (start_candidates (adjacency (d_edges d))) of
              [] \<Rightarrow> map n_id (d_nodes d)
            | s # _ \<Rightarrow> order_walk d (Some s) []))"

section \<open>What every plan satisfies\<close>

text \<open>
  The identifiers the main line of a plan schedules, and the parallel gateways it closes: a converge
  gateway has a step for each parallel gateway paired with it.
\<close>

fun main_ids :: "plan_step \<Rightarrow> string list" where
  "main_ids (NodeStep n) = [n]"
| "main_ids (ParallelStep g _) = [g]"
| "main_ids (ConditionStep g _ _ _) = [g]"
| "main_ids (LoopStep g _ _ _) = [g]"
| "main_ids _ = []"

definition main_line :: "plan_step list \<Rightarrow> string list" where
  "main_line plan = concat (map main_ids plan)"

fun closed_ids :: "plan_step \<Rightarrow> string list" where
  "closed_ids (ConvergeStep c g) = [g]"
| "closed_ids _ = []"

definition closed_line :: "plan_step list \<Rightarrow> string list" where
  "closed_line plan = concat (map closed_ids plan)"

lemma closed_line_simps [simp]: "closed_line [] = []" "closed_line (p @ q) = closed_line p @ closed_line q"
  "closed_line (s # p) = closed_ids s @ closed_line p"
  by (simp_all add: closed_line_def)

lemma main_line_simps [simp]: "main_line [] = []" "main_line (p @ q) = main_line p @ main_line q"
  "main_line (s # p) = main_ids s @ main_line p"
  by (simp_all add: main_line_def)

text \<open>A step is sound: the nodes it runs exist, and a branch runs each of its nodes once.\<close>

fun step_sound :: "workflow_def \<Rightarrow> plan_step \<Rightarrow> bool" where
  "step_sound d (NodeStep n) = is_node d n"
| "step_sound d (BranchStep ns _) = (distinct ns \<and> list_all (is_node d) ns)"
| "step_sound d (ConditionStep _ _ _ l) = (case l of None \<Rightarrow> True | Some x \<Rightarrow> list_all (is_node d) (l_body x))"
| "step_sound d (LoopStep _ body _ _) = (distinct body \<and> list_all (is_node d) body)"
| "step_sound d _ = True"

definition fresh_line :: "workflow_def \<Rightarrow> string option \<Rightarrow> string list \<Rightarrow> plan_step list \<Rightarrow> bool" where
  "fresh_line d stop visited plan =
     (distinct (main_line plan) \<and> set (main_line plan) \<inter> set visited = {} \<and>
      (\<forall>n \<in> set (main_line plan). stop \<noteq> Some n) \<and> list_all (step_sound d) plan \<and>
      distinct (closed_line plan) \<and> set (closed_line plan) \<subseteq> set (main_line plan))"

lemma fresh_line_Nil [simp]: "fresh_line d stop visited []"
  by (simp add: fresh_line_def)











section \<open>Workflows that are one chain\<close>

lemma filter_zip_first:
  assumes "x \<notin> set pre" and "x \<notin> set ys"
  shows "map snd (filter (\<lambda>p. fst p = x) (zip (pre @ x # ys) (tl (pre @ x # ys)))) =
    (case ys of [] \<Rightarrow> [] | y # _ \<Rightarrow> [y])"
  using assms
proof (induction pre)
  case Nil
  then have "filter (\<lambda>p. fst p = x) (zip ys zs) = []" for zs
    by (auto simp: filter_empty_conv dest: set_zip_leftD)
  then show ?case by (cases ys) auto
next
  case (Cons a pre)
  then show ?case by (cases pre) auto
qed

text \<open>The edges are those of a path, in any order.\<close>

definition chain :: "workflow_edge list \<Rightarrow> string list \<Rightarrow> bool" where
  "chain es path = (distinct path \<and> [] \<notin> set path \<and> 2 \<le> length path \<and>
     set (map (\<lambda>e. (e_source e, e_target e)) es) = set (zip path (tl path)))"

lemma chain_succs:
  assumes "chain es (pre @ x # ys)"
  shows "set (succs (adjacency es) x) = set (case ys of [] \<Rightarrow> [] | y # _ \<Rightarrow> [y])"
proof -
  have "set (succs (adjacency es) x) = snd ` {p \<in> set (map (\<lambda>e. (e_source e, e_target e)) es). fst p = x}"
    by (force simp: succs_adjacency)
  also have "\<dots> = set (map snd (filter (\<lambda>p. fst p = x) (zip (pre @ x # ys) (tl (pre @ x # ys)))))"
    using assms by (simp add: chain_def)
  also have "\<dots> = set (case ys of [] \<Rightarrow> [] | y # _ \<Rightarrow> [y])"
    by (subst filter_zip_first) (use assms in \<open>auto simp: chain_def\<close>)
  finally show ?thesis .
qed

lemma chain_first_succ:
  assumes "chain es (pre @ x # ys)"
  shows "first_succ (adjacency es) x = (case ys of [] \<Rightarrow> None | y # _ \<Rightarrow> Some y)"
  using chain_succs [OF assms] by (cases "succs (adjacency es) x"; cases ys) (auto simp: first_succ_def)

lemma chain_walks_on: "chain es (pre @ x # ys) \<Longrightarrow> walks_on (Some x) pre None"
  by (auto simp: chain_def walks_on_def)

lemma serial_walk_chain:
  assumes "chain (d_edges d) (pre @ ys)"
  shows "serial_walk d (adjacency (d_edges d)) None (case ys of [] \<Rightarrow> None | y # _ \<Rightarrow> Some y) pre =
    map NodeStep (filter (is_node d) ys)"
  using assms
proof (induction ys arbitrary: pre)
  case Nil
  show ?case by (simp add: serial_walk.simps walks_on_def)
next
  case (Cons y ys)
  then show ?case
    using Cons.IH [of "pre @ [y]"] chain_walks_on [OF Cons.prems] chain_first_succ [OF Cons.prems]
    by (subst serial_walk.simps) simp
qed

lemma order_walk_chain:
  assumes "chain (d_edges d) (pre @ ys)"
  shows "order_walk d (case ys of [] \<Rightarrow> None | y # _ \<Rightarrow> Some y) pre = ys"
  using assms
proof (induction ys arbitrary: pre)
  case Nil
  show ?case by (simp add: order_walk.simps walks_on_def)
next
  case (Cons y ys)
  then show ?case
    using Cons.IH [of "pre @ [y]"] chain_walks_on [OF Cons.prems] chain_first_succ [OF Cons.prems]
    by (subst order_walk.simps) (simp add: next_first_succ)
qed

lemma keys_adjacency_acc:
  "dkeys (fold (\<lambda>e. add_edge (e_source e) (e_target e)) es adj) =
     dkeys adj @ filter (\<lambda>k. k \<notin> set (dkeys adj)) (rev (remdups (rev (map e_source es))))"
proof (induction es arbitrary: adj rule: rev_induct)
  case (snoc e es)
  then show ?case by (auto simp: add_edge_def dkeys_dput)
qed simp

lemma keys_adjacency: "dkeys (adjacency es) = rev (remdups (rev (map e_source es)))"
  by (simp add: adjacency_def keys_adjacency_acc)

lemma targets_adjacency_acc:
  "set (concat (map snd (fold (\<lambda>e. add_edge (e_source e) (e_target e)) es adj))) =
     set (concat (map snd adj)) \<union> e_target ` set es" if "distinct (dkeys adj)"
  using that
proof (induction es arbitrary: adj)
  case (Cons e es)
  have add: "distinct (dkeys a) \<Longrightarrow> set (concat (map snd (add_edge x y a))) = set (concat (map snd a)) \<union> {y}"
    for x y and a :: "(string, string list) dict"
    unfolding add_edge_def
  proof (induction a)
    case (Cons p a)
    then show ?case by (cases p) (auto simp: succs_def dgetd_def dest: map_of_SomeD split: option.splits)
  qed (simp add: succs_def dgetd_def)
  have "distinct (dkeys (add_edge (e_source e) (e_target e) adj))"
    using Cons.prems by (auto simp: add_edge_def)
  from Cons.IH [OF this] add [OF Cons.prems] show ?case by auto
qed simp

lemma start_candidates_iff:
  "set (start_candidates (adjacency es)) = e_source ` set es - e_target ` set es"
  using targets_adjacency_acc [of "[]" es] arg_cong [OF keys_adjacency [of es], of set]
  by (auto simp: start_candidates_def adjacency_def)

lemma chain_start:
  assumes "chain es (x # ys)" and "\<And>xs. set (ord xs) = set xs"
  shows "\<exists>rest. ord (start_candidates (adjacency es)) = x # rest"
proof -
  have m: "set (map (\<lambda>e. (e_source e, e_target e)) es) = set (zip (x # ys) ys)" using assms(1) by (simp add: chain_def)
  have "e_source ` set es = set (map fst (zip (x # ys) ys))" "e_target ` set es = set (map snd (zip (x # ys) ys))"
    using arg_cong [OF m, of "(`) fst"] arg_cong [OF m, of "(`) snd"] by (simp_all add: image_image)
  moreover have "map fst (zip (x # ys) ys) = butlast (x # ys)" "map snd (zip (x # ys) ys) = ys"
    by (simp_all add: map_fst_zip_take map_snd_zip_take butlast_conv_take min_def)
  ultimately have "e_source ` set es = set (butlast (x # ys))" "e_target ` set es = set ys"
    by simp_all
  moreover have "ys \<noteq> []" "x \<notin> set ys" using assms(1) by (auto simp: chain_def)
  ultimately have "set (ord (start_candidates (adjacency es))) = {x}"
    by (auto simp: assms(2) start_candidates_iff dest: in_set_butlastD)
  then show ?thesis by (cases "ord (start_candidates (adjacency es))") auto
qed

text \<open>
  C31. A workflow without gateways whose edges form one chain is planned node by node in the
  order of the chain, whatever the order in which the edges are listed and the iteration order of
  sets; the serial order is the chain itself.
\<close>

theorem chain_planned_in_order:
  assumes "chain (d_edges d) path" and "d_gateways d = []" and "\<And>xs. set (ord xs) = set xs"
  shows "get_execution_plan ord d None None = map NodeStep (filter (is_node d) path) \<and>
    serial_execution_order ord d = path"
proof -
  obtain x ys where path: "path = x # ys" using assms(1) by (cases path) (auto simp: chain_def)
  have c: "chain (d_edges d) ([] @ x # ys)" using assms(1) path by simp
  obtain rest where start: "ord (start_candidates (adjacency (d_edges d))) = x # rest"
    using chain_start [of "d_edges d" x ys ord] assms c by auto
  have ne: "d_edges d \<noteq> []" using assms(1) by (cases path) (auto simp: chain_def)
  have "x \<in> set (start_candidates (adjacency (d_edges d)))" using start assms(3) by (metis list.set_intros(1))
  then have "x \<in> fst ` set (adjacency (d_edges d))" by (auto simp: start_candidates_def)
  then have k: "x = start_node \<longrightarrow> start_node \<in> fst ` set (adjacency (d_edges d))" by blast
  show ?thesis
    using ne start assms(2) serial_walk_chain [OF c] order_walk_chain [OF c] path k
    by (cases "x = start_node") (simp_all add: get_execution_plan_def serial_execution_order_def Let_def)
qed

theorem chain_planned_in_order_witness:
  "\<exists>d. length (d_edges d) = 2 \<and> serial_execution_order rev d = [''a'', ''b'', ''c''] \<and>
     get_execution_plan rev d None None = map NodeStep (filter (is_node d) [''a'', ''b'', ''c''])"
proof -
  define d where "d = \<lparr>d_workflow_id = ''w'', d_name = [], d_version = 1, d_created_at = [], d_updated_at = [],
      d_nodes = [], d_edges = [\<lparr>e_id = ''e2'', e_source = ''b'', e_target = ''c'', e_condition = None\<rparr>,
        \<lparr>e_id = ''e1'', e_source = ''a'', e_target = ''b'', e_condition = None\<rparr>],
      d_variables = [], d_gateways = [], d_execution_schemes = [],
      d_http_execution_policy = ''public'', d_start_position = [], d_end_position = []\<rparr>"
  have c: "chain (d_edges d) [''a'', ''b'', ''c'']" "d_gateways d = []" "length (d_edges d) = 2"
    by (auto simp: d_def chain_def)
  show ?thesis
    using chain_planned_in_order [OF c(1,2), of rev] c(3) by auto
qed

end
