(* ===== verification/WorkflowValidate.thy ===== *)
theory WorkflowValidate
  imports ExecutionPlan
begin

text \<open>
  \<open>validate\<close> of \<open>src/workflow/definition.py\<close>, rule by rule, with the errors it lists as values
  of a datatype, and the path check of \<open>src/workflow/output_validation.py\<close> it calls. A rule
  that raises (the expression of a branch that is not a text) makes the result \<open>None\<close>.
\<close>

section \<open>Paths of JSON fields\<close>

definition max_json_field_min_chars :: int where
  "max_json_field_min_chars = 10000000"

definition path_ident :: "string \<Rightarrow> bool" where
  "path_ident s =
     (case s of
        [] \<Rightarrow> False
      | c # cs \<Rightarrow> (ascii_letter c \<or> c = CHR ''_'') \<and>
          list_all (\<lambda>x. ascii_letter x \<or> ascii_digit x \<or> x = CHR ''_'' \<or> x = CHR ''-'') cs)"

definition path_index :: "string \<Rightarrow> bool" where
  "path_index s = (s \<noteq> [] \<and> list_all ascii_digit s)"

definition is_valid_json_field_path :: "string \<Rightarrow> bool" where
  "is_valid_json_field_path path =
     (case split_on CHR ''.'' (strip path) of
        [] \<Rightarrow> False
      | s # ss \<Rightarrow> path_ident s \<and> list_all (\<lambda>t. path_ident t \<or> path_index t) ss)"

section \<open>Errors\<close>

datatype validation_error =
    BadHttpPolicy
  | BadRetryCount string
  | BadRetryInterval string
  | NotAgentOutput string
  | NonEmptyNotBool string
  | RetryEmptyNotBool string
  | RetryNeedsNonEmpty string
  | JsonPairIncomplete string
  | JsonPathInvalid string
  | JsonMinimumInvalid string
  | NoSubWorkflow string
  | NoEdges
  | ParallelFewBranches string
  | ParallelToConverge string
  | ConvergeFewIn string
  | ConvergeOut string nat
  | NestedParallel string
  | ConditionNoIn string
  | ConditionFewOut string
  | ConditionNoDefault string
  | ConditionEmpty string pyval
  | LoopNoIn string
  | LoopOut string nat
  | LoopNoDefault string
  | NestedLoop string string
  | IdOverlap "string list"
  | ManyOut string nat
  | Orphans "string list"
  | StartUnconnected
  | EndUnconnected
  | PathBroken
  | Unreachable string

definition report :: "bool \<Rightarrow> 'a \<Rightarrow> 'a list" where
  "report b x = (if b then [x] else [])"

lemma report_Nil_iff [simp]: "report b x = [] \<longleftrightarrow> \<not> b"
  by (cases b) (simp_all add: report_def)

lemma set_report [simp]: "set (report b x) = (if b then {x} else {})"
  by (cases b) (simp_all add: report_def)

section \<open>Nodes\<close>

definition agent_nodes :: "workflow_def \<Rightarrow> workflow_node list" where
  "agent_nodes d = filter (\<lambda>n. \<not> dunder (n_id n)) (d_nodes d)"

definition node_label :: "workflow_node \<Rightarrow> string" where
  "node_label n = (if n_label n \<noteq> [] then n_label n else n_id n)"

definition output_errors :: "workflow_node \<Rightarrow> validation_error list" where
  "output_errors n =
     (let l = node_label n;
          non_empty = n_require_non_empty_output n;
          retry = n_retry_empty_output_in_session n;
          minimum = n_json_output_field_min_chars n;
          path = (case n_json_output_field n of PStr s \<Rightarrow> s | _ \<Rightarrow> []);
          has_json_field = (strip path \<noteq> []);
          has_json_minimum = (\<not> eq_int minimum 0)
      in report (as_bool non_empty = None) (NonEmptyNotBool l)
         @ (if as_bool retry = None then [RetryEmptyNotBool l]
            else report (truthy retry \<and> non_empty \<noteq> PBool True) (RetryNeedsNonEmpty l))
         @ report (has_json_field \<noteq> has_json_minimum) (JsonPairIncomplete l)
         @ report (has_json_field \<and> \<not> is_valid_json_field_path path) (JsonPathInvalid l)
         @ report (has_json_minimum \<and> \<not> is_integer_in_range minimum 1 max_json_field_min_chars) (JsonMinimumInvalid l))"

definition node_errors :: "workflow_node \<Rightarrow> validation_error list" where
  "node_errors n =
     (let l = node_label n
      in report (\<not> is_integer_in_range (n_auto_retry_count n) 0 max_auto_retry_count) (BadRetryCount l)
         @ report (\<not> is_integer_in_range (n_auto_retry_interval_seconds n) 0 max_auto_retry_interval_seconds)
             (BadRetryInterval l)
         @ (if n_type n \<noteq> ''agent'' \<and>
               (truthy (n_require_non_empty_output n) \<or> truthy (n_retry_empty_output_in_session n) \<or>
                truthy (n_json_output_field n) \<or> truthy (n_json_output_field_min_chars n))
            then [NotAgentOutput l] else output_errors n))"

definition settings_errors :: "workflow_def \<Rightarrow> validation_error list" where
  "settings_errors d =
     report (d_http_execution_policy d \<notin> {''public'', ''internal_only''}) BadHttpPolicy
     @ concat (map node_errors (agent_nodes d))"

definition subprocess_errors :: "workflow_def \<Rightarrow> validation_error list" where
  "subprocess_errors d = concat (map (\<lambda>n.
     report (n_type n = ''subprocess'' \<and> (n_sub_workflow_id n = None \<or> n_sub_workflow_id n = Some []))
       (NoSubWorkflow (node_label n))) (d_nodes d))"

section \<open>Gateways\<close>

definition parallel_errors :: "workflow_def \<Rightarrow> (string, string list) dict \<Rightarrow> validation_error list" where
  "parallel_errors d adj = concat (map (\<lambda>pg.
     if length (succs adj (g_id pg)) < 2 then [ParallelFewBranches (label_or_id pg)]
     else concat (map (\<lambda>t. report (t \<in> g_id ` set (gateways_of ''converge'' d)) (ParallelToConverge (label_or_id pg)))
            (succs adj (g_id pg)))) (gateways_of ''parallel'' d))"

definition converge_errors ::
  "workflow_def \<Rightarrow> (string, string list) dict \<Rightarrow> (string, string list) dict \<Rightarrow> validation_error list" where
  "converge_errors d adj rev_adj = concat (map (\<lambda>cg.
     report (length (succs rev_adj (g_id cg)) < 2) (ConvergeFewIn (label_or_id cg))
     @ report (length (succs adj (g_id cg)) \<noteq> 1) (ConvergeOut (label_or_id cg) (length (succs adj (g_id cg)))))
     (gateways_of ''converge'' d))"

text \<open>The search of one branch, left at the first parallel gateway.\<close>

function dfs_any :: "('a \<Rightarrow> bool) \<Rightarrow> ('a \<Rightarrow> bool) \<Rightarrow> ('a, 'a list) dict \<Rightarrow> 'a list \<Rightarrow> 'a list \<Rightarrow> bool" where
  "dfs_any P stop adj [] visited = False"
| "dfs_any P stop adj (cur # stack) visited =
     (if cur \<in> set visited \<or> stop cur then dfs_any P stop adj stack visited
      else if P cur then True
      else dfs_any P stop adj (stacked True stop adj cur @ stack) (visited @ [cur]))"
  by pat_completeness auto
termination
proof (relation "inv_image (less_than <*lex*> less_than) (\<lambda>(_, _, adj, q, V). (unseen adj q V, length q))", goal_cases)
  case (2 P stop adj cur stack visited)
  show ?case using search_order_skip [of stack "cur # stack" visited adj] by (auto simp: search_order_def)
next
  case (3 P stop adj cur stack visited)
  then show ?case
    using unseen_visit [OF dfs_visit_nodes [of True stop adj cur stack], of cur visited]
    by (simp add: nodes_of_def)
qed (simp add: wf_inv_image wf_lex_prod)

declare dfs_any.simps [simp del]

definition nested_branch_errors ::
  "workflow_def \<Rightarrow> (string, string list) dict \<Rightarrow> workflow_gateway \<Rightarrow> validation_error list" where
  "nested_branch_errors d adj pg =
     (if g_converge_gateway_id pg = None \<or> g_converge_gateway_id pg = Some [] then []
      else concat (map (\<lambda>t.
        report (dfs_any (\<lambda>n. n \<in> g_id ` set (gateways_of ''parallel'' d))
                  (\<lambda>n. Some n = g_converge_gateway_id pg \<or> n \<in> g_id ` set (gateways_of ''converge'' d)) adj [t] [])
          (NestedParallel (label_or_id pg))) (succs adj (g_id pg))))"

definition nested_errors :: "workflow_def \<Rightarrow> (string, string list) dict \<Rightarrow> validation_error list" where
  "nested_errors d adj =
     (if gateways_of ''parallel'' d = [] \<or> gateways_of ''converge'' d = [] then []
      else concat (map (nested_branch_errors d adj) (gateways_of ''parallel'' d)))"

definition out_edges :: "workflow_def \<Rightarrow> string \<Rightarrow> workflow_edge list" where
  "out_edges d g = filter (\<lambda>e. e_source e = g) (d_edges d)"

text \<open>The expression of a branch that is not the default one; one that is no text raises.\<close>

definition expression_errors :: "string \<Rightarrow> workflow_edge \<Rightarrow> validation_error list option" where
  "expression_errors l e =
     (case e_condition e of
        None \<Rightarrow> Some []
      | Some c \<Rightarrow>
          (if c = [] \<or> truthy (dgetd c ''is_default'' PNone) then Some []
           else map_option (\<lambda>expr. report (strip expr = []) (ConditionEmpty l (dgetd c ''label'' (PStr []))))
                  (as_str (dgetd c ''expression'' (PStr [])))))"

definition concat_opt :: "'a list option list \<Rightarrow> 'a list option" where
  "concat_opt xs = map_option concat (map_opt id xs)"

lemma concat_opt_Cons:
  "concat_opt (a # xs) = Some ys \<longleftrightarrow> (\<exists>zs ws. a = Some zs \<and> concat_opt xs = Some ws \<and> ys = zs @ ws)"
  by (cases a; cases "map_opt id xs") (auto simp: concat_opt_def)

lemma concat_opt_Some: "concat_opt xs = Some ys \<Longrightarrow> x \<in> set xs \<Longrightarrow> \<exists>zs. x = Some zs \<and> set zs \<subseteq> set ys"
proof (induction xs arbitrary: ys)
  case (Cons a xs)
  then obtain zs ws where "a = Some zs" "concat_opt xs = Some ws" "ys = zs @ ws"
    by (auto simp: concat_opt_Cons)
  with Cons show ?case by fastforce
qed simp

definition condition_errors ::
  "workflow_def \<Rightarrow> (string, string list) dict \<Rightarrow> (string, string list) dict \<Rightarrow> validation_error list option" where
  "condition_errors d adj rev_adj = concat_opt (map (\<lambda>cg.
     map_option (\<lambda>es.
       report (length (succs rev_adj (g_id cg)) < 1) (ConditionNoIn (label_or_id cg))
       @ report (length (succs adj (g_id cg)) < 2) (ConditionFewOut (label_or_id cg))
       @ report (\<not> list_ex is_default_edge (out_edges d (g_id cg))) (ConditionNoDefault (label_or_id cg))
       @ es)
     (concat_opt (map (expression_errors (label_or_id cg)) (out_edges d (g_id cg)))))
     (gateways_of ''condition'' d))"

definition loop_errors ::
  "workflow_def \<Rightarrow> (string, string list) dict \<Rightarrow> (string, string list) dict \<Rightarrow> validation_error list" where
  "loop_errors d adj rev_adj = concat (map (\<lambda>lg.
     report (length (succs rev_adj (g_id lg)) < 1) (LoopNoIn (label_or_id lg))
     @ report (length (succs adj (g_id lg)) \<noteq> 2) (LoopOut (label_or_id lg) (length (succs adj (g_id lg))))
     @ report (\<not> list_ex is_default_edge (out_edges d (g_id lg))) (LoopNoDefault (label_or_id lg))
     @ concat (map (\<lambda>n. report (n \<in> g_id ` set (gateways_of ''loop'' d)) (NestedLoop (label_or_id lg) n))
         (compute_loop_body_node_ids d (g_id lg) adj)))
     (gateways_of ''loop'' d))"

section \<open>Connections\<close>

definition agent_ids :: "workflow_def \<Rightarrow> string list" where
  "agent_ids d = remdups (map n_id (agent_nodes d))"

definition gateway_ids :: "workflow_def \<Rightarrow> string set" where
  "gateway_ids d = g_id ` set (d_gateways d)"

definition overlap_errors :: "workflow_def \<Rightarrow> validation_error list" where
  "overlap_errors d =
     (let overlap = sort (filter (\<lambda>n. n \<in> gateway_ids d) (agent_ids d)) in report (overlap \<noteq> []) (IdOverlap overlap))"

definition many_out_errors ::
  "(string list \<Rightarrow> string list) \<Rightarrow> workflow_def \<Rightarrow> (string, string list) dict \<Rightarrow> validation_error list" where
  "many_out_errors ord d adj = concat (map (\<lambda>n.
     report (n \<notin> gateway_ids d \<and> 1 < length (succs adj n))
       (ManyOut (case get_node d n of None \<Rightarrow> n | Some x \<Rightarrow> n_label x) (length (succs adj n))))
     (ord (agent_ids d)))"

definition edge_node_ids :: "workflow_def \<Rightarrow> string set" where
  "edge_node_ids d = e_source ` set (d_edges d) \<union> e_target ` set (d_edges d) \<union> gateway_ids d"

definition orphan_errors :: "workflow_def \<Rightarrow> validation_error list" where
  "orphan_errors d =
     (let orphaned = sort (filter (\<lambda>n. n \<notin> edge_node_ids d) (agent_ids d)) in report (orphaned \<noteq> []) (Orphans orphaned))"

definition path_errors ::
  "(string list \<Rightarrow> string list) \<Rightarrow> workflow_def \<Rightarrow> (string, string list) dict \<Rightarrow> validation_error list" where
  "path_errors ord d adj =
     (let start_has_out = list_ex (\<lambda>e. e_source e = start_node) (d_edges d);
          end_has_in = list_ex (\<lambda>e. e_target e = end_node) (d_edges d);
          visited_start = dfs True never adj [start_node] []
      in report (\<not> start_has_out) StartUnconnected
         @ report (\<not> end_has_in) EndUnconnected
         @ (if start_has_out \<and> end_has_in
            then report (end_node \<notin> set visited_start) PathBroken
              @ concat (map (\<lambda>n. report (n \<notin> set visited_start) (Unreachable n))
                  (ord (filter (\<lambda>n. n \<in> edge_node_ids d) (agent_ids d))))
            else []))"

definition validate :: "(string list \<Rightarrow> string list) \<Rightarrow> workflow_def \<Rightarrow> validation_error list option" where
  "validate ord d =
     (let errors = settings_errors d;
          errors' = errors @ subprocess_errors d;
          adj = adjacency (d_edges d); rev_adj = rev_adjacency (d_edges d)
      in if agent_nodes d = [] then Some errors
         else if errors' \<noteq> [] then Some errors'
         else if d_edges d = [] then Some [NoEdges]
         else map_option (\<lambda>cond.
           parallel_errors d adj @ converge_errors d adj rev_adj @ nested_errors d adj @ cond
           @ loop_errors d adj rev_adj @ overlap_errors d @ many_out_errors ord d adj @ orphan_errors d
           @ path_errors ord d adj) (condition_errors d adj rev_adj))"

section \<open>What validation guarantees\<close>

lemma nested_loop_never: "NestedLoop a b \<notin> set (loop_errors d adj rev_adj)"
  by (auto simp: loop_errors_def gateways_of_def split: if_split_asm dest!: loop_body_no_gateway)

lemma dfs_any_found:
  "dfs_any P stop adj st V = list_ex P (drop (length V) (dfs True stop adj st V))"
proof (induction P stop adj st V rule: dfs_any.induct)
  case (2 P stop adj cur stack visited)
  show ?case
  proof (cases "cur \<in> set visited \<or> stop cur")
    case False
    obtain W where W: "dfs True stop adj (stacked True stop adj cur @ stack) (visited @ [cur]) = (visited @ [cur]) @ W"
      using dfs.run_keeps by blast
    with 2(2) [OF False] False show ?thesis by (simp add: dfs.simps dfs_any.simps)
  qed (simp add: 2 dfs.simps dfs_any.simps)
qed (simp add: dfs.simps dfs_any.simps)

lemma dfs_any_reach: "dfs_any P stop adj [t] [] \<longleftrightarrow> (\<exists>x. reach (succs adj) stop {t} x \<and> P x)"
  using dfs.run_reach [of True stop adj "[t]"] by (auto simp: dfs_any_found list_ex_iff)

lemma validate_accepts:
  assumes "validate ord d = Some []" and "agent_nodes d \<noteq> []"
  shows "settings_errors d = []" "subprocess_errors d = []"
    and "parallel_errors d (adjacency (d_edges d)) = []"
    and "converge_errors d (adjacency (d_edges d)) (rev_adjacency (d_edges d)) = []"
    and "nested_errors d (adjacency (d_edges d)) = []"
    and "condition_errors d (adjacency (d_edges d)) (rev_adjacency (d_edges d)) = Some []"
    and "loop_errors d (adjacency (d_edges d)) (rev_adjacency (d_edges d)) = []"
    and "overlap_errors d = []" "many_out_errors ord d (adjacency (d_edges d)) = []"
    and "orphan_errors d = []" "path_errors ord d (adjacency (d_edges d)) = []"
proof -
  let ?adj = "adjacency (d_edges d)" and ?rev = "rev_adjacency (d_edges d)"
  have e: "settings_errors d @ subprocess_errors d = []"
    using assms unfolding validate_def Let_def by (metis option.inject)
  have ne: "d_edges d \<noteq> []"
    using assms e unfolding validate_def Let_def by (metis list.distinct(1) option.inject)
  from e have "map_option (\<lambda>cond. parallel_errors d ?adj @ converge_errors d ?adj ?rev @ nested_errors d ?adj @ cond
      @ loop_errors d ?adj ?rev @ overlap_errors d @ many_out_errors ord d ?adj @ orphan_errors d
      @ path_errors ord d ?adj) (condition_errors d ?adj ?rev) = Some []"
    using assms ne unfolding validate_def Let_def by (simp only: if_False simp_thms)
  then obtain cond where "condition_errors d ?adj ?rev = Some cond"
    and "parallel_errors d ?adj @ converge_errors d ?adj ?rev @ nested_errors d ?adj @ cond
      @ loop_errors d ?adj ?rev @ overlap_errors d @ many_out_errors ord d ?adj @ orphan_errors d
      @ path_errors ord d ?adj = []" by blast
  with e show "settings_errors d = []" "subprocess_errors d = []" "parallel_errors d ?adj = []"
    "converge_errors d ?adj ?rev = []" "nested_errors d ?adj = []" "condition_errors d ?adj ?rev = Some []"
    "loop_errors d ?adj ?rev = []" "overlap_errors d = []" "many_out_errors ord d ?adj = []"
    "orphan_errors d = []" "path_errors ord d ?adj = []"
    by (simp_all only: append_is_Nil_conv simp_thms)
qed

lemma error_sets:
  "NestedLoop a b \<notin> set (settings_errors d)" "NestedLoop a b \<notin> set (subprocess_errors d)"
  "NestedLoop a b \<notin> set (parallel_errors d adj)" "NestedLoop a b \<notin> set (converge_errors d adj rev_adj)"
  "NestedLoop a b \<notin> set (nested_errors d adj)" "NestedLoop a b \<notin> set (overlap_errors d)"
  "NestedLoop a b \<notin> set (many_out_errors ord d adj)" "NestedLoop a b \<notin> set (orphan_errors d)"
  "NestedLoop a b \<notin> set (path_errors ord d adj)"
  by (auto simp: settings_errors_def node_errors_def output_errors_def subprocess_errors_def parallel_errors_def
      converge_errors_def nested_errors_def nested_branch_errors_def overlap_errors_def many_out_errors_def orphan_errors_def
      path_errors_def Let_def split: if_split_asm)

lemma condition_no_nested:
  assumes "condition_errors d adj rev_adj = Some es"
  shows "NestedLoop a b \<notin> set es"
proof -
  have expr: "expression_errors l e = Some zs \<Longrightarrow> NestedLoop a b \<notin> set zs" for l e zs
    by (auto simp: expression_errors_def split: option.splits if_split_asm)
  have concat: "concat_opt xs = Some ys \<Longrightarrow> (\<And>x zs. x \<in> set xs \<Longrightarrow> x = Some zs \<Longrightarrow> NestedLoop a b \<notin> set zs)
      \<Longrightarrow> NestedLoop a b \<notin> set ys" for xs ys
    by (induction xs arbitrary: ys) (auto simp: concat_opt_Cons, simp add: concat_opt_def)
  have branch: "concat_opt (map (expression_errors l) es) = Some zs \<Longrightarrow> NestedLoop a b \<notin> set zs" for l es zs
    by (erule concat) (use expr in fastforce)
  show ?thesis
    using assms unfolding condition_errors_def
  proof (rule concat)
    fix x zs
    assume "x \<in> set (map (\<lambda>cg. map_option (\<lambda>es.
       report (length (succs rev_adj (g_id cg)) < 1) (ConditionNoIn (label_or_id cg))
       @ report (length (succs adj (g_id cg)) < 2) (ConditionFewOut (label_or_id cg))
       @ report (\<not> list_ex is_default_edge (out_edges d (g_id cg))) (ConditionNoDefault (label_or_id cg))
       @ es) (concat_opt (map (expression_errors (label_or_id cg)) (out_edges d (g_id cg)))))
       (gateways_of ''condition'' d))" and "x = Some zs"
    then obtain cg es where "concat_opt (map (expression_errors (label_or_id cg)) (out_edges d (g_id cg))) = Some es"
      and zs: "zs = report (length (succs rev_adj (g_id cg)) < 1) (ConditionNoIn (label_or_id cg))
       @ report (length (succs adj (g_id cg)) < 2) (ConditionFewOut (label_or_id cg))
       @ report (\<not> list_ex is_default_edge (out_edges d (g_id cg))) (ConditionNoDefault (label_or_id cg)) @ es"
      by (auto simp: map_option_case split: option.split_asm)
    from branch [OF this(1)] show "NestedLoop a b \<notin> set zs"
      unfolding zs by (simp split: if_split)
  qed
qed

text \<open>
  No workflow is ever reported to nest a loop in a loop: the nodes of a loop body exclude
  all gateways, so the check whether one of them is a loop gateway never fires.
\<close>

theorem nested_loops_never_reported:
  "\<forall>a b. case validate ord d of None \<Rightarrow> True | Some errors \<Rightarrow> NestedLoop a b \<notin> set errors"
proof (intro allI)
  fix a b
  show "case validate ord d of None \<Rightarrow> True | Some errors \<Rightarrow> NestedLoop a b \<notin> set errors"
    using condition_no_nested [of d "adjacency (d_edges d)" "rev_adjacency (d_edges d)" _ a b]
    by (auto simp: validate_def Let_def error_sets nested_loop_never split: option.splits)
qed

definition in_degree :: "workflow_def \<Rightarrow> string \<Rightarrow> nat" where
  "in_degree d n = length (filter (\<lambda>e. e_target e = n) (d_edges d))"

lemma degrees: "length (succs (adjacency (d_edges d)) n) = out_degree d n"
  "length (succs (rev_adjacency (d_edges d)) n) = in_degree d n"
  by (simp_all add: out_degree_def in_degree_def succs_adjacency succs_rev_adjacency)

definition retry_settings_ok :: "workflow_node \<Rightarrow> bool" where
  "retry_settings_ok n = (is_integer_in_range (n_auto_retry_count n) 0 20 \<and>
     is_integer_in_range (n_auto_retry_interval_seconds n) 0 86400)"

definition has_default :: "workflow_def \<Rightarrow> string \<Rightarrow> bool" where
  "has_default d g = (\<exists>e \<in> set (d_edges d). e_source e = g \<and> is_default_edge e)"

text \<open>What each rule guarantees when it reports nothing.\<close>

lemma settings_ok: "settings_errors d = [] \<Longrightarrow> n \<in> set (agent_nodes d) \<Longrightarrow> retry_settings_ok n"
  by (auto simp: settings_errors_def node_errors_def retry_settings_ok_def Let_def max_auto_retry_count_def
      max_auto_retry_interval_seconds_def)

lemma concat_map_NilD: "concat (map f xs) = [] \<Longrightarrow> x \<in> set xs \<Longrightarrow> f x = []"
  by simp

lemma parallel_ok:
  "parallel_errors d (adjacency (d_edges d)) = [] \<Longrightarrow> g \<in> set (gateways_of ''parallel'' d) \<Longrightarrow> 2 \<le> out_degree d (g_id g)"
  unfolding parallel_errors_def by (drule (1) concat_map_NilD) (simp add: degrees split: if_split_asm)

lemma converge_ok:
  "converge_errors d (adjacency (d_edges d)) (rev_adjacency (d_edges d)) = [] \<Longrightarrow> g \<in> set (gateways_of ''converge'' d)
    \<Longrightarrow> out_degree d (g_id g) = 1 \<and> 2 \<le> in_degree d (g_id g)"
  by (auto simp: converge_errors_def degrees not_less)

lemma condition_ok:
  assumes "condition_errors d (adjacency (d_edges d)) (rev_adjacency (d_edges d)) = Some []"
    and "g \<in> set (gateways_of ''condition'' d)"
  shows "2 \<le> out_degree d (g_id g) \<and> 1 \<le> in_degree d (g_id g) \<and> has_default d (g_id g)"
proof -
  have "\<exists>zs. map_option (\<lambda>es.
       report (length (succs (rev_adjacency (d_edges d)) (g_id g)) < 1) (ConditionNoIn (label_or_id g))
       @ report (length (succs (adjacency (d_edges d)) (g_id g)) < 2) (ConditionFewOut (label_or_id g))
       @ report (\<not> list_ex is_default_edge (out_edges d (g_id g))) (ConditionNoDefault (label_or_id g))
       @ es) (concat_opt (map (expression_errors (label_or_id g)) (out_edges d (g_id g)))) = Some zs \<and> set zs \<subseteq> set []"
    by (rule concat_opt_Some [OF assms(1) [unfolded condition_errors_def]]) (use assms(2) in simp)
  then show ?thesis
    by (auto simp: degrees has_default_def out_edges_def list_ex_iff not_less)
qed

lemma loop_ok_gateway:
  "loop_errors d (adjacency (d_edges d)) (rev_adjacency (d_edges d)) = [] \<Longrightarrow> g \<in> set (gateways_of ''loop'' d)
    \<Longrightarrow> out_degree d (g_id g) = 2 \<and> 1 \<le> in_degree d (g_id g) \<and> has_default d (g_id g)"
  by (auto simp: loop_errors_def degrees has_default_def out_edges_def list_ex_iff Suc_le_eq)

lemma overlap_ok: "overlap_errors d = [] \<Longrightarrow> n \<in> set (agent_nodes d) \<Longrightarrow> n_id n \<notin> gateway_ids d"
  by (auto simp: overlap_errors_def Let_def agent_ids_def filter_empty_conv dest: arg_cong [of _ _ set])

lemma many_out_ok:
  assumes "many_out_errors ord d (adjacency (d_edges d)) = []" and "n \<in> set (agent_nodes d)"
    and "n_id n \<notin> gateway_ids d" and "\<And>xs. set (ord xs) = set xs"
  shows "out_degree d (n_id n) \<le> 1"
proof -
  have "n_id n \<in> set (ord (agent_ids d))" using assms(2,4) by (simp add: agent_ids_def)
  with assms(1,3) show ?thesis by (auto simp: many_out_errors_def degrees not_less)
qed

lemma path_ok:
  assumes "orphan_errors d = []" and "path_errors ord d (adjacency (d_edges d)) = []" and "\<And>xs. set (ord xs) = set xs"
  shows "(start_node, end_node) \<in> (edge_rel (d_edges d))\<^sup>*"
    and "n \<in> set (agent_nodes d) \<Longrightarrow> (start_node, n_id n) \<in> (edge_rel (d_edges d))\<^sup>*"
proof -
  have both: "list_ex (\<lambda>e. e_source e = start_node) (d_edges d)" "list_ex (\<lambda>e. e_target e = end_node) (d_edges d)"
    using assms(2) by (auto simp: path_errors_def Let_def)
  with assms(2) show "(start_node, end_node) \<in> (edge_rel (d_edges d))\<^sup>*"
    by (simp add: path_errors_def Let_def dfs_rtrancl)
  assume n: "n \<in> set (agent_nodes d)"
  then have "n_id n \<in> edge_node_ids d"
    using assms(1) by (auto simp: orphan_errors_def Let_def agent_ids_def filter_empty_conv dest: arg_cong [of _ _ set])
  with n have "n_id n \<in> set (ord (filter (\<lambda>n. n \<in> edge_node_ids d) (agent_ids d)))"
    by (simp add: assms(3) agent_ids_def)
  with assms(2) both show "(start_node, n_id n) \<in> (edge_rel (d_edges d))\<^sup>*"
    by (auto simp: path_errors_def Let_def dfs_rtrancl)
qed

text \<open>
  C4. A workflow with nodes that passes validation is connected from start to end and every
  node is on a path from the start, has one way out at most, is no gateway and has its retry
  settings in range; every gateway has the edges its kind needs.
\<close>

theorem accepted_workflow_sound:
  assumes "validate ord d = Some []" and "agent_nodes d \<noteq> []" and "\<And>xs. set (ord xs) = set xs"
  shows "(start_node, end_node) \<in> (edge_rel (d_edges d))\<^sup>* \<and>
    (\<forall>n \<in> set (agent_nodes d). (start_node, n_id n) \<in> (edge_rel (d_edges d))\<^sup>* \<and> out_degree d (n_id n) \<le> 1 \<and>
       n_id n \<notin> gateway_ids d \<and> retry_settings_ok n) \<and>
    (\<forall>g \<in> set (gateways_of ''parallel'' d). 2 \<le> out_degree d (g_id g)) \<and>
    (\<forall>g \<in> set (gateways_of ''converge'' d). out_degree d (g_id g) = 1 \<and> 2 \<le> in_degree d (g_id g)) \<and>
    (\<forall>g \<in> set (gateways_of ''condition'' d). 2 \<le> out_degree d (g_id g) \<and> 1 \<le> in_degree d (g_id g) \<and> has_default d (g_id g)) \<and>
    (\<forall>g \<in> set (gateways_of ''loop'' d). out_degree d (g_id g) = 2 \<and> 1 \<le> in_degree d (g_id g) \<and> has_default d (g_id g))"
proof -
  note v = validate_accepts [OF assms(1,2)]
  have agents: "(start_node, n_id n) \<in> (edge_rel (d_edges d))\<^sup>* \<and> out_degree d (n_id n) \<le> 1 \<and>
       n_id n \<notin> gateway_ids d \<and> retry_settings_ok n" if "n \<in> set (agent_nodes d)" for n
    using path_ok(2) [OF v(10,11) assms(3) that] overlap_ok [OF v(8) that]
      many_out_ok [OF v(9) that overlap_ok [OF v(8) that] assms(3)] settings_ok [OF v(1) that] by blast
  show ?thesis
    using path_ok(1) [OF v(10,11) assms(3)] agents parallel_ok [OF v(3)] converge_ok [OF v(4)]
      condition_ok [OF v(6)] loop_ok_gateway [OF v(7)] by blast
qed

text \<open>A workflow with two branches between a parallel and a converge gateway, for the witnesses.\<close>

definition edge_of :: "string \<Rightarrow> string \<Rightarrow> workflow_edge" where
  "edge_of a b = \<lparr>e_id = a @ b, e_source = a, e_target = b, e_condition = None\<rparr>"

definition fork_join :: workflow_def where
  "fork_join = new_def ''w'' ''now'' [new_node ''a'', new_node ''b'']
     [edge_of ''__start__'' ''fork'', edge_of ''fork'' ''a'', edge_of ''fork'' ''b'', edge_of ''a'' ''join'',
      edge_of ''b'' ''join'', edge_of ''join'' ''__end__'']
     [\<lparr>g_id = ''fork'', g_type = ''parallel'', g_label = [], g_position = [], g_converge_gateway_id = Some ''join''\<rparr>,
      \<lparr>g_id = ''join'', g_type = ''converge'', g_label = [], g_position = [], g_converge_gateway_id = None\<rparr>]"

lemma fork_join_fields:
  "d_nodes fork_join = [new_node ''a'', new_node ''b'']"
  "d_gateways fork_join =
     [\<lparr>g_id = ''fork'', g_type = ''parallel'', g_label = [], g_position = [], g_converge_gateway_id = Some ''join''\<rparr>,
      \<lparr>g_id = ''join'', g_type = ''converge'', g_label = [], g_position = [], g_converge_gateway_id = None\<rparr>]"
  "d_http_execution_policy fork_join = ''public''"
  by (simp_all add: fork_join_def new_def_def)

lemma fork_join_edges:
  "d_edges fork_join = [edge_of ''__start__'' ''fork'', edge_of ''fork'' ''a'', edge_of ''fork'' ''b'',
     edge_of ''a'' ''join'', edge_of ''b'' ''join'', edge_of ''join'' ''__end__'']"
  by (simp add: fork_join_def new_def_def)

lemma edge_of_simps [simp]: "e_source (edge_of a b) = a" "e_target (edge_of a b) = b" "e_condition (edge_of a b) = None"
  by (simp_all add: edge_of_def)

lemma fork_join_agents: "agent_nodes fork_join = [new_node ''a'', new_node ''b'']"
  by (simp add: agent_nodes_def fork_join_fields new_node_def dunder_def starts_with_def)

lemma fork_join_gateways:
  "gateways_of ''parallel'' fork_join = [d_gateways fork_join ! 0]"
  "gateways_of ''converge'' fork_join = [d_gateways fork_join ! 1]"
  "gateways_of ''condition'' fork_join = []" "gateways_of ''loop'' fork_join = []"
  by (simp_all add: gateways_of_def fork_join_fields)

lemma fork_join_succs:
  "succs (adjacency (d_edges fork_join)) n =
     (if n = ''__start__'' then [''fork''] else if n = ''fork'' then [''a'', ''b'']
      else if n = ''a'' \<or> n = ''b'' then [''join''] else if n = ''join'' then [''__end__''] else [])"
  "succs (rev_adjacency (d_edges fork_join)) n =
     (if n = ''fork'' then [''__start__''] else if n = ''a'' \<or> n = ''b'' then [''fork'']
      else if n = ''join'' then [''a'', ''b''] else if n = ''__end__'' then [''join''] else [])"
  by (auto simp: succs_adjacency succs_rev_adjacency fork_join_edges)

lemma fork_join_accepted: "validate id fork_join = Some []"
proof -
  let ?adj = "adjacency (d_edges fork_join)" and ?rev = "rev_adjacency (d_edges fork_join)"
  have settings: "settings_errors fork_join = []"
    by (simp add: settings_errors_def fork_join_agents fork_join_fields node_errors_def output_errors_def new_node_def
        Let_def is_integer_in_range_def max_auto_retry_count_def max_auto_retry_interval_seconds_def report_def
        strip_def lstrip_def rstrip_def)
  have sub: "subprocess_errors fork_join = []"
    by (simp add: subprocess_errors_def fork_join_fields new_node_def report_def)
  have gates: "parallel_errors fork_join ?adj = []" "converge_errors fork_join ?adj ?rev = []"
    "condition_errors fork_join ?adj ?rev = Some []" "loop_errors fork_join ?adj ?rev = []"
    by (simp_all add: parallel_errors_def converge_errors_def condition_errors_def loop_errors_def fork_join_gateways
        fork_join_fields fork_join_succs report_def concat_opt_def)
  have nested: "nested_errors fork_join ?adj = []"
    by (simp add: nested_errors_def nested_branch_errors_def fork_join_gateways fork_join_fields fork_join_succs
        report_def dfs_any.simps stacked_def)
  have ids: "agent_ids fork_join = [''a'', ''b'']" "gateway_ids fork_join = {''fork'', ''join''}"
    by (simp_all add: agent_ids_def fork_join_agents gateway_ids_def fork_join_fields new_node_def)
  have edges: "edge_node_ids fork_join = {''__start__'', ''fork'', ''a'', ''b'', ''join'', ''__end__''}"
    "list_ex (\<lambda>e. e_source e = start_node) (d_edges fork_join)" "list_ex (\<lambda>e. e_target e = end_node) (d_edges fork_join)"
    "d_edges fork_join \<noteq> []"
    by (auto simp: edge_node_ids_def ids fork_join_edges start_node_def end_node_def)
  have search: "dfs True never ?adj [start_node] [] = [''__start__'', ''fork'', ''b'', ''join'', ''__end__'', ''a'']"
    by (simp add: dfs.simps stacked_def fork_join_succs start_node_def)
  have others: "overlap_errors fork_join = []" "many_out_errors id fork_join ?adj = []" "orphan_errors fork_join = []"
    by (simp_all add: overlap_errors_def many_out_errors_def orphan_errors_def ids edges(1) fork_join_succs report_def)
  have path: "path_errors id fork_join ?adj = []"
    unfolding path_errors_def Let_def search using edges(2,3) by (simp add: ids edges(1) report_def end_node_def)
  show ?thesis
    using settings sub gates nested others path
    by (simp add: validate_def fork_join_agents edges(4))
qed

text \<open>
  C5. In an accepted workflow no branch of a paired parallel gateway meets another parallel
  gateway before a converge gateway.
\<close>

theorem accepted_parallel_not_nested:
  assumes "validate ord d = Some []" and "agent_nodes d \<noteq> []" and "pg \<in> set (gateways_of ''parallel'' d)"
    and "g_converge_gateway_id pg = Some c" and "c \<noteq> []" and "gateways_of ''converge'' d \<noteq> []"
    and "e \<in> set (d_edges d)" and "e_source e = g_id pg"
  shows "\<not> (\<exists>x. reach (succs (adjacency (d_edges d))) (\<lambda>n. n = c \<or> n \<in> g_id ` set (gateways_of ''converge'' d)) {e_target e} x \<and>
    x \<in> g_id ` set (gateways_of ''parallel'' d))"
proof -
  have t: "e_target e \<in> set (succs (adjacency (d_edges d)) (g_id pg))"
    using assms(7,8) by (auto simp: succs_adjacency)
  have stop: "(\<lambda>n. Some n = g_converge_gateway_id pg \<or> n \<in> g_id ` set (gateways_of ''converge'' d)) =
      (\<lambda>n. n = c \<or> n \<in> g_id ` set (gateways_of ''converge'' d))"
    using assms(4) by auto
  have "nested_errors d (adjacency (d_edges d)) = []" by (rule validate_accepts [OF assms(1,2)])
  then have "concat (map (nested_branch_errors d (adjacency (d_edges d))) (gateways_of ''parallel'' d)) = []"
    using assms(3,6) by (auto simp: nested_errors_def split: if_split_asm)
  from concat_map_NilD [OF this assms(3)]
  have "concat (map (\<lambda>t.
        report (dfs_any (\<lambda>n. n \<in> g_id ` set (gateways_of ''parallel'' d))
                  (\<lambda>n. Some n = g_converge_gateway_id pg \<or> n \<in> g_id ` set (gateways_of ''converge'' d))
                  (adjacency (d_edges d)) [t] [])
          (NestedParallel (label_or_id pg))) (succs (adjacency (d_edges d)) (g_id pg))) = []"
    using assms(4,5) unfolding nested_branch_errors_def by (simp only: option.distinct option.inject simp_thms if_False)
  from concat_map_NilD [OF this t] have "\<not> dfs_any (\<lambda>n. n \<in> g_id ` set (gateways_of ''parallel'' d))
      (\<lambda>n. Some n = g_converge_gateway_id pg \<or> n \<in> g_id ` set (gateways_of ''converge'' d)) (adjacency (d_edges d)) [e_target e] []"
    by simp
  then show ?thesis unfolding dfs_any_reach stop by blast
qed

theorem accepted_workflow_sound_witness:
  "(start_node, end_node) \<in> (edge_rel (d_edges fork_join))\<^sup>*"
proof -
  have "agent_nodes fork_join \<noteq> []" "\<And>xs :: string list. set (id xs) = set xs" by (simp_all add: fork_join_agents)
  from accepted_workflow_sound [OF fork_join_accepted this] show ?thesis by blast
qed

theorem accepted_parallel_not_nested_witness:
  "\<not> reach (succs (adjacency (d_edges fork_join))) (\<lambda>n. n = ''join'' \<or> n \<in> g_id ` set (gateways_of ''converge'' fork_join))
     {''a''} ''fork''"
proof -
  have a: "agent_nodes fork_join \<noteq> []" by (simp add: fork_join_agents)
  have p: "d_gateways fork_join ! 0 \<in> set (gateways_of ''parallel'' fork_join)" by (simp add: fork_join_gateways)
  have c: "g_converge_gateway_id (d_gateways fork_join ! 0) = Some ''join''" "g_id (d_gateways fork_join ! 0) = ''fork''"
    by (simp_all add: fork_join_fields)
  have e: "edge_of ''fork'' ''a'' \<in> set (d_edges fork_join)" "gateways_of ''converge'' fork_join \<noteq> []"
    by (simp_all add: fork_join_edges fork_join_gateways)
  have f: "''fork'' \<in> g_id ` set (gateways_of ''parallel'' fork_join)" using p c(2) by (metis image_eqI)
  show ?thesis
    using accepted_parallel_not_nested [OF fork_join_accepted a p c(1) _ e(2,1)] c(2) f by auto
qed

end
