(* ===== verification/Json.thy ===== *)
theory Json
  imports PyValue
begin

text \<open>
  The standard library's \<open>json\<close>, as the executor frames and the stored documents use it:
  \<open>json.dumps(value, ensure_ascii=False)\<close> with its default separators, the UTF-8 coding of
  the text, and \<open>json.loads\<close> of the bytes. Text is limited to code points below 256, so
  reading reports \<open>Beyond\<close> when a frame holds a character outside that range or is coded
  other than in UTF-8; such a frame is outside the model. Numbers are written only when they
  are integers or not finite: \<open>dumps\<close> has no value (\<open>None\<close>) on a finite float.
\<close>

section \<open>Writing\<close>

definition hex_char :: "nat \<Rightarrow> char" where
  "hex_char n = (if n < 10 then char_of (48 + n) else char_of (87 + n))"

definition esc_char :: "char \<Rightarrow> string" where
  "esc_char c =
     (let n = code c
      in if n = 34 then [CHR 0x5C, CHR 0x22]
         else if n = 92 then [CHR 0x5C, CHR 0x5C]
         else if n = 10 then [CHR 0x5C, CHR ''n'']
         else if n = 13 then [CHR 0x5C, CHR ''r'']
         else if n = 9 then [CHR 0x5C, CHR ''t'']
         else if n = 12 then [CHR 0x5C, CHR ''f'']
         else if n = 8 then [CHR 0x5C, CHR ''b'']
         else if n < 32 then [CHR 0x5C, CHR ''u'', CHR ''0'', CHR ''0'', hex_char (n div 16), hex_char (n mod 16)]
         else [c])"

definition quoted :: "string \<Rightarrow> string" where
  "quoted s = CHR 0x22 # concat (map esc_char s) @ [CHR 0x22]"

definition show_int :: "int \<Rightarrow> string" where
  "show_int i = (if i < 0 then CHR ''-'' # show_nat (nat (- i)) else show_nat (nat i))"

fun join :: "string \<Rightarrow> string list \<Rightarrow> string" where
  "join sep [] = []"
| "join sep [x] = x"
| "join sep (x # xs) = x @ sep @ join sep xs"

fun dumps :: "pyval \<Rightarrow> string option" where
  "dumps PNone = Some ''null''"
| "dumps (PBool b) = Some (if b then ''true'' else ''false'')"
| "dumps (PInt i) = Some (show_int i)"
| "dumps (PFloat PosInf) = Some ''Infinity''"
| "dumps (PFloat NegInf) = Some ''-Infinity''"
| "dumps (PFloat NaN) = Some ''NaN''"
| "dumps (PFloat (Fin m e)) = None"
| "dumps (PStr s) = Some (quoted s)"
| "dumps (PList xs) =
     map_option (\<lambda>ws. ''['' @ join '', '' ws @ '']'') (map_opt dumps xs)"
| "dumps (PDict d) =
     map_option (\<lambda>ws. ''{'' @ join '', '' ws @ ''}'')
       (map_opt (\<lambda>p. map_option (\<lambda>w. quoted (fst p) @ '': '' @ w) (dumps (snd p))) d)"

text \<open>\<open>str.encode("utf-8")\<close> on this range.\<close>

definition utf8_char :: "char \<Rightarrow> string" where
  "utf8_char c = (let n = code c in if n < 128 then [c] else [char_of (192 + n div 64), char_of (128 + n mod 64)])"

definition utf8 :: "string \<Rightarrow> string" where
  "utf8 s = concat (map utf8_char s)"

section \<open>Reading\<close>

datatype 'a jres = Good 'a string | Bad | Wide

fun jmap :: "('a \<Rightarrow> 'b) \<Rightarrow> 'a jres \<Rightarrow> 'b jres" where
  "jmap f (Good x r) = Good (f x) r"
| "jmap f Bad = Bad"
| "jmap f Wide = Wide"

fun jbind :: "'a jres \<Rightarrow> ('a \<Rightarrow> string \<Rightarrow> 'b jres) \<Rightarrow> 'b jres" where
  "jbind (Good x r) f = f x r"
| "jbind Bad f = Bad"
| "jbind Wide f = Wide"

definition hex_val :: "char \<Rightarrow> nat option" where
  "hex_val c =
     (let n = code c
      in if 48 \<le> n \<and> n \<le> 57 then Some (n - 48)
         else if 97 \<le> n \<and> n \<le> 102 then Some (n - 87)
         else if 65 \<le> n \<and> n \<le> 70 then Some (n - 55) else None)"

definition hex4 :: "char \<Rightarrow> char \<Rightarrow> char \<Rightarrow> char \<Rightarrow> nat option" where
  "hex4 a b c d =
     (case (hex_val a, hex_val b, hex_val c, hex_val d) of
        (Some w, Some x, Some y, Some z) \<Rightarrow> Some (4096 * w + 256 * x + 16 * y + z)
      | _ \<Rightarrow> None)"

definition unesc :: "char \<Rightarrow> char option" where
  "unesc c =
     (if c = CHR 0x22 \<or> c = CHR 0x5C \<or> c = CHR ''/'' then Some c
      else if c = CHR ''n'' then Some (CHR 0x0A)
      else if c = CHR ''r'' then Some (CHR 0x0D)
      else if c = CHR ''t'' then Some (CHR 0x09)
      else if c = CHR ''f'' then Some (CHR 0x0C)
      else if c = CHR ''b'' then Some (CHR 0x08) else None)"

text \<open>The body of a string up to its closing quote; control characters are refused.\<close>

fun jstr :: "string \<Rightarrow> string jres" where
  "jstr [] = Bad"
| "jstr (c # cs) =
     (if c = CHR 0x22 then Good [] cs
      else if c = CHR 0x5C then
        (case cs of
           [] \<Rightarrow> Bad
         | e # r \<Rightarrow>
             (if e = CHR ''u'' then
                (case r of
                   h1 # h2 # h3 # h4 # r' \<Rightarrow>
                     (case hex4 h1 h2 h3 h4 of
                        None \<Rightarrow> Bad
                      | Some n \<Rightarrow> if n < 256 then jmap ((#) (char_of n)) (jstr r') else Wide)
                 | _ \<Rightarrow> Bad)
              else (case unesc e of None \<Rightarrow> Bad | Some x \<Rightarrow> jmap ((#) x) (jstr r))))
      else if code c < 32 then Bad
      else jmap ((#) c) (jstr cs))"

definition json_space :: "char \<Rightarrow> bool" where
  "json_space c = (c = CHR '' '' \<or> c = CHR 0x09 \<or> c = CHR 0x0A \<or> c = CHR 0x0D)"

abbreviation ws :: "string \<Rightarrow> string" where
  "ws \<equiv> dropWhile json_space"

text \<open>
  A number: a sign, an integer part with no leading zero, then a fraction and an exponent
  when they are complete; what follows is left.
\<close>

definition int_part :: "string \<Rightarrow> (string \<times> string) option" where
  "int_part s =
     (case s of
        [] \<Rightarrow> None
      | c # cs \<Rightarrow> if c = CHR ''0'' then Some ([c], cs)
                   else if ascii_digit c then Some (take_digits s) else None)"

definition frac_part :: "string \<Rightarrow> string \<times> string" where
  "frac_part s =
     (case s of
        [] \<Rightarrow> ([], [])
      | c # cs \<Rightarrow> (let (ds, r) = take_digits cs
                    in if c = CHR ''.'' \<and> ds \<noteq> [] then (c # ds, r) else ([], s)))"

definition exp_part :: "string \<Rightarrow> string \<times> string" where
  "exp_part s =
     (case s of
        [] \<Rightarrow> ([], [])
      | c # cs \<Rightarrow>
          (let (sg, t) = (case cs of [] \<Rightarrow> ([], []) | x # xs \<Rightarrow>
                            if x = CHR ''+'' \<or> x = CHR ''-'' then ([x], xs) else ([], cs));
               (ds, r) = take_digits t
           in if (c = CHR ''e'' \<or> c = CHR ''E'') \<and> ds \<noteq> [] then (c # sg @ ds, r) else ([], s)))"

definition jnum :: "string \<Rightarrow> pyval jres" where
  "jnum s =
     (let (neg, t) = (case s of [] \<Rightarrow> (False, []) | c # cs \<Rightarrow> if c = CHR ''-'' then (True, cs) else (False, s))
      in case int_part t of
           None \<Rightarrow> Bad
         | Some (ip, r) \<Rightarrow>
             (let (fp, r1) = frac_part r; (ep, r2) = exp_part r1
              in if fp = [] \<and> ep = []
                 then Good (PInt (if neg then - int (digits_val ip) else int (digits_val ip))) r2
                 else (case parse_decimal (ip @ fp @ ep) of
                         None \<Rightarrow> Bad
                       | Some f \<Rightarrow> Good (PFloat (if neg then float_neg f else f)) r2)))"

definition lit :: "string \<Rightarrow> pyval \<Rightarrow> string \<Rightarrow> pyval jres" where
  "lit w v s = (if starts_with s w then Good v (drop (length w) s) else Bad)"

definition jatom :: "string \<Rightarrow> pyval jres" where
  "jatom s =
     (if starts_with s ''null'' then lit ''null'' PNone s
      else if starts_with s ''true'' then lit ''true'' (PBool True) s
      else if starts_with s ''false'' then lit ''false'' (PBool False) s
      else if starts_with s ''NaN'' then lit ''NaN'' (PFloat NaN) s
      else if starts_with s ''Infinity'' then lit ''Infinity'' (PFloat PosInf) s
      else if starts_with s ''-Infinity'' then lit ''-Infinity'' (PFloat NegInf) s
      else jnum s)"

text \<open>
  Values, the items of a list and the members of an object. The first argument bounds the
  number of nested calls; \<open>loads\<close> starts with more than any text can use. A repeated key
  keeps its first place and its last value, as in a Python \<open>dict\<close>.
\<close>

fun jval :: "nat \<Rightarrow> string \<Rightarrow> pyval jres"
  and jitems :: "nat \<Rightarrow> string \<Rightarrow> pyval list jres"
  and jpairs :: "nat \<Rightarrow> string \<Rightarrow> (string \<times> pyval) list jres" where
  "jval 0 s = Bad"
| "jval (Suc n) s =
     (case s of
        [] \<Rightarrow> Bad
      | c # cs \<Rightarrow>
          (if c = CHR 0x22 then jmap PStr (jstr cs)
           else if c = CHR ''['' then
             (case ws cs of
                [] \<Rightarrow> Bad
              | x # r \<Rightarrow> if x = CHR '']'' then Good (PList []) r else jmap PList (jitems n (x # r)))
           else if c = CHR ''{'' then
             (case ws cs of
                [] \<Rightarrow> Bad
              | x # r \<Rightarrow> if x = CHR ''}'' then Good (PDict []) r
                          else jmap (\<lambda>ps. PDict (foldl (\<lambda>d (k, v). dput k v d) [] ps)) (jpairs n (x # r)))
           else jatom s))"
| "jitems 0 s = Bad"
| "jitems (Suc n) s =
     jbind (jval n s) (\<lambda>v r.
       (case ws r of
          [] \<Rightarrow> Bad
        | x # r' \<Rightarrow> if x = CHR '','' then jmap ((#) v) (jitems n (ws r'))
                     else if x = CHR '']'' then Good [v] r' else Bad))"
| "jpairs 0 s = Bad"
| "jpairs (Suc n) s =
     (case s of
        [] \<Rightarrow> Bad
      | q # s' \<Rightarrow>
          if q \<noteq> CHR 0x22 then Bad
          else jbind (jstr s') (\<lambda>k r.
            (case ws r of
               [] \<Rightarrow> Bad
             | x # r' \<Rightarrow>
                 if x \<noteq> CHR '':'' then Bad
                 else jbind (jval n (ws r')) (\<lambda>v r2.
                   (case ws r2 of
                      [] \<Rightarrow> Bad
                    | y # r3 \<Rightarrow> if y = CHR '','' then jmap ((#) (k, v)) (jpairs n (ws r3))
                                 else if y = CHR ''}'' then Good [(k, v)] r3 else Bad)))))"

datatype loaded = Loaded pyval | NotJson | NotUtf8 | Beyond

text \<open>Decoding: \<open>Some None\<close> is a character outside the range, \<open>None\<close> an invalid sequence.\<close>

fun utf8_decode :: "string \<Rightarrow> string option option" where
  "utf8_decode [] = Some (Some [])"
| "utf8_decode (c # cs) =
     (let n = code c
      in if n < 128 then map_option (map_option ((#) c)) (utf8_decode cs)
         else if n = 194 \<or> n = 195 then
           (case cs of
              [] \<Rightarrow> None
            | x # r \<Rightarrow> if 128 \<le> code x \<and> code x < 192
                        then map_option (map_option ((#) (char_of ((n - 192) * 64 + (code x - 128))))) (utf8_decode r)
                        else None)
         else if 196 \<le> n \<and> n < 245 then Some None
         else None)"

text \<open>Bytes that start as UTF-16 or UTF-32, which \<open>json.loads\<close> detects, or with a mark.\<close>

definition other_coding :: "string \<Rightarrow> bool" where
  "other_coding b =
     ((2 \<le> length b \<and> CHR 0x00 \<in> set (take 2 b)) \<or>
      starts_with b [CHR 0xFE, CHR 0xFF] \<or> starts_with b [CHR 0xFF, CHR 0xFE] \<or>
      starts_with b [CHR 0xEF, CHR 0xBB, CHR 0xBF])"

definition loads_text :: "string \<Rightarrow> loaded" where
  "loads_text s =
     (case jval (2 * length s + 2) (ws s) of
        Good v r \<Rightarrow> if ws r = [] then Loaded v else NotJson
      | Bad \<Rightarrow> NotJson
      | Wide \<Rightarrow> Beyond)"

definition loads :: "string \<Rightarrow> loaded" where
  "loads b =
     (if other_coding b then Beyond
      else (case utf8_decode b of
              None \<Rightarrow> NotUtf8
            | Some None \<Rightarrow> Beyond
            | Some (Some s) \<Rightarrow> loads_text s))"

section \<open>What is written is read back\<close>

lemma code_lt: "code c < 256"
  by (simp add: code_def)

lemma char_of_code [simp]: "char_of (code c) = c"
  by (simp add: code_def)

lemma code_char_of: "n < 256 \<Longrightarrow> code (char_of n) = n"
  by (simp add: code_def of_char_of)

lemma code_inj: "code c = code d \<longleftrightarrow> c = d"
  by (simp add: code_def)

lemma code_control:
  "code c = 34 \<longleftrightarrow> c = CHR 0x22" "code c = 92 \<longleftrightarrow> c = CHR 0x5C" "code c = 10 \<longleftrightarrow> c = CHR 0x0A"
  "code c = 13 \<longleftrightarrow> c = CHR 0x0D" "code c = 9 \<longleftrightarrow> c = CHR 0x09" "code c = 12 \<longleftrightarrow> c = CHR 0x0C"
  "code c = 8 \<longleftrightarrow> c = CHR 0x08"
  by (simp_all add: code_inj [symmetric]) (simp_all add: code_def)

lemma hex_val_hex_char: "n < 16 \<Longrightarrow> hex_val (hex_char n) = Some n"
  by (auto simp: hex_val_def hex_char_def code_char_of Let_def)

lemma jstr_esc: "jstr (esc_char c @ t) = jmap ((#) c) (jstr t)"
proof -
  have z: "hex_val (CHR ''0'') = Some 0"
    by (simp add: hex_val_def code_def)
  have h: "code c < 32 \<Longrightarrow> hex4 (CHR ''0'') (CHR ''0'') (hex_char (code c div 16)) (hex_char (code c mod 16)) = Some (code c)"
    by (simp add: hex4_def z hex_val_hex_char)
  show ?thesis
    using h unfolding esc_char_def Let_def code_control
    by (simp add: unesc_def)
qed

lemma jstr_quoted: "jstr (concat (map esc_char s) @ CHR 0x22 # r) = Good s r"
  by (induction s) (simp_all add: jstr_esc)

lemma show_nat_hd: "0 < n \<Longrightarrow> hd (show_nat n) \<noteq> CHR ''0''"
proof (induction n rule: show_nat.induct)
  case (1 n)
  show ?case
  proof (cases "n < 10")
    case True
    have "digit_val (digit_char n) = n" using digit_char_val True by blast
    then have "digit_char n \<noteq> CHR ''0''" using "1.prems" by (auto simp: digit_val_def code_def)
    then show ?thesis using True by (subst show_nat.simps) simp
  next
    case False
    then show ?thesis
      using 1 show_nat_digits [of "n div 10"] by (subst show_nat.simps) simp
  qed
qed

lemma show_nat_0: "show_nat 0 = ''0''"
  proof -
  have "digit_char 0 = CHR ''0''"
    by (simp add: code_inj [symmetric] digit_char_def code_char_of) (simp add: code_def)
  then show ?thesis by (simp add: show_nat.simps [of 0])
qed

text \<open>What may follow a value inside a list, an object, or at the end.\<close>

definition delim :: "string \<Rightarrow> bool" where
  "delim r = (r = [] \<or> hd r \<in> {CHR '','', CHR '']'', CHR ''}'', CHR 0x0A})"

lemma delim_simps [simp]: "delim []" "delim (CHR '','' # r)" "delim (CHR '']'' # r)" "delim (CHR ''}'' # r)" "delim (CHR 0x0A # r)"
  by (simp_all add: delim_def)

lemma delim_num:
  assumes "delim r"
  shows "r = [] \<or> \<not> ascii_digit (hd r)" "frac_part r = ([], r)" "exp_part r = ([], r)"
  using assms by (auto simp: delim_def frac_part_def exp_part_def ascii_digit_def code_def Let_def
      split: list.splits prod.splits if_split_asm)

lemma int_part_show: "delim r \<Longrightarrow> int_part (show_nat n @ r) = Some (show_nat n, r)"
proof -
  assume r: "delim r"
  have d: "list_all ascii_digit (show_nat n)" and ne: "show_nat n \<noteq> []"
    using show_nat_digits by auto
  then obtain c cs where s: "show_nat n = c # cs" "ascii_digit c" by (cases "show_nat n") auto
  show ?thesis
  proof (cases "n = 0")
    case True
    then show ?thesis by (simp add: show_nat_0 int_part_def)
  next
    case False
    then have "c \<noteq> CHR ''0''" using show_nat_hd [of n] s by simp
    moreover have "take_digits (show_nat n @ r) = (show_nat n, r)"
      using d delim_num(1) [OF r] by (rule take_digits_append)
    ultimately show ?thesis using s by (simp add: int_part_def)
  qed
qed

lemma jnum_show: "delim r \<Longrightarrow> jnum (show_int i @ r) = Good (PInt i) r"
proof -
  assume r: "delim r"
  obtain c cs where s: "show_nat (nat i) = c # cs" "ascii_digit c"
    using show_nat_digits [of "nat i"] by (cases "show_nat (nat i)") auto
  then have "c \<noteq> CHR ''-''" by (simp add: digit_facts)
  then have "\<not> i < 0 \<Longrightarrow> jnum (show_nat (nat i) @ r) = Good (PInt i) r"
    using s int_part_show [OF r, of "nat i"] delim_num(2,3) [OF r] digits_val_show [of "nat i"]
    by (simp add: jnum_def)
  moreover have "i < 0 \<Longrightarrow> jnum (CHR ''-'' # show_nat (nat (- i)) @ r) = Good (PInt i) r"
    using int_part_show [OF r, of "nat (- i)"] delim_num(2,3) [OF r] digits_val_show [of "nat (- i)"]
    by (simp add: jnum_def)
  ultimately show ?thesis by (simp add: show_int_def)
qed

lemma show_int_hd:
  "\<exists>c cs. show_int i = c # cs \<and>
     (ascii_digit c \<or> c = CHR ''-'' \<and> (\<exists>d ds. cs = d # ds \<and> ascii_digit d))"
proof -
  obtain c cs d ds where "show_nat (nat i) = c # cs" "ascii_digit c" "show_nat (nat (- i)) = d # ds" "ascii_digit d"
    using show_nat_digits [of "nat i"] show_nat_digits [of "nat (- i)"]
    by (cases "show_nat (nat i)"; cases "show_nat (nat (- i))") auto
  then show ?thesis by (simp add: show_int_def)
qed

lemma digit_neq:
  assumes "ascii_digit c"
  shows "c \<noteq> CHR 0x22" "c \<noteq> CHR ''[''" "c \<noteq> CHR ''{''" "c \<noteq> CHR ''n''" "c \<noteq> CHR ''t''" "c \<noteq> CHR ''f''"
    "c \<noteq> CHR ''N''" "c \<noteq> CHR ''I''" "c \<noteq> CHR ''-''" "\<not> json_space c" "c \<noteq> CHR '']''" "c \<noteq> CHR ''}''"
  using assms by (auto simp: ascii_digit_def code_def json_space_def Let_def)

lemma jval_int: "delim r \<Longrightarrow> jval (Suc n) (show_int i @ r) = Good (PInt i) r"
proof -
  assume r: "delim r"
  have "jatom (show_int i @ r) = jnum (show_int i @ r)"
    using show_int_hd [of i] by (auto simp: jatom_def starts_with_def digit_neq)
  then show ?thesis
    using show_int_hd [of i] jnum_show [OF r, of i] by (auto simp: digit_neq)
qed

text \<open>The values that are written: no finite float, distinct keys in every object.\<close>

fun json_ok :: "pyval \<Rightarrow> bool" where
  "json_ok (PFloat (Fin m e)) = False"
| "json_ok (PList xs) = list_all json_ok xs"
| "json_ok (PDict d) = (distinct (map fst d) \<and> list_all (\<lambda>p. json_ok (snd p)) d)"
| "json_ok _ = True"

fun jfuel :: "pyval \<Rightarrow> nat" where
  "jfuel (PList xs) = Suc (sum_list (map (\<lambda>x. Suc (jfuel x)) xs))"
| "jfuel (PDict d) = Suc (sum_list (map (\<lambda>p. Suc (jfuel (snd p))) d))"
| "jfuel _ = 1"

definition item_fuel :: "pyval list \<Rightarrow> nat" where
  "item_fuel xs = sum_list (map (\<lambda>x. Suc (jfuel x)) xs)"

lemma jfuel_pos: "0 < jfuel v"
  by (cases v) auto

definition starter :: "string \<Rightarrow> bool" where
  "starter w = (w \<noteq> [] \<and> \<not> json_space (hd w) \<and> hd w \<noteq> CHR '']'' \<and> hd w \<noteq> CHR ''}'')"

lemma ws_starter: "starter w \<Longrightarrow> ws (w @ r) = w @ r"
  by (cases w) (auto simp: starter_def)

lemma dumps_starter: "dumps v = Some w \<Longrightarrow> starter w"
proof (cases v)
  case (PInt i)
  assume "dumps v = Some w"
  moreover have "\<not> json_space (CHR ''-'')" by (simp add: json_space_def)
  ultimately show ?thesis using PInt show_int_hd [of i]
    by (auto simp: starter_def digit_neq)
next
  case (PFloat f)
  assume "dumps v = Some w"
  then show ?thesis using PFloat by (cases f) (auto simp: starter_def json_space_def)
qed (auto simp: starter_def json_space_def quoted_def split: if_split_asm)

text \<open>Reading one value at any position where it was written.\<close>

definition reads :: "pyval \<Rightarrow> string \<Rightarrow> bool" where
  "reads v w = (\<forall>n r. jfuel v \<le> n \<longrightarrow> delim r \<longrightarrow> jval n (w @ r) = Good v r)"

lemma readsD: "reads v w \<Longrightarrow> jfuel v \<le> n \<Longrightarrow> delim r \<Longrightarrow> jval n (w @ r) = Good v r"
  by (simp add: reads_def)

lemma jspace_simps [simp]:
  "json_space (CHR '' '')" "\<not> json_space (CHR '','')" "\<not> json_space (CHR '']'')" "\<not> json_space (CHR ''}'')"
  "\<not> json_space (CHR '':'')" "\<not> json_space (CHR 0x22)"
  by (simp_all add: json_space_def)

lemma jitems_join:
  assumes "list_all2 (\<lambda>v w. reads v w \<and> starter w) vs ws'" and "vs \<noteq> []" and "item_fuel vs \<le> n"
  shows "jitems n (join '', '' ws' @ CHR '']'' # r) = Good vs r"
  using assms
proof (induction vs arbitrary: ws' n)
  case Nil
  then show ?case by simp
next
  case (Cons v vs)
  then obtain w us where w: "ws' = w # us" "reads v w" "starter w" "list_all2 (\<lambda>v w. reads v w \<and> starter w) vs us"
    by (auto simp: list_all2_Cons1)
  obtain m where n: "n = Suc m" "jfuel v \<le> m" "item_fuel vs \<le> m"
    using Cons.prems(3) by (cases n) (auto simp: item_fuel_def)
  show ?case
  proof (cases vs)
    case Nil
    then have "us = []" using w(4) by simp
    then show ?thesis using Nil w n readsD [OF w(2) n(2), of "CHR '']'' # r"] by simp
  next
    case (Cons v2 vs2)
    then obtain u us2 where us: "us = u # us2" "starter u" using w(4) by (auto simp: list_all2_Cons1)
    have j: "join '', '' ws' = w @ CHR '','' # CHR '' '' # join '', '' us"
      by (simp add: w(1) us)
    have s: "starter (join '', '' us)" using us by (cases us2) (auto simp: starter_def)
    have "jitems m (join '', '' us @ CHR '']'' # r) = Good vs r"
      using Cons.IH w(4) n(3) Cons by simp
    then show ?thesis
      using n(1) readsD [OF w(2) n(2), of "CHR '','' # CHR '' '' # join '', '' us @ CHR '']'' # r"]
        ws_starter [OF s, of "CHR '']'' # r"]
      by (simp add: j)
  qed
qed

definition member_text :: "string \<times> pyval \<Rightarrow> string \<Rightarrow> bool" where
  "member_text p m = (\<exists>w. m = quoted (fst p) @ '': '' @ w \<and> reads (snd p) w \<and> starter w)"

text \<open>The separator after a comma is any white space, and so is what precedes the closing brace.\<close>

lemma jpairs_join_sep:
  assumes "list_all2 member_text ps ms" and "ps \<noteq> []" and "item_fuel (map snd ps) \<le> n"
    and sp: "list_all json_space sp" and cl: "ws cl = CHR ''}'' # r" "delim cl"
  shows "jpairs n (join (CHR '','' # sp) ms @ cl) = Good ps r"
  using assms(1-3)
proof (induction ps arbitrary: ms n)
  case Nil
  then show ?case by simp
next
  case (Cons p ps)
  obtain k v where p: "p = (k, v)" by (cases p)
  obtain m us where ms: "ms = m # us" "member_text p m" "list_all2 member_text ps us"
    using Cons.prems(1) by (auto simp: list_all2_Cons1)
  then obtain w where w: "m = quoted k @ '': '' @ w" "reads v w" "starter w"
    by (auto simp: member_text_def p)
  obtain i where n: "n = Suc i" "jfuel v \<le> i" "item_fuel (map snd ps) \<le> i"
    using Cons.prems(3) p by (cases n) (auto simp: item_fuel_def)
  have head: "jpairs n (m @ t) =
      jbind (jval i (w @ t)) (\<lambda>v r2. (case ws r2 of [] \<Rightarrow> Bad
        | y # r3 \<Rightarrow> if y = CHR '','' then jmap ((#) (k, v)) (jpairs i (ws r3))
                    else if y = CHR ''}'' then Good [(k, v)] r3 else Bad))" for t
    using jstr_quoted [of k "CHR '':'' # CHR '' '' # w @ t"] ws_starter [OF w(3), of t]
    by (simp add: n(1) w(1) quoted_def)
  show ?case
  proof (cases ps)
    case Nil
    then have "us = []" using ms(3) by simp
    then show ?thesis
      using Nil head [of cl] readsD [OF w(2) n(2) cl(2)] cl(1) by (simp add: ms(1) p)
  next
    case (Cons p2 ps2)
    then obtain u us2 where us: "us = u # us2" "member_text p2 u" using ms(3) by (auto simp: list_all2_Cons1)
    have j: "join (CHR '','' # sp) ms = m @ CHR '','' # sp @ join (CHR '','' # sp) us"
      by (simp add: ms(1) us)
    have s: "starter (join (CHR '','' # sp) us)"
      using us by (cases us2) (auto simp: starter_def member_text_def quoted_def)
    have skip: "ws (sp @ join (CHR '','' # sp) us @ cl) = join (CHR '','' # sp) us @ cl"
      using sp ws_starter [OF s, of cl] by (simp add: list_all_iff)
    have "jpairs i (join (CHR '','' # sp) us @ cl) = Good ps r"
      using Cons.IH ms(3) n(3) Cons by simp
    then show ?thesis
      using head [of "CHR '','' # sp @ join (CHR '','' # sp) us @ cl"]
        readsD [OF w(2) n(2), of "CHR '','' # sp @ join (CHR '','' # sp) us @ cl"] skip
      by (simp add: j p)
  qed
qed

lemma jpairs_join:
  "list_all2 member_text ps ms \<Longrightarrow> ps \<noteq> [] \<Longrightarrow> item_fuel (map snd ps) \<le> n \<Longrightarrow>
    jpairs n (join '', '' ms @ CHR ''}'' # r) = Good ps r"
  by (rule jpairs_join_sep) (simp_all add: json_space_def)

lemma join_length: "2 * sum_list (map length us) + length us \<le> 2 * length (join '', '' us) + 3"
proof -
  have "sum_list (map length us) + 2 * length us \<le> length (join '', '' us) + 2"
    by (induction "'', ''" us rule: join.induct) auto
  then show ?thesis by (cases us) auto
qed

lemma reads_list:
  assumes us: "list_all2 (\<lambda>v w. reads v w \<and> starter w) xs us"
  shows "reads (PList xs) (''['' @ join '', '' us @ '']'')"
proof (cases xs)
  case Nil
  then show ?thesis using us by (auto simp: reads_def elim!: Suc_le_D [elim_format])
next
  case (Cons y ys)
  have "starter (join '', '' us)"
    using us Cons by (cases us; cases "tl us") (auto simp: starter_def)
  then obtain c cs where c: "join '', '' us = c # cs" "c \<noteq> CHR '']''" "\<not> json_space c"
    by (cases "join '', '' us") (auto simp: starter_def)
  show ?thesis
    unfolding reads_def
  proof (intro allI impI)
    fix n r
    assume "jfuel (PList xs) \<le> n"
    then obtain m where m: "n = Suc m" "item_fuel xs \<le> m" by (cases n) (auto simp: item_fuel_def)
    have "jitems m (join '', '' us @ CHR '']'' # r) = Good xs r"
      using us Cons m(2) by (intro jitems_join) auto
    then show "jval n ((''['' @ join '', '' us @ '']'') @ r) = Good (PList xs) r"
      by (simp add: m(1) c)
  qed
qed

lemma dput_new: "k \<notin> set (map fst e) \<Longrightarrow> dput k v e = e @ [(k, v)]"
  by (induction k v e rule: dput.induct) auto

lemma foldl_dput: "distinct (map fst (e @ d)) \<Longrightarrow> foldl (\<lambda>d (k, v). dput k v d) e d = e @ d"
proof (induction d arbitrary: e)
  case (Cons p d)
  then show ?case by (cases p) (simp add: dput_new)
qed simp

lemma reads_dict:
  assumes us: "list_all2 member_text d us" and d: "distinct (map fst d)"
  shows "reads (PDict d) (''{'' @ join '', '' us @ ''}'')"
proof (cases d)
  case Nil
  then show ?thesis using us by (auto simp: reads_def elim!: Suc_le_D [elim_format])
next
  case (Cons y ys)
  have "starter (join '', '' us)"
    using us Cons by (cases us; cases "tl us") (auto simp: starter_def member_text_def quoted_def)
  then obtain c cs where c: "join '', '' us = c # cs" "c \<noteq> CHR ''}''" "\<not> json_space c"
    by (cases "join '', '' us") (auto simp: starter_def)
  show ?thesis
    unfolding reads_def
  proof (intro allI impI)
    fix n r
    assume "jfuel (PDict d) \<le> n"
    then obtain m where m: "n = Suc m" "item_fuel (map snd d) \<le> m"
      by (cases n) (auto simp: item_fuel_def comp_def)
    have "jpairs m (join '', '' us @ CHR ''}'' # r) = Good d r"
      using us Cons m(2) by (intro jpairs_join) auto
    then show "jval n ((''{'' @ join '', '' us @ ''}'') @ r) = Good (PDict d) r"
      using d by (simp add: m(1) c foldl_dput)
  qed
qed

lemma dumps_items:
  assumes "\<And>x. x \<in> set xs \<Longrightarrow> \<exists>w. dumps x = Some w \<and> reads x w \<and> jfuel x \<le> 2 * length w"
  shows "\<exists>us. map_opt dumps xs = Some us \<and> list_all2 (\<lambda>v w. reads v w \<and> starter w) xs us
      \<and> item_fuel xs \<le> 2 * sum_list (map length us) + length us"
  using assms
proof (induction xs)
  case (Cons x xs)
  then obtain w where "dumps x = Some w" "reads x w" "jfuel x \<le> 2 * length w" by auto
  with Cons show ?case by (auto simp: item_fuel_def dumps_starter)
qed (simp add: item_fuel_def)

lemma dumps_members:
  assumes "\<And>p. p \<in> set d \<Longrightarrow> \<exists>w. dumps (snd p) = Some w \<and> reads (snd p) w \<and> jfuel (snd p) \<le> 2 * length w"
  shows "\<exists>us. map_opt (\<lambda>p. map_option (\<lambda>w. quoted (fst p) @ '': '' @ w) (dumps (snd p))) d = Some us
      \<and> list_all2 member_text d us \<and> item_fuel (map snd d) \<le> 2 * sum_list (map length us) + length us"
  using assms
proof (induction d)
  case (Cons p d)
  then obtain w where "dumps (snd p) = Some w" "reads (snd p) w" "jfuel (snd p) \<le> 2 * length w"
    by (meson list.set_intros(1))
  with Cons show ?case by (auto simp: item_fuel_def dumps_starter member_text_def)
qed (simp add: item_fuel_def)

lemma reads_dumps: "json_ok v \<Longrightarrow> \<exists>w. dumps v = Some w \<and> reads v w \<and> jfuel v \<le> 2 * length w"
proof (induction v)
  case (PInt i)
  have "1 \<le> length (show_int i)" using show_int_hd [of i] by auto
  then show ?case
    by (auto simp: reads_def jval_int simp del: jval.simps elim!: Suc_le_D [elim_format])
next
  case (PFloat f)
  then show ?case
    by (cases f) (auto simp: reads_def jatom_def lit_def starts_with_def elim!: Suc_le_D [elim_format])
next
  case (PList xs)
  have "\<And>x. x \<in> set xs \<Longrightarrow> \<exists>w. dumps x = Some w \<and> reads x w \<and> jfuel x \<le> 2 * length w"
    using PList by (auto simp: list_all_iff)
  then obtain us where us: "map_opt dumps xs = Some us" "list_all2 (\<lambda>v w. reads v w \<and> starter w) xs us"
    "item_fuel xs \<le> 2 * sum_list (map length us) + length us" using dumps_items by blast
  have "jfuel (PList xs) \<le> 2 * length (''['' @ join '', '' us @ '']'')"
    using us(3) join_length [of us] by (simp add: item_fuel_def)
  then show ?case using us(1) reads_list [OF us(2)] by auto
next
  case (PDict d)
  have "\<exists>w. dumps (snd p) = Some w \<and> reads (snd p) w \<and> jfuel (snd p) \<le> 2 * length w" if "p \<in> set d" for p
    using that PDict.IH [of p "snd p"] PDict.prems by (auto simp: list_all_iff snds.simps)
  then obtain us where us: "map_opt (\<lambda>p. map_option (\<lambda>w. quoted (fst p) @ '': '' @ w) (dumps (snd p))) d = Some us"
    "list_all2 member_text d us" "item_fuel (map snd d) \<le> 2 * sum_list (map length us) + length us"
    using dumps_members by blast
  have "jfuel (PDict d) \<le> 2 * length (''{'' @ join '', '' us @ ''}'')"
    using us(3) join_length [of us] by (simp add: item_fuel_def comp_def)
  then show ?case using us(1) reads_dict [OF us(2)] PDict.prems by auto
qed (auto simp: reads_def jatom_def lit_def starts_with_def quoted_def jstr_quoted elim!: Suc_le_D [elim_format])

section \<open>The bytes of a written text\<close>

lemma utf8_decode_utf8: "utf8_decode (utf8 s @ t) = map_option (map_option ((@) s)) (utf8_decode t)"
proof (induction s)
  case Nil
  have "(@) [] = (\<lambda>x. x :: string)" by auto
  then show ?case by (simp add: utf8_def option.map_ident)
next
  case (Cons c s)
  have hi: "code c < 256" by (rule code_lt)
  have "utf8_decode (utf8_char c @ u) = map_option (map_option ((#) c)) (utf8_decode u)" for u
  proof (cases "code c < 128")
    case True
    then show ?thesis by (simp add: utf8_char_def Let_def)
  next
    case False
    then have d: "code c div 64 = 2 \<or> code c div 64 = 3" and m: "code c mod 64 < 64"
      using hi by auto
    have "code c div 64 * 64 + code c mod 64 = code c" by simp
    then have "code c div 64 = 2 \<Longrightarrow> 128 + code c mod 64 = code c" "code c div 64 = 3 \<Longrightarrow> 192 + code c mod 64 = code c"
      by auto
    then have "code c div 64 = 2 \<Longrightarrow> char_of (128 + code c mod 64) = c" "code c div 64 = 3 \<Longrightarrow> char_of (192 + code c mod 64) = c"
      by simp_all
    then show ?thesis
      using False d m by (auto simp: utf8_char_def Let_def code_char_of)
  qed
  then show ?case
    using Cons by (simp add: utf8_def option.map_comp comp_def)
qed

definition printable :: "string \<Rightarrow> bool" where
  "printable w = list_all (\<lambda>c. 32 \<le> code c) w"

lemma printable_simps [simp]:
  "printable []" "printable (c # w) \<longleftrightarrow> 32 \<le> code c \<and> printable w"
  "printable (w @ u) \<longleftrightarrow> printable w \<and> printable u"
  by (simp_all add: printable_def)

lemma printable_join: "printable sep \<Longrightarrow> list_all printable us \<Longrightarrow> printable (join sep us)"
  by (induction sep us rule: join.induct) auto

lemma code_simps [simp]:
  "code (CHR 0x22) = 34" "code (CHR ''['') = 91" "code (CHR '']'') = 93" "code (CHR ''{'') = 123"
  "code (CHR ''}'') = 125" "code (CHR '','') = 44" "code (CHR '' '') = 32" "code (CHR '':'') = 58"
  "code (CHR ''-'') = 45"
  by (simp_all add: code_def)

lemma printable_quoted: "printable (quoted s)"
proof -
  have "n < 16 \<Longrightarrow> 32 \<le> code (hex_char n)" for n
    by (simp add: hex_char_def code_char_of)
  moreover have "32 \<le> code (CHR 0x5C)" "32 \<le> code (CHR ''n'')" "32 \<le> code (CHR ''r'')" "32 \<le> code (CHR ''t'')"
    "32 \<le> code (CHR ''f'')" "32 \<le> code (CHR ''b'')" "32 \<le> code (CHR ''u'')" "32 \<le> code (CHR ''0'')"
    by (simp_all add: code_def)
  ultimately have "printable (esc_char c)" for c
    by (simp add: esc_char_def Let_def)
  then have "printable (concat (map esc_char s))"
    by (induction s) auto
  then show ?thesis by (simp add: quoted_def)
qed

lemma printable_show_nat: "printable (show_nat n)"
  using show_nat_digits [of n]
  by (auto simp: printable_def list_all_iff ascii_digit_def Let_def dest: bspec)

lemma printable_dumps: "dumps v = Some w \<Longrightarrow> printable w"
proof (induction v arbitrary: w)
  case (PFloat f)
  then show ?case by (cases f) (auto simp: code_def)
next
  case (PList xs)
  then obtain us where us: "list_all2 (\<lambda>x w. dumps x = Some w) xs us" "w = ''['' @ join '', '' us @ '']''"
    by (auto simp: map_opt_Some_iff)
  have "list_all printable us"
    unfolding list_all_length
  proof (intro allI impI)
    fix i
    assume "i < length us"
    then have "dumps (xs ! i) = Some (us ! i)" "xs ! i \<in> set xs"
      using us(1) by (auto simp: list_all2_conv_all_nth)
    then show "printable (us ! i)" using PList.IH by blast
  qed
  then show ?case using us(2) by (simp add: printable_join)
next
  case (PDict d)
  obtain us where us: "map_opt (\<lambda>p. map_option (\<lambda>w. quoted (fst p) @ '': '' @ w) (dumps (snd p))) d = Some us"
    "w = ''{'' @ join '', '' us @ ''}''"
    using PDict.prems by auto
  have "list_all printable us"
    unfolding list_all_length
  proof (intro allI impI)
    fix i
    assume i: "i < length us"
    then obtain x where x: "dumps (snd (d ! i)) = Some x" "quoted (fst (d ! i)) @ '': '' @ x = us ! i" "i < length d"
      using us(1) unfolding map_opt_Some_iff list_all2_conv_all_nth map_option_eq_Some by auto
    have "printable x"
      using PDict.IH [of "d ! i" "snd (d ! i)" x] x by (simp add: snds.simps)
    then have "printable (quoted (fst (d ! i)) @ '': '' @ x)" by (simp add: printable_quoted)
    then show "printable (us ! i)" unfolding x(2) .
  qed
  then show ?case using us(2) by (simp add: printable_join)
qed (auto simp: printable_quoted printable_show_nat show_int_def code_def split: if_split_asm)

lemma other_coding_utf8: "printable w \<Longrightarrow> \<not> other_coding (utf8 w @ [CHR 0x0A])"
proof -
  assume w: "printable w"
  have bytes: "list_all (\<lambda>c. 32 \<le> code c \<and> code c \<notin> {254, 255, 239}) (utf8_char c)" if "32 \<le> code c" for c
  proof -
    have "code c div 64 < 4" using code_lt [of c] by auto
    then have "code (char_of (192 + code c div 64)) = 192 + code c div 64" "code c div 64 \<noteq> 62" "code c div 64 \<noteq> 63"
      "code c div 64 \<noteq> 47" by (auto simp: code_char_of)
    moreover have "code (char_of (128 + code c mod 64)) = 128 + code c mod 64" "code c mod 64 < 64" by (simp_all add: code_char_of)
    ultimately show ?thesis using that by (auto simp: utf8_char_def Let_def)
  qed
  have "list_all (\<lambda>c. 32 \<le> code c \<and> code c \<notin> {254, 255, 239}) (utf8 w)"
    using w bytes by (induction w) (auto simp: utf8_def list_all_append)
  then have n: "\<And>c. c \<in> set (utf8 w) \<Longrightarrow> 32 \<le> code c \<and> code c \<notin> {254, 255, 239}"
    by (auto simp: list_all_iff)
  have k: "code (CHR 0x00) = 0" "code (CHR 0xFE) = 254" "code (CHR 0xFF) = 255" "code (CHR 0xEF) = 239"
    by (simp_all add: code_def)
  have "CHR 0x00 \<notin> set (utf8 w)" "CHR 0xFE \<notin> set (utf8 w)" "CHR 0xFF \<notin> set (utf8 w)" "CHR 0xEF \<notin> set (utf8 w)"
    using n k by (metis insert_iff le_zero_eq zero_neq_numeral)+
  then have "c \<notin> set (utf8 w @ [CHR 0x0A])" if "c \<in> {CHR 0x00, CHR 0xFE, CHR 0xFF, CHR 0xEF}" for c
    using that by auto
  moreover have "starts_with (utf8 w @ [CHR 0x0A]) (c # p) \<Longrightarrow> c \<in> set (utf8 w @ [CHR 0x0A])" for c p
    unfolding starts_with_iff by (metis append_Cons list.set_intros(1))
  ultimately show ?thesis
    unfolding other_coding_def by (meson in_set_takeD insert_iff)
qed

section \<open>The round trip\<close>

definition line_of :: "pyval \<Rightarrow> string option" where
  \<comment> \<open>\<open>json.dumps(value, ensure_ascii=False).encode("utf-8") + b"\n"\<close>\<close>
  "line_of v = map_option (\<lambda>w. utf8 w @ [CHR 0x0A]) (dumps v)"

lemma loads_line: "json_ok v \<Longrightarrow> \<exists>b. line_of v = Some b \<and> loads b = Loaded v \<and> b \<noteq> []"
proof -
  assume "json_ok v"
  then obtain w where w: "dumps v = Some w" "reads v w" "jfuel v \<le> 2 * length w"
    using reads_dumps by blast
  have s: "ws (w @ [CHR 0x0A]) = w @ [CHR 0x0A]"
    using w(1) by (rule ws_starter [OF dumps_starter])
  have "jval (2 * length (w @ [CHR 0x0A]) + 2) (w @ [CHR 0x0A]) = Good v [CHR 0x0A]"
    using w(2,3) by (intro readsD) auto
  then have "loads_text (w @ [CHR 0x0A]) = Loaded v"
    unfolding loads_text_def s by (simp add: json_space_def)
  moreover have "utf8_decode (utf8 w @ [CHR 0x0A]) = Some (Some (w @ [CHR 0x0A]))"
    by (simp add: utf8_decode_utf8 code_def)
  ultimately have "loads (utf8 w @ [CHR 0x0A]) = Loaded v"
    using other_coding_utf8 [OF printable_dumps [OF w(1)]] by (simp add: loads_def)
  then show ?thesis using w(1) by (simp add: line_of_def)
qed

text \<open>The frame codec: lines of JSON, for the values that \<open>json_ok\<close> admits.\<close>

fun loaded_value :: "loaded \<Rightarrow> pyval option" where
  "loaded_value (Loaded v) = Some v"
| "loaded_value _ = None"

interpretation frames: codec "\<lambda>v. the (line_of v)" "\<lambda>b. loaded_value (loads b)" json_ok
proof
  fix v
  assume "json_ok v"
  then show "loaded_value (loads (the (line_of v))) = Some v" using loads_line [of v] by auto
qed

section \<open>Flat documents with an indentation of two\<close>

text \<open>
  \<open>json.dumps(document, ensure_ascii=False, indent=2)\<close> of a non-empty object whose values are
  not lists or objects: one member on each line.
\<close>

definition member_words :: "(string \<times> pyval) list \<Rightarrow> string list option" where
  "member_words d = map_opt (\<lambda>p. map_option (\<lambda>w. quoted (fst p) @ '': '' @ w) (dumps (snd p))) d"

definition indented :: "(string \<times> pyval) list \<Rightarrow> string option" where
  "indented d =
     map_option (\<lambda>us. ''{'' @ [CHR 0x0A] @ ''  '' @ join (CHR '','' # CHR 0x0A # ''  '') us @ [CHR 0x0A] @ ''}'')
       (member_words d)"

definition flat :: "(string \<times> pyval) list \<Rightarrow> bool" where
  "flat d = (d \<noteq> [] \<and> list_all (\<lambda>p. case snd p of PList _ \<Rightarrow> False | PDict _ \<Rightarrow> False | _ \<Rightarrow> True) d)"

lemma join_long: "length sep \<le> length sep' \<Longrightarrow> length (join sep us) \<le> length (join sep' us)"
  by (induction sep us rule: join.induct) auto

lemma indented_reads:
  assumes "json_ok (PDict d)" and "d \<noteq> []" and "ws tail = []"
  shows "\<exists>w. indented d = Some w \<and> loads_text (w @ tail) = Loaded (PDict d)"
proof -
  have "\<exists>w. dumps (snd p) = Some w \<and> reads (snd p) w \<and> jfuel (snd p) \<le> 2 * length w" if "p \<in> set d" for p
    using that assms(1) by (intro reads_dumps) (auto simp: list_all_iff)
  then obtain us where us: "member_words d = Some us" "list_all2 member_text d us"
    "item_fuel (map snd d) \<le> 2 * sum_list (map length us) + length us"
    using dumps_members [of d] unfolding member_words_def by blast
  let ?sep = "CHR '','' # CHR 0x0A # ''  ''"
  let ?body = "join ?sep us" and ?cl = "[CHR 0x0A] @ ''}'' @ tail"
  let ?w = "''{'' @ [CHR 0x0A] @ ''  '' @ ?body @ [CHR 0x0A] @ ''}''"
  have "item_fuel (map snd d) \<le> 2 * length ?body + 3"
    using us(3) join_length [of us] join_long [of "'', ''" ?sep us] by simp
  then have fuel: "item_fuel (map snd d) \<le> 2 * length (?w @ tail) + 1" by simp
  have cl: "ws ?cl = CHR ''}'' # tail" "delim ?cl" by (simp_all add: json_space_def)
  have p: "jpairs (2 * length (?w @ tail) + 1) (?body @ ?cl) = Good d tail"
    using us(2) assms(2) fuel cl by (intro jpairs_join_sep) (auto simp: json_space_def)
  obtain u us2 p2 ps2 where "us = u # us2" "d = p2 # ps2" "member_text p2 u"
    using us(2) assms(2) by (cases d) (auto simp: list_all2_Cons1)
  then have "starter ?body" by (cases us2) (auto simp: starter_def member_text_def quoted_def)
  then have skip: "ws (?body @ ?cl) = ?body @ ?cl" and st: "?body @ ?cl \<noteq> []" "hd (?body @ ?cl) \<noteq> CHR ''}''"
    using ws_starter [of ?body ?cl] by (auto simp: starter_def)
  have "jval (Suc N) (?w @ tail) = jmap (\<lambda>ps. PDict (foldl (\<lambda>d (k, v). dput k v d) [] ps)) (jpairs N (?body @ ?cl))" for N
  proof -
    obtain c cs where c: "?body @ ?cl = c # cs" "c \<noteq> CHR ''}''" using st by (cases "?body @ ?cl") auto
    then have c': "?body @ CHR 0x0A # CHR ''}'' # tail = c # cs" by simp
    then have "ws (c # cs) = c # cs" using skip by simp
    then show ?thesis using c(2) c' by (simp add: json_space_def del: jpairs.simps)
  qed
  from this [of "2 * length (?w @ tail) + 1"] p
  have "jval (2 * length (?w @ tail) + 2) (?w @ tail) = Good (PDict d) tail"
    using assms(1) by (simp add: foldl_dput)
  moreover have "ws (?w @ tail) = ?w @ tail" by (simp add: json_space_def)
  ultimately have "loads_text (?w @ tail) = Loaded (PDict d)"
    using assms(3) by (simp add: loads_text_def del: jval.simps)
  then show ?thesis using us(1) by (simp add: indented_def)
qed

end
