(* ===== verification/ExecutorProtocol.thy ===== *)
theory ExecutorProtocol
  imports Json
begin

text \<open>
  The executor's wire contract: \<open>src/workflow/executor_protocol.py\<close>, the endpoint and token
  checks of \<open>executor_transport.py\<close>, the client of \<open>executor_client.py\<close> and the counters of
  \<open>executor_observability.py\<close>. An exception is its class and its text. The bytes of a frame
  are written and read by the model of \<open>json\<close>; what the network does is an argument.
\<close>

datatype exc = Exc (exc_class: string) (exc_text: string)

definition protocol_error :: "string \<Rightarrow> exc" where
  "protocol_error m = Exc ''ExecutorProtocolError'' m"

section \<open>Frames\<close>

definition protocol_version :: int where
  "protocol_version = 1"

definition max_frame_bytes :: nat where
  "max_frame_bytes = 1024 * 1024"

definition async_operations :: "string list" where
  "async_operations = [''run_task'', ''stop_task'', ''retry_node'', ''skip_node'', ''recover_owned_tasks'']"

definition readonly_operations :: "string list" where
  "readonly_operations = [''ping'', ''status'']"

definition sync_operations :: "string list" where
  "sync_operations = [''approve_node'', ''ping'', ''shutdown'', ''status'']"

definition operations :: "string list" where
  "operations = async_operations @ sync_operations"

record identity =
  executor_id :: string
  epoch :: string

definition make_identity :: "string \<Rightarrow> string \<Rightarrow> exc + identity" where
  "make_identity i e =
     (if i = [] \<or> e = [] then Inl (protocol_error ''executor identity must be non-empty'')
      else Inr \<lparr>executor_id = i, epoch = e\<rparr>)"

text \<open>\<open>raw.get(key)\<close>, and \<open>==\<close> of what it returns with a string.\<close>

definition got :: "(string \<times> pyval) list \<Rightarrow> string \<Rightarrow> pyval" where
  "got d k = dgetd d k PNone"

text \<open>
  \<open>hmac.compare_digest\<close> on two strings raises \<open>TypeError\<close> unless both are ASCII, which both
  callers turn into a mismatch.
\<close>

definition ascii :: "string \<Rightarrow> bool" where
  "ascii s = list_all (\<lambda>c. code c < 128) s"

definition compare_digest :: "string \<Rightarrow> string \<Rightarrow> exc + bool" where
  "compare_digest a b =
     (if ascii a \<and> ascii b then Inr (a = b)
      else Inl (Exc ''TypeError'' ''comparing strings with non-ASCII characters is not supported''))"

definition matched :: "string \<Rightarrow> string \<Rightarrow> bool" where
  "matched a b = (case compare_digest a b of Inl _ \<Rightarrow> False | Inr m \<Rightarrow> m)"

fun validate_auth_token :: "pyval \<Rightarrow> string \<Rightarrow> exc + unit" where
  "validate_auth_token (PDict d) expected =
     (case got d ''auth_token'' of
        PStr token \<Rightarrow>
          (if expected = [] \<or> \<not> matched token expected then Inl (protocol_error ''auth_token invalid'')
           else Inr ())
      | _ \<Rightarrow> Inl (protocol_error ''auth_token invalid''))"
| "validate_auth_token _ expected = Inl (protocol_error ''request must be an object'')"

fun auth_token_matches :: "pyval \<Rightarrow> string \<Rightarrow> bool" where
  "auth_token_matches (PDict d) expected =
     (expected \<noteq> [] \<and> (case got d ''auth_token'' of PStr token \<Rightarrow> matched token expected | _ \<Rightarrow> False))"
| "auth_token_matches _ expected = False"

fun validate_executor_generation :: "pyval \<Rightarrow> identity \<Rightarrow> exc + unit" where
  "validate_executor_generation (PDict d) ident =
     (if \<not> eq_str (got d ''executor_id'') (executor_id ident) then Inl (protocol_error ''executor_id mismatch'')
      else if \<not> eq_str (got d ''executor_epoch'') (epoch ident) then Inl (protocol_error ''executor_epoch stale'')
      else Inr ())"
| "validate_executor_generation _ ident = Inl (protocol_error ''request must be an object'')"

record request =
  request_id :: string
  operation :: string
  arguments :: "(string \<times> pyval) list"

text \<open>\<open>value in {...}\<close> for a set of strings hashes the value first.\<close>

fun unhashable_text :: "pyval \<Rightarrow> string" where
  "unhashable_text (PList _) = ''unhashable type: '' @ [CHR 0x27] @ ''list'' @ [CHR 0x27]"
| "unhashable_text _ = ''unhashable type: '' @ [CHR 0x27] @ ''dict'' @ [CHR 0x27]"

definition hash_in :: "pyval \<Rightarrow> string list \<Rightarrow> exc + bool" where
  "hash_in v xs =
     (if \<not> hashable v then Inl (Exc ''TypeError'' (unhashable_text v))
      else Inr (case v of PStr s \<Rightarrow> s \<in> set xs | _ \<Rightarrow> False))"

definition validate_arguments :: "(string \<times> pyval) list \<Rightarrow> string \<Rightarrow> string \<Rightarrow> exc + request" where
  "validate_arguments d rid oper =
     (case dgetd d ''arguments'' (PDict []) of
        PDict args \<Rightarrow> Inr \<lparr>request_id = rid, operation = oper, arguments = args\<rparr>
      | _ \<Rightarrow> Inl (protocol_error ''arguments must be an object''))"

definition validate_operation :: "(string \<times> pyval) list \<Rightarrow> string \<Rightarrow> exc + request" where
  "validate_operation d rid =
     bind_err (hash_in (got d ''operation'') operations) (\<lambda>known.
       case got d ''operation'' of
         PStr oper \<Rightarrow> (if known then validate_arguments d rid oper
                       else Inl (protocol_error ''unsupported operation''))
       | _ \<Rightarrow> Inl (protocol_error ''unsupported operation''))"

definition validate_request_id :: "(string \<times> pyval) list \<Rightarrow> exc + string" where
  "validate_request_id d =
     (case got d ''request_id'' of
        PStr rid \<Rightarrow> (if rid = [] then Inl (protocol_error ''request_id must be a non-empty string'') else Inr rid)
      | _ \<Rightarrow> Inl (protocol_error ''request_id must be a non-empty string''))"

fun validate_request :: "pyval \<Rightarrow> identity \<Rightarrow> string \<Rightarrow> exc + request" where
  "validate_request (PDict d) ident token =
     (if \<not> eq_int (got d ''protocol_version'') protocol_version
      then Inl (protocol_error ''unsupported protocol_version'')
      else bind_err (validate_auth_token (PDict d) token) (\<lambda>_.
           bind_err (validate_executor_generation (PDict d) ident) (\<lambda>_.
           bind_err (validate_request_id d) (validate_operation d))))"
| "validate_request _ ident token = Inl (protocol_error ''request must be an object'')"

definition response_frame :: "string \<Rightarrow> pyval \<Rightarrow> string option \<Rightarrow> (string \<times> pyval) list" where
  "response_frame rid res err =
     [(''protocol_version'', PInt protocol_version), (''request_id'', PStr rid),
      (''success'', PBool (err = None)),
      (case err of None \<Rightarrow> (''result'', res) | Some e \<Rightarrow> (''error'', PStr e))]"

section \<open>Endpoints and tokens\<close>

definition loopback_host :: string where
  "loopback_host = ''127.0.0.1''"

record endpoint =
  host :: string
  port :: int

text \<open>The constructor checks the host, the type of the port and its range.\<close>

fun make_endpoint :: "pyval \<Rightarrow> pyval \<Rightarrow> exc + endpoint" where
  "make_endpoint h p =
     (if \<not> eq_str h loopback_host then Inl (protocol_error ''endpoint host must be loopback'')
      else (case p of
              PInt n \<Rightarrow> (if 1 \<le> n \<and> n \<le> 65535 then Inr \<lparr>host = loopback_host, port = n\<rparr>
                         else Inl (protocol_error ''endpoint port is invalid''))
            | _ \<Rightarrow> Inl (protocol_error ''endpoint port is invalid'')))"

fun parse_loopback_endpoint :: "pyval \<Rightarrow> exc + endpoint" where
  "parse_loopback_endpoint (PDict d) =
     (if \<not> eq_str (got d ''host'') loopback_host then Inl (protocol_error ''endpoint host must be loopback'')
      else (case got d ''port'' of
              PInt n \<Rightarrow> make_endpoint (got d ''host'') (PInt n)
            | _ \<Rightarrow> Inl (protocol_error ''endpoint port is invalid'')))"
| "parse_loopback_endpoint _ = Inl (protocol_error ''endpoint must be an object'')"

definition require_auth_token :: "string \<Rightarrow> exc + string" where
  "require_auth_token t = (if t = [] then Inl (protocol_error ''auth_token must be non-empty'') else Inr t)"

text \<open>The environment keeps every variable but the token.\<close>

definition take_auth_token_from_env :: "(string, string) dict \<Rightarrow> (exc + string) \<times> (string, string) dict" where
  "take_auth_token_from_env env =
     (require_auth_token (dgetd env ''DETERMINFLOW_EXECUTOR_AUTH_TOKEN'' []),
      dpop ''DETERMINFLOW_EXECUTOR_AUTH_TOKEN'' env)"

text \<open>\<open>bound_endpoint\<close>: the addresses of the sockets the server is bound to.\<close>

fun bound_endpoint :: "(string \<times> int) list \<Rightarrow> exc + endpoint" where
  "bound_endpoint [] = Inl (Exc ''RuntimeError'' ''loopback server has no bound sockets'')"
| "bound_endpoint ((h, p) # _) =
     (if h \<noteq> loopback_host then Inl (Exc ''RuntimeError'' ''loopback server bound a non-loopback address'')
      else make_endpoint (PStr loopback_host) (PInt p))"

text \<open>The endpoint file, written without spaces, and read back.\<close>

definition endpoint_text :: "endpoint \<Rightarrow> string" where
  "endpoint_text e =
     ''{'' @ quoted ''host'' @ '':'' @ quoted (host e) @ '','' @ quoted ''port'' @ '':'' @ show_int (port e) @ ''}'' @
     [CHR 0x0A]"

datatype file_read = ReadFailed string | Bytes string

text \<open>
  Reading: the file's bytes, decoded and parsed. \<open>None\<close> is a text outside the model.
  The text of a \<open>JSONDecodeError\<close> is that of the library, \<open>msg\<close>.
\<close>

definition read_endpoint :: "(string \<Rightarrow> string) \<Rightarrow> file_read \<Rightarrow> (exc + endpoint) option" where
  "read_endpoint msg f =
     (case f of
        ReadFailed m \<Rightarrow> Some (Inl (Exc ''OSError'' m))
      | Bytes b \<Rightarrow>
          (case utf8_decode b of
             None \<Rightarrow> Some (Inl (Exc ''UnicodeDecodeError'' []))
           | Some None \<Rightarrow> None
           | Some (Some s) \<Rightarrow>
               (case loads_text s of
                  Loaded v \<Rightarrow> Some (parse_loopback_endpoint v)
                | Beyond \<Rightarrow> None
                | _ \<Rightarrow> Some (Inl (Exc ''JSONDecodeError'' (msg b))))))"

text \<open>
  Waiting for the file: what each turn of the loop sees, the child's return code, the file
  (\<open>None\<close>: absent) and whether the deadline has passed. \<open>None\<close>: still waiting at the end.
\<close>

record sighting =
  returncode :: "int option"
  published :: "file_read option"
  too_late :: bool

definition awaited :: "exc \<Rightarrow> bool" where
  "awaited e = (exc_class e \<in> {''OSError'', ''JSONDecodeError'', ''ExecutorProtocolError''})"

fun wait_for_endpoint :: "(string \<Rightarrow> string) \<Rightarrow> exc option \<Rightarrow> sighting list \<Rightarrow> (exc + endpoint) option" where
  "wait_for_endpoint msg last_error [] = None"
| "wait_for_endpoint msg last_error (s # ss) =
     (case returncode s of
        Some rc \<Rightarrow> Some (Inl (Exc ''RuntimeError'' (''Workflow Executor exited during startup: '' @ show_int rc)))
      | None \<Rightarrow>
          (case (case published s of None \<Rightarrow> Some (Inl last_error)
                 | Some f \<Rightarrow> (case read_endpoint msg f of
                      None \<Rightarrow> None
                    | Some (Inr e) \<Rightarrow> Some (Inr (Inr e))
                    | Some (Inl x) \<Rightarrow> Some (if awaited x then Inl (Some x) else Inr (Inl x)))) of
             None \<Rightarrow> None
           | Some (Inr r) \<Rightarrow> Some r
           | Some (Inl le) \<Rightarrow>
               (if too_late s
                then Some (Inl (Exc ''TimeoutError'' (''Workflow Executor endpoint was not published'' @
                       (case le of None \<Rightarrow> [] | Some x \<Rightarrow> '': '' @ exc_text x))))
                else wait_for_endpoint msg le ss)))"

section \<open>Reading a line from a stream\<close>

text \<open>
  \<open>StreamReader.readline\<close> with a limit: a line longer than the limit raises \<open>ValueError\<close>
  (the reader turns its \<open>LimitOverrunError\<close> into one); at the end of the stream it returns
  what is left, possibly nothing.
\<close>

definition stream_limit :: nat where
  "stream_limit = max_frame_bytes + 1"

definition read_line :: "string \<Rightarrow> exc + string \<times> string" where
  "read_line b =
     (let pre = takeWhile (\<lambda>c. c \<noteq> CHR 0x0A) b; post = dropWhile (\<lambda>c. c \<noteq> CHR 0x0A) b
      in case post of
           [] \<Rightarrow> (if stream_limit < length pre
                  then Inl (Exc ''ValueError'' ''Separator is not found, and chunk exceed the limit'')
                  else Inr (pre, []))
         | nl # rest \<Rightarrow> (if stream_limit < length pre
                  then Inl (Exc ''ValueError'' ''Separator is found, but chunk is longer than limit'')
                  else Inr (pre @ [nl], rest)))"

lemma read_line_shorter: "read_line b = Inr (l, r) \<Longrightarrow> l \<noteq> [] \<Longrightarrow> length r < length b"
proof -
  assume a: "read_line b = Inr (l, r)" "l \<noteq> []"
  have "length b = length (takeWhile (\<lambda>c. c \<noteq> CHR 0x0A) b) + length (dropWhile (\<lambda>c. c \<noteq> CHR 0x0A) b)"
    by (metis length_append takeWhile_dropWhile_id)
  with a show ?thesis
    by (auto simp: read_line_def Let_def split: list.splits if_split_asm)
qed

section \<open>The client\<close>

record client =
  c_endpoint :: endpoint
  c_identity :: identity
  c_token :: string

definition new_client :: "endpoint \<Rightarrow> identity \<Rightarrow> string \<Rightarrow> exc + client" where
  "new_client e i t =
     bind_err (require_auth_token t) (\<lambda>t. Inr \<lparr>c_endpoint = e, c_identity = i, c_token = t\<rparr>)"

definition client_update_identity :: "client \<Rightarrow> identity \<Rightarrow> exc + client" where
  "client_update_identity c i =
     (if executor_id i \<noteq> executor_id (c_identity c)
      then Inl (Exc ''ValueError'' ''cannot change executor_id on a live client'')
      else Inr (c\<lparr>c_identity := i\<rparr>))"

text \<open>The endpoint is replaced before the token is checked.\<close>

definition update_transport :: "client \<Rightarrow> endpoint \<Rightarrow> string \<Rightarrow> (exc + unit) \<times> client" where
  "update_transport c e t =
     (case require_auth_token t of
        Inl x \<Rightarrow> (Inl x, c\<lparr>c_endpoint := e\<rparr>)
      | Inr t \<Rightarrow> (Inr (), c\<lparr>c_endpoint := e, c_token := t\<rparr>))"

definition make_request :: "client \<Rightarrow> string \<Rightarrow> string \<Rightarrow> (string \<times> pyval) list \<Rightarrow> (string \<times> pyval) list" where
  "make_request c rid oper args =
     [(''protocol_version'', PInt protocol_version), (''request_id'', PStr rid),
      (''executor_id'', PStr (executor_id (c_identity c))),
      (''executor_epoch'', PStr (epoch (c_identity c))),
      (''auth_token'', PStr (c_token c)), (''operation'', PStr oper), (''arguments'', PDict args)]"

text \<open>\<open>Unavailable v\<close> is \<open>ExecutorUnavailable(str(v))\<close>; \<open>Raised\<close> any other exception.\<close>

datatype reply = Result pyval | Unavailable pyval | Raised exc

definition unwrap :: "pyval \<Rightarrow> string \<Rightarrow> reply" where
  "unwrap frame rid =
     (case frame of
        PDict d \<Rightarrow>
          (if \<not> eq_str (got d ''request_id'') rid
           then Unavailable (PStr ''Executor returned an invalid response'')
           else if \<not> eq_int (got d ''protocol_version'') protocol_version
           then Unavailable (PStr ''Executor protocol version mismatch'')
           else if got d ''success'' \<noteq> PBool True
           then Unavailable (if truthy (got d ''error'') then got d ''error'' else PStr ''Executor request failed'')
           else Result (got d ''result''))
      | _ \<Rightarrow> Unavailable (PStr ''Executor returned an invalid response''))"

text \<open>
  What the network does to a call: no answer within the timeout, an \<open>OSError\<close> on the way,
  or the bytes sent back until the peer closes. \<open>None\<close>: the answer is outside the model.
\<close>

datatype network = NoAnswer | NetError string | Answer string

definition decode_reply :: "string \<Rightarrow> string \<Rightarrow> reply option" where
  "decode_reply raw rid =
     (case loads raw of
        Loaded v \<Rightarrow> Some (unwrap v rid)
      | NotJson \<Rightarrow> Some (Unavailable (PStr ''Executor returned malformed JSON''))
      | NotUtf8 \<Rightarrow> Some (Raised (Exc ''UnicodeDecodeError'' []))
      | Beyond \<Rightarrow> None)"

definition call_answer :: "string \<Rightarrow> string \<Rightarrow> reply option" where
  "call_answer b rid =
     (case read_line b of
        Inl x \<Rightarrow> Some (Raised x)
      | Inr (raw, _) \<Rightarrow>
          (if raw = [] \<or> max_frame_bytes < length raw
           then Some (Unavailable (PStr ''Executor returned an empty or oversized response''))
           else decode_reply raw rid))"

definition call :: "string \<Rightarrow> string \<Rightarrow> network \<Rightarrow> reply option" where
  "call rid oper net =
     (case net of
        NoAnswer \<Rightarrow> Some (Unavailable (PStr (''Workflow Executor request timed out: '' @ oper)))
      | NetError m \<Rightarrow> Some (Unavailable (PStr (''Workflow Executor unavailable: '' @ m)))
      | Answer b \<Rightarrow> call_answer b rid)"

text \<open>
  The blocking call reads chunks until a newline, the end of the stream or too many bytes.
  \<open>env i\<close> is what the i-th \<open>recv\<close> gives, cut to the size asked for.
\<close>

datatype recv = RecvFailed string | Data string

datatype received = Chunks string | TooLong | RecvError string

function recv_loop :: "(nat \<Rightarrow> recv) \<Rightarrow> nat \<Rightarrow> string \<Rightarrow> received" where
  "recv_loop env i chunks =
     (if ends_with chunks [CHR 0x0A] then Chunks chunks
      else (case env i of
              RecvFailed m \<Rightarrow> RecvError m
            | Data w \<Rightarrow>
                (let chunk = take (min 65536 (max_frame_bytes + 1 - length chunks)) w
                 in if chunk = [] then Chunks chunks
                    else if max_frame_bytes < length (chunks @ chunk) then TooLong
                    else recv_loop env (Suc i) (chunks @ chunk))))"
  by pat_completeness auto
termination
proof (relation "measure (\<lambda>(env, i, chunks). max_frame_bytes + 1 - length chunks)", goal_cases)
  case (2 env i chunks w chunk)
  then have "0 < length chunk" "length chunks + length chunk \<le> max_frame_bytes" by auto
  then show ?case by (simp del: length_greater_0_conv)
qed simp

declare recv_loop.simps [simp del]

definition call_sync :: "string \<Rightarrow> (nat \<Rightarrow> recv) \<Rightarrow> reply option" where
  "call_sync rid env =
     (case recv_loop env 0 [] of
        RecvError m \<Rightarrow> Some (Unavailable (PStr (''Workflow Executor unavailable: '' @ m)))
      | TooLong \<Rightarrow> Some (Unavailable (PStr ''Executor response exceeded the frame limit''))
      | Chunks b \<Rightarrow> decode_reply b rid)"

section \<open>Counters\<close>

type_synonym counts = "(string, int) dict"

definition counter_names :: "string list" where
  "counter_names = [''forwarded'', ''reconnect'', ''failure'', ''oversized'', ''malformed_or_stale'']"

definition new_counts :: counts where
  "new_counts = map (\<lambda>n. (n, 0)) counter_names"

definition inc :: "string \<Rightarrow> counts \<Rightarrow> counts" where
  "inc name cs = (case dget cs name of None \<Rightarrow> cs | Some k \<Rightarrow> dput name (k + 1) cs)"

definition reset_counts :: "counts \<Rightarrow> counts" where
  "reset_counts cs = map (\<lambda>(n, _). (n, 0)) cs"

record rpc_counts =
  received :: int
  succeeded :: int
  failed :: int
  protocol_errors :: int
  by_operation :: counts

definition new_rpc_counts :: rpc_counts where
  "new_rpc_counts = \<lparr>received = 0, succeeded = 0, failed = 0, protocol_errors = 0, by_operation = []\<rparr>"

definition record_received :: "string \<Rightarrow> rpc_counts \<Rightarrow> rpc_counts" where
  "record_received oper c =
     c\<lparr>received := received c + 1, by_operation := dput oper (dgetd (by_operation c) oper 0 + 1) (by_operation c)\<rparr>"

definition record_success :: "rpc_counts \<Rightarrow> rpc_counts" where
  "record_success c = c\<lparr>succeeded := succeeded c + 1\<rparr>"

definition record_failure :: "rpc_counts \<Rightarrow> rpc_counts" where
  "record_failure c = c\<lparr>failed := failed c + 1\<rparr>"

definition record_protocol_error :: "rpc_counts \<Rightarrow> rpc_counts" where
  "record_protocol_error c = c\<lparr>protocol_errors := protocol_errors c + 1\<rparr>"

definition rpc_snapshot :: "rpc_counts \<Rightarrow> (string \<times> pyval) list" where
  "rpc_snapshot c =
     [(''received'', PInt (received c)), (''succeeded'', PInt (succeeded c)), (''failed'', PInt (failed c)),
      (''protocol_errors'', PInt (protocol_errors c)),
      (''by_operation'', PDict (map (\<lambda>(k, n). (k, PInt n)) (by_operation c)))]"

section \<open>What a request must be\<close>

lemma eq_str_PStr [simp]: "eq_str (PStr s) t \<longleftrightarrow> s = t"
  by (simp add: eq_str_def)

lemma validate_auth_token_Inr [err_iff]:
  "validate_auth_token (PDict d) t = Inr u \<longleftrightarrow> auth_token_matches (PDict d) t"
  by (auto simp: matched_def split: pyval.splits)

lemma matched_iff: "matched a b \<longleftrightarrow> ascii a \<and> a = b"
  by (auto simp: matched_def compare_digest_def)

lemma auth_token_matches_iff:
  "auth_token_matches v t \<longleftrightarrow> (\<exists>d. v = PDict d \<and> got d ''auth_token'' = PStr t \<and> t \<noteq> [] \<and> ascii t)"
  by (cases v) (auto simp: matched_iff split: pyval.splits)

lemma validate_executor_generation_Inr [err_iff]:
  "validate_executor_generation (PDict d) i = Inr u \<longleftrightarrow>
     got d ''executor_id'' = PStr (executor_id i) \<and> got d ''executor_epoch'' = PStr (epoch i)"
  by (auto simp: eq_str_def)

lemma validate_request_id_Inr [err_iff]:
  "validate_request_id d = Inr rid \<longleftrightarrow> got d ''request_id'' = PStr rid \<and> rid \<noteq> []"
  by (auto simp: validate_request_id_def split: pyval.splits)

lemma validate_operation_Inr [err_iff]:
  "validate_operation d rid = Inr r \<longleftrightarrow>
     request_id r = rid \<and> got d ''operation'' = PStr (operation r) \<and> operation r \<in> set operations \<and>
     dgetd d ''arguments'' (PDict []) = PDict (arguments r)"
  unfolding validate_operation_def hash_in_def validate_arguments_def
  by (cases r) (auto split: pyval.splits)

lemma validate_request_Inr:
  "validate_request raw i t = Inr r \<longleftrightarrow>
     (\<exists>d. raw = PDict d \<and> eq_int (got d ''protocol_version'') 1 \<and>
       got d ''auth_token'' = PStr t \<and> t \<noteq> [] \<and> ascii t \<and>
       got d ''executor_id'' = PStr (executor_id i) \<and> got d ''executor_epoch'' = PStr (epoch i) \<and>
       got d ''request_id'' = PStr (request_id r) \<and> request_id r \<noteq> [] \<and>
       got d ''operation'' = PStr (operation r) \<and> operation r \<in> set operations \<and>
       dgetd d ''arguments'' (PDict []) = PDict (arguments r))"
proof (cases raw)
  case (PDict d)
  then show ?thesis
    by (simp add: err_iff protocol_version_def auth_token_matches_iff del: validate_auth_token.simps
        auth_token_matches.simps validate_executor_generation.simps)
qed simp_all

section \<open>Requests and answers through the wire\<close>

lemma got_simps [simp]:
  "got [] k = PNone" "got ((k', v) # d) k = (if k = k' then v else got d k)"
  by (simp_all add: got_def dgetd_def)

lemma got_dput [simp]: "got (dput k v d) k' = (if k' = k then v else got d k')"
  by (simp add: got_def)

lemma got_dpop [simp]: "got (dpop k d) k' = (if k' = k then PNone else got d k')"
  by (simp add: got_def dgetd_def)

lemma got_request:
  fixes c rid oper args
  defines "d \<equiv> make_request c rid oper args"
  shows "got d ''protocol_version'' = PInt 1" "got d ''request_id'' = PStr rid"
    "got d ''executor_id'' = PStr (executor_id (c_identity c))"
    "got d ''executor_epoch'' = PStr (epoch (c_identity c))"
    "got d ''auth_token'' = PStr (c_token c)" "got d ''operation'' = PStr oper"
    "dgetd d ''arguments'' x = PDict args"
  by (simp_all add: d_def make_request_def protocol_version_def dgetd_def)

text \<open>The server's verdict on the request a client makes.\<close>

lemma validate_made_request:
  assumes "rid \<noteq> []" and "oper \<in> set operations" and "c_token c \<noteq> []" and "ascii (c_token c)"
  shows "validate_request (PDict (make_request c rid oper args)) i t = Inr r \<longleftrightarrow>
           i = c_identity c \<and> t = c_token c \<and> r = \<lparr>request_id = rid, operation = oper, arguments = args\<rparr>"
  using assms unfolding validate_request_Inr
  by (cases r) (auto simp: got_request)

lemma json_ok_request: "json_ok (PDict args) \<Longrightarrow> json_ok (PDict (make_request c rid oper args))"
  by (simp add: make_request_def)

lemma got_response:
  "got (response_frame rid v err) ''protocol_version'' = PInt 1"
  "got (response_frame rid v err) ''request_id'' = PStr rid"
  "got (response_frame rid v err) ''success'' = PBool (err = None)"
  "got (response_frame rid v None) ''result'' = v"
  "got (response_frame rid v (Some e)) ''error'' = PStr e"
  by (simp_all add: response_frame_def protocol_version_def split: option.splits)

lemma unwrap_response:
  "unwrap (PDict (response_frame rid v None)) rid = Result v"
  "e \<noteq> [] \<Longrightarrow> unwrap (PDict (response_frame rid v (Some e))) rid = Unavailable (PStr e)"
  "rid' \<noteq> rid \<Longrightarrow> unwrap (PDict (response_frame rid v err)) rid' =
     Unavailable (PStr ''Executor returned an invalid response'')"
  by (simp_all add: unwrap_def got_response protocol_version_def)

lemma json_ok_response: "json_ok v \<Longrightarrow> json_ok (PDict (response_frame rid v err))"
  by (simp add: response_frame_def split: option.splits)

section \<open>Lines\<close>

lemma newline_free_utf8: "printable w \<Longrightarrow> CHR 0x0A \<notin> set (utf8 w)"
proof (induction w)
  case Nil
  then show ?case by (simp add: utf8_def)
next
  case (Cons c w)
  have "code (CHR 0x0A) = 10" by (simp add: code_def)
  moreover have "code (char_of (192 + code c div 64)) \<noteq> 10" "code (char_of (128 + code c mod 64)) \<noteq> 10"
    using code_lt [of c] by (simp_all add: code_char_of)
  ultimately show ?case using Cons by (auto simp: utf8_def utf8_char_def Let_def)
qed

lemma line_split: "line_of v = Some b \<Longrightarrow> \<exists>u. b = u @ [CHR 0x0A] \<and> CHR 0x0A \<notin> set u"
  using newline_free_utf8 printable_dumps by (fastforce simp: line_of_def)

lemma read_line_of:
  assumes "line_of v = Some b" and "length b \<le> max_frame_bytes"
  shows "read_line (b @ rest) = Inr (b, rest)"
proof -
  obtain u where u: "b = u @ [CHR 0x0A]" "CHR 0x0A \<notin> set u" using line_split [OF assms(1)] by blast
  then have n: "x \<noteq> CHR 0x0A" if "x \<in> set u" for x using that by blast
  then have "takeWhile (\<lambda>c. c \<noteq> CHR 0x0A) (b @ rest) = u" "dropWhile (\<lambda>c. c \<noteq> CHR 0x0A) (b @ rest) = CHR 0x0A # rest"
    by (simp_all add: u(1) takeWhile_append2 dropWhile_append2)
  then show ?thesis using assms(2) u(1) by (simp add: read_line_def stream_limit_def)
qed

lemma recv_loop_cong:
  "(\<And>j. i \<le> j \<Longrightarrow> j \<le> i + (max_frame_bytes - length chunks) \<Longrightarrow> env j = env' j) \<Longrightarrow>
   length chunks \<le> max_frame_bytes \<Longrightarrow> recv_loop env i chunks = recv_loop env' i chunks"
proof (induction env i chunks rule: recv_loop.induct)
  case (1 env i chunks)
  have e: "env i = env' i" using "1.prems" by simp
  show ?case
  proof (cases "env i")
    case (Data w)
    then have d: "env i = Data w" "env' i = Data w" using e by simp_all
    note unfold = recv_loop.simps [of env i chunks] recv_loop.simps [of env' i chunks]
    let ?chunk = "take (min 65536 (max_frame_bytes + 1 - length chunks)) w"
    show ?thesis
    proof (cases "ends_with chunks [CHR 0x0A] \<or> ?chunk = [] \<or> max_frame_bytes < length (chunks @ ?chunk)")
      case True
      then show ?thesis
        by (auto simp: unfold d Let_def simp del: length_append take_eq_Nil)
    next
      case False
      define n where "n = length ?chunk"
      have n: "0 < n" "length chunks + n \<le> max_frame_bytes" "length (chunks @ ?chunk) = length chunks + n"
        using False unfolding n_def by (auto simp del: take_eq_Nil length_take)
      have "recv_loop env (Suc i) (chunks @ ?chunk) = recv_loop env' (Suc i) (chunks @ ?chunk)"
      proof (rule "1.IH" [OF _ Data refl])
        show "env j = env' j" if "Suc i \<le> j" "j \<le> Suc i + (max_frame_bytes - length (chunks @ ?chunk))" for j
          using that n by (intro "1.prems"(1)) (simp_all del: length_append)
      qed (use False in auto)
      then show ?thesis
        using False by (simp add: unfold d Let_def del: length_append take_eq_Nil)
    qed
  next
    case (RecvFailed m)
    then show ?thesis
      using e recv_loop.simps [of env i chunks] recv_loop.simps [of env' i chunks] by simp
  qed
qed

lemma recv_loop_length:
  "recv_loop env i chunks = Chunks b \<Longrightarrow> length chunks \<le> max_frame_bytes \<Longrightarrow> length b \<le> max_frame_bytes"
proof (induction env i chunks rule: recv_loop.induct)
  case (1 env i chunks)
  from "1.prems" show ?case
    by (subst (asm) recv_loop.simps)
      (auto simp: Let_def not_less simp del: length_append take_eq_Nil split: if_split_asm recv.splits dest: "1.IH")
qed

section \<open>The endpoint file\<close>

definition endpoint_ok :: "endpoint \<Rightarrow> bool" where
  "endpoint_ok e = (host e = loopback_host \<and> 1 \<le> port e \<and> port e \<le> 65535)"

lemma make_endpoint_Inr: "make_endpoint h p = Inr e \<longleftrightarrow> endpoint_ok e \<and> h = PStr (host e) \<and> p = PInt (port e)"
  by (cases e) (auto simp: endpoint_ok_def eq_str_def split: pyval.splits)

lemma parse_loopback_endpoint_Inr:
  "parse_loopback_endpoint v = Inr e \<longleftrightarrow>
     endpoint_ok e \<and> (\<exists>d. v = PDict d \<and> got d ''host'' = PStr (host e) \<and> got d ''port'' = PInt (port e))"
proof (cases v)
  case (PDict d)
  show ?thesis
  proof (cases "got d ''port''")
    case (PInt n)
    then show ?thesis
      using PDict make_endpoint_Inr [of "got d ''host''" "PInt n" e]
      by (auto simp: endpoint_ok_def eq_str_def simp del: make_endpoint.simps)
  qed (use PDict in \<open>auto simp: eq_str_def\<close>)
qed auto

lemma quoted_Cons: "quoted s @ r = CHR 0x22 # concat (map esc_char s) @ CHR 0x22 # r"
  by (simp add: quoted_def)

lemma show_int_starter: "ws (show_int i @ r) = show_int i @ r"
  using dumps_starter [of "PInt i" "show_int i"] by (intro ws_starter) simp

lemma jval_quoted: "jval (Suc n) (quoted s @ r) = Good (PStr s) r"
  by (simp add: quoted_Cons jstr_quoted)

lemma ws_quoted: "ws (quoted s @ r) = quoted s @ r"
  by (simp add: quoted_Cons)

lemma jpairs_key:
  "jpairs (Suc n) (quoted k @ CHR '':'' # r) =
     jbind (jval n (ws r)) (\<lambda>v r2. (case ws r2 of [] \<Rightarrow> Bad
       | y # r3 \<Rightarrow> if y = CHR '','' then jmap ((#) (k, v)) (jpairs n (ws r3))
                   else if y = CHR ''}'' then Good [(k, v)] r3 else Bad))"
  by (simp add: quoted_Cons jstr_quoted)

lemma loads_endpoint_text:
  "loads_text (endpoint_text e) = Loaded (PDict [(''host'', PStr (host e)), (''port'', PInt (port e))])"
proof -
  let ?tail = "quoted ''port'' @ CHR '':'' # show_int (port e) @ CHR ''}'' # [CHR 0x0A]"
  have t: "endpoint_text e = CHR ''{'' # quoted ''host'' @ CHR '':'' # quoted (host e) @ CHR '','' # ?tail"
    by (simp add: endpoint_text_def)
  have w: "ws (endpoint_text e) = endpoint_text e" by (simp add: t json_space_def)
  have p: "jpairs (Suc (Suc n)) ?tail = Good [(''port'', PInt (port e))] [CHR 0x0A]" for n
    unfolding jpairs_key show_int_starter by (simp add: jval_int del: jval.simps)
  have "jpairs (Suc (Suc (Suc n))) (quoted ''host'' @ CHR '':'' # quoted (host e) @ CHR '','' # ?tail) =
      Good [(''host'', PStr (host e)), (''port'', PInt (port e))] [CHR 0x0A]" for n
    unfolding jpairs_key ws_quoted jval_quoted using p [of n] ws_quoted [of "''port''"]
    by (simp del: jpairs.simps append_Cons)
  then have "jval (Suc (Suc (Suc (Suc n)))) (endpoint_text e) =
      Good (PDict [(''host'', PStr (host e)), (''port'', PInt (port e))]) [CHR 0x0A]" for n
    unfolding t by (simp add: quoted_Cons del: jpairs.simps)
  moreover obtain n where "2 * length (endpoint_text e) + 2 = Suc (Suc (Suc (Suc n)))"
    by (simp add: t)
  ultimately show ?thesis by (simp add: loads_text_def w json_space_def del: jval.simps)
qed

text \<open>
  The endpoint file is read back as the endpoint that was written, and whatever its
  bytes are, an endpoint that is read is on the loopback host with a port in range.
\<close>

theorem endpoint_file_round_trip:
  "(endpoint_ok e \<longrightarrow> read_endpoint msg (Bytes (utf8 (endpoint_text e))) = Some (Inr e)) \<and>
   (read_endpoint msg f = Some (Inr e') \<longrightarrow> endpoint_ok e')"
proof
  have d: "utf8_decode (utf8 s) = Some (Some s)" for s
    using utf8_decode_utf8 [of s "[]"] by simp
  show "endpoint_ok e \<longrightarrow> read_endpoint msg (Bytes (utf8 (endpoint_text e))) = Some (Inr e)"
  proof
    assume e: "endpoint_ok e"
    have "parse_loopback_endpoint (PDict [(''host'', PStr (host e)), (''port'', PInt (port e))]) = Inr e"
      unfolding parse_loopback_endpoint_Inr using e by simp
    then show "read_endpoint msg (Bytes (utf8 (endpoint_text e))) = Some (Inr e)"
      by (simp add: read_endpoint_def d loads_endpoint_text del: parse_loopback_endpoint.simps)
  qed
  show "read_endpoint msg f = Some (Inr e') \<longrightarrow> endpoint_ok e'"
    by (auto simp: read_endpoint_def parse_loopback_endpoint_Inr simp del: parse_loopback_endpoint.simps
        split: file_read.splits option.splits loaded.splits)
qed

lemma endpoint_file_round_trip_witness:
  "read_endpoint id (Bytes (utf8 (endpoint_text \<lparr>host = loopback_host, port = 8123\<rparr>))) =
     Some (Inr \<lparr>host = loopback_host, port = 8123\<rparr>) \<and> endpoint_ok \<lparr>host = loopback_host, port = 8123\<rparr>"
  using endpoint_file_round_trip [of "\<lparr>host = loopback_host, port = 8123\<rparr>" id "ReadFailed []"]
    endpoint_file_round_trip [of "\<lparr>host = loopback_host, port = 8123\<rparr>" id
      "Bytes (utf8 (endpoint_text \<lparr>host = loopback_host, port = 8123\<rparr>))" "\<lparr>host = loopback_host, port = 8123\<rparr>"]
  by (simp add: endpoint_ok_def)

section \<open>Bounds of the blocking call\<close>

text \<open>
  A blocking call is bounded: it always ends, it looks at no more than 1048577 answers
  of \<open>recv\<close> whatever the peer sends, and what it then decodes is within the frame limit.
\<close>

theorem call_sync_bounded:
  assumes "\<And>i. i \<le> max_frame_bytes \<Longrightarrow> env i = env' i"
  shows "call_sync rid env = call_sync rid env' \<and>
    (recv_loop env 0 [] = Chunks b \<longrightarrow> length b \<le> max_frame_bytes)"
proof -
  have "recv_loop env 0 [] = recv_loop env' 0 []"
    by (rule recv_loop_cong) (auto intro: assms)
  then show ?thesis by (auto simp: call_sync_def dest: recv_loop_length)
qed

lemma call_sync_bounded_witness:
  "call_sync ''r1'' (\<lambda>_. Data ''x'') = call_sync ''r1'' (\<lambda>i. if i \<le> max_frame_bytes then Data ''x'' else RecvFailed [])"
  using call_sync_bounded [of "\<lambda>_. Data ''x''" "\<lambda>i. if i \<le> max_frame_bytes then Data ''x'' else RecvFailed []" "''r1''"]
  by simp

end
