(* ===== verification/ExecutorStatus.thy ===== *)
theory ExecutorStatus
  imports ExecutorProtocol
begin

text \<open>
  The runtime snapshots of the executor pool, \<open>src/workflow/executor_observability.py\<close>. A
  snapshot is a document; what the workflow manager, the pool and its supervisors answer is
  an argument, each answer a value or an exception. A number of seconds is rounded to three
  decimals as \<open>round(x, 3)\<close> does: the nearest decimal, ties to even, then the nearest float.
\<close>

section \<open>Values of a snapshot\<close>

definition safe_reasons :: "string list" where
  "safe_reasons = [''inline'', ''pool_unavailable'', ''identities_unavailable'', ''unreachable'',
     ''epoch_mismatch'', ''identity_mismatch'', ''invalid_status'', ''invalid_snapshot'',
     ''collection_failed'', ''not_ready'']"

definition member_statuses :: "string list" where
  "member_statuses = [''starting'', ''ready'', ''restarting'', ''stopping'', ''stopped'']"

fun nonneg_int :: "pyval \<Rightarrow> int \<Rightarrow> int" where
  "nonneg_int (PInt i) dflt = max 0 i"
| "nonneg_int _ dflt = dflt"

definition round3 :: "int \<Rightarrow> int \<Rightarrow> pyfloat" where
  "round3 m e = float_of_frac (rhe (scale_den (nat m * 1000) e) (2 ^ nat (- e))) 1000"

text \<open>\<open>round(max(0.0, x), 3)\<close> of a float: an infinity stays, everything not above zero is zero.\<close>

fun nonneg_round :: "pyfloat \<Rightarrow> pyfloat" where
  "nonneg_round (Fin m e) = (if 0 < m then round3 m e else Fin 0 0)"
| "nonneg_round PosInf = PosInf"
| "nonneg_round _ = Fin 0 0"

definition float_of_int :: "int \<Rightarrow> exc + pyfloat" where
  "float_of_int i =
     (let f = float_of_frac (nat \<bar>i\<bar>) 1
      in if f = PosInf then Inl (Exc ''OverflowError'' ''int too large to convert to float'')
         else Inr (if i < 0 then float_neg f else f))"

fun nonneg_float :: "pyval \<Rightarrow> exc + pyval" where
  "nonneg_float (PInt i) = bind_err (float_of_int i) (\<lambda>f. Inr (PFloat (nonneg_round f)))"
| "nonneg_float (PFloat f) = Inr (PFloat (nonneg_round f))"
| "nonneg_float _ = Inr (PFloat (Fin 0 0))"

fun safe_reason :: "pyval \<Rightarrow> string option" where
  "safe_reason (PStr s) = (if s \<in> set safe_reasons then Some s else None)"
| "safe_reason _ = None"

fun str_or_blank :: "pyval \<Rightarrow> string" where
  "str_or_blank (PStr s) = s"
| "str_or_blank _ = []"

fun int_or_none :: "pyval \<Rightarrow> pyval" where
  "int_or_none (PInt i) = PInt i"
| "int_or_none _ = PNone"

definition is_number :: "pyval \<Rightarrow> bool" where
  "is_number v = (case v of PInt _ \<Rightarrow> True | PFloat _ \<Rightarrow> True | _ \<Rightarrow> False)"

text \<open>\<open>str.isidentifier\<close> on this range.\<close>

definition ident_start :: "char \<Rightarrow> bool" where
  "ident_start c = (let n = code c in ascii_letter c \<or> n = 95 \<or> n \<in> {170, 181, 186} \<or>
     (192 \<le> n \<and> n \<noteq> 215 \<and> n \<noteq> 247))"

definition ident_char :: "char \<Rightarrow> bool" where
  "ident_char c = (ident_start c \<or> ascii_digit c \<or> code c = 183)"

definition is_identifier :: "string \<Rightarrow> bool" where
  "is_identifier s = (case s of [] \<Rightarrow> False | c # cs \<Rightarrow> ident_start c \<and> list_all ident_char cs)"

type_synonym doc = "(string \<times> pyval) list"

definition mapping :: "pyval \<Rightarrow> doc" where
  "mapping v = (case v of PDict d \<Rightarrow> d | _ \<Rightarrow> [])"

text \<open>The counts by operation: identifiers with a positive count, in the order they come.\<close>

fun sanitize_operations :: "doc \<Rightarrow> doc" where
  "sanitize_operations [] = []"
| "sanitize_operations ((k, v) # d) =
     (if is_identifier k \<and> nonneg_int v 0 \<noteq> 0 then (k, PInt (nonneg_int v 0)) # sanitize_operations d
      else sanitize_operations d)"

definition sanitize_rpc_counts :: "pyval \<Rightarrow> pyval" where
  "sanitize_rpc_counts v =
     (let raw = mapping v
      in PDict [(''received'', PInt (nonneg_int (got raw ''received'') 0)),
           (''succeeded'', PInt (nonneg_int (got raw ''succeeded'') 0)),
           (''failed'', PInt (nonneg_int (got raw ''failed'') 0)),
           (''protocol_errors'', PInt (nonneg_int (got raw ''protocol_errors'') 0)),
           (''by_operation'', PDict (sanitize_operations (mapping (got raw ''by_operation''))))])"

definition sanitize_event_bridge :: "pyval \<Rightarrow> pyval" where
  "sanitize_event_bridge v =
     PDict (map (\<lambda>n. (n, PInt (nonneg_int (got (mapping v) n) 0))) counter_names)"

definition counts_value :: "counts \<Rightarrow> pyval" where
  "counts_value cs = PDict (map (\<lambda>(k, n). (k, PInt n)) cs)"

section \<open>Members\<close>

definition add_reason :: "pyval \<Rightarrow> doc \<Rightarrow> doc" where
  "add_reason v m = (case safe_reason v of None \<Rightarrow> m | Some s \<Rightarrow> dput ''reason'' (PStr s) m)"

definition degraded_member :: "string \<Rightarrow> string \<Rightarrow> pyval \<Rightarrow> string \<Rightarrow> doc" where
  "degraded_member ident ep pid reason =
     add_reason (PStr reason)
       [(''executor_id'', PStr ident), (''epoch'', PStr ep), (''pid'', int_or_none pid),
        (''uptime'', PFloat (Fin 0 0)), (''active_task_count'', PInt 0),
        (''reachable'', PBool False), (''degraded'', PBool True),
        (''rpc'', sanitize_rpc_counts (PDict [])), (''event_bridge'', sanitize_event_bridge (PDict []))]"

text \<open>The last five fields, present when the status is one of the five known ones.\<close>

definition ready_time :: "pyval \<Rightarrow> exc + pyval" where
  "ready_time v = (if is_number v then nonneg_float v else Inr PNone)"

definition add_status :: "doc \<Rightarrow> doc \<Rightarrow> exc + doc" where
  "add_status raw member =
     bind_err (hash_in (got raw ''status'') member_statuses) (\<lambda>known.
       if \<not> known then Inr member
       else bind_err (ready_time (got raw ''last_ready_at'')) (\<lambda>ready_at.
         Inr (dput ''last_ready_at'' ready_at
             (dput ''last_exit_code'' (int_or_none (got raw ''last_exit_code''))
             (dput ''restart_count'' (PInt (nonneg_int (got raw ''restart_count'') 0))
             (dput ''is_ready'' (PBool (truthy (dgetd raw ''is_ready'' (PBool (eq_str (got raw ''status'') ''ready'')))))
             (dput ''status'' (got raw ''status'') member)))))))"

fun sanitize_member_status :: "pyval \<Rightarrow> exc + doc" where
  "sanitize_member_status (PDict raw) =
     bind_err (nonneg_float (dgetd raw ''uptime'' (got raw ''uptime_seconds''))) (\<lambda>uptime.
       add_status raw (add_reason (got raw ''reason'')
         [(''executor_id'', PStr (str_or_blank (got raw ''executor_id''))),
          (''epoch'', PStr (str_or_blank (dgetd raw ''epoch'' (got raw ''executor_epoch'')))),
          (''pid'', int_or_none (got raw ''pid'')), (''uptime'', uptime),
          (''active_task_count'', PInt (nonneg_int (got raw ''active_task_count'') 0)),
          (''reachable'', PBool (truthy (dgetd raw ''reachable'' (PBool True)))),
          (''degraded'', PBool (truthy (dgetd raw ''degraded'' (PBool False)))),
          (''rpc'', sanitize_rpc_counts (got raw ''rpc'')),
          (''event_bridge'', sanitize_event_bridge (got raw ''event_bridge''))]))"
| "sanitize_member_status _ = Inr (degraded_member [] [] PNone ''invalid_status'')"

text \<open>What the manager's \<open>active_task_count\<close> is, and its table of running tasks.\<close>

datatype task_counter = Call "exc + pyval" | Attribute pyval | NoCounter

datatype running_item = Done "exc + bool" | Unset | Other

definition item_active :: "running_item \<Rightarrow> bool" where
  "item_active it = (case it of Done (Inr True) \<Rightarrow> False | Done (Inr False) \<Rightarrow> True | Done (Inl _) \<Rightarrow> False
     | Unset \<Rightarrow> False | Other \<Rightarrow> True)"

definition count_running :: "running_item list option \<Rightarrow> int" where
  "count_running running =
     (case running of None \<Rightarrow> 0 | Some items \<Rightarrow> int (length (filter item_active items)))"

definition count_active_tasks :: "task_counter \<Rightarrow> running_item list option \<Rightarrow> int" where
  "count_active_tasks counter running =
     (case counter of
        Call (Inl _) \<Rightarrow> 0
      | Call (Inr v) \<Rightarrow> nonneg_int v 0
      | Attribute (PInt i) \<Rightarrow> nonneg_int (PInt i) 0
      | _ \<Rightarrow> count_running running)"

text \<open>
  The executor's own snapshot; \<open>elapsed\<close> is the monotonic clock less its value at the start,
  and what is below zero counts as zero when the member is sanitized.
\<close>

definition build_executor_runtime_status ::
    "identity \<Rightarrow> pyfloat \<Rightarrow> int \<Rightarrow> int \<Rightarrow> doc \<Rightarrow> doc \<Rightarrow> exc + doc" where
  "build_executor_runtime_status ident elapsed pid active rpc bridge =
     sanitize_member_status (PDict
       [(''executor_id'', PStr (executor_id ident)), (''epoch'', PStr (epoch ident)), (''pid'', PInt pid),
        (''uptime'', PFloat elapsed), (''active_task_count'', PInt active), (''reachable'', PBool True),
        (''degraded'', PBool False), (''rpc'', PDict rpc), (''event_bridge'', PDict bridge)])"

section \<open>The pool's snapshot\<close>

record config =
  executor_mode :: string
  executor_count :: int

text \<open>\<open>_configured_count\<close>: the pool's \<open>len(executor_ids)\<close>, when it has that attribute.\<close>

definition configured_count :: "config \<Rightarrow> (exc + nat) option \<Rightarrow> pyval \<Rightarrow> int" where
  "configured_count cfg ids fallback =
     (case fallback of
        PInt i \<Rightarrow> if 0 < i then i else (case ids of Some (Inr n) \<Rightarrow> int n | _ \<Rightarrow> executor_count cfg)
      | _ \<Rightarrow> (case ids of Some (Inr n) \<Rightarrow> int n | _ \<Rightarrow> executor_count cfg))"

definition resolved_mode :: "config \<Rightarrow> string option \<Rightarrow> string" where
  "resolved_mode cfg mode =
     (let t = map ascii_lower (strip (case mode of None \<Rightarrow> executor_mode cfg | Some m \<Rightarrow> m))
      in if t = ''inline'' \<or> t = ''process'' then t else ''inline'')"

definition inline_executor_status :: "config \<Rightarrow> pyval \<Rightarrow> doc" where
  "inline_executor_status cfg count =
     [(''mode'', PStr ''inline''), (''degraded'', PBool False), (''available'', PBool False),
      (''reason'', PStr ''inline''), (''configured_count'', PInt (configured_count cfg None count)),
      (''member_count'', PInt 0), (''reachable_count'', PInt 0), (''ready_count'', PInt 0),
      (''members'', PList []), (''event_bridge'', sanitize_event_bridge (PDict []))]"

definition pool_unavailable_status :: "config \<Rightarrow> counts \<Rightarrow> string \<Rightarrow> pyval \<Rightarrow> doc" where
  "pool_unavailable_status cfg bridge reason count =
     [(''mode'', PStr ''process''), (''degraded'', PBool True), (''available'', PBool False),
      (''reason'', PStr (case safe_reason (PStr reason) of None \<Rightarrow> ''pool_unavailable'' | Some s \<Rightarrow> s)),
      (''configured_count'', PInt (configured_count cfg None count)),
      (''member_count'', PInt 0), (''reachable_count'', PInt 0), (''ready_count'', PInt 0),
      (''members'', PList []), (''event_bridge'', sanitize_event_bridge (counts_value bridge))]"

definition flag :: "string \<Rightarrow> doc \<Rightarrow> bool" where
  "flag k m = truthy (got m k)"

definition unwell :: "doc \<Rightarrow> bool" where
  "unwell m = (flag ''degraded'' m \<or> \<not> flag ''reachable'' m)"

fun first_reason :: "doc list \<Rightarrow> string option" where
  "first_reason [] = None"
| "first_reason (m # ms) =
     (if unwell m then (case safe_reason (got m ''reason'') of Some s \<Rightarrow> Some s | None \<Rightarrow> first_reason ms)
      else first_reason ms)"

definition first_degraded_reason :: "doc list \<Rightarrow> string" where
  "first_degraded_reason ms =
     (case first_reason ms of Some s \<Rightarrow> s | None \<Rightarrow> if ms = [] then ''pool_unavailable'' else ''unreachable'')"

definition count_flag :: "string \<Rightarrow> doc list \<Rightarrow> int" where
  "count_flag k ms = int (length (filter (flag k) ms))"

text \<open>A snapshot the pool itself answers, projected onto the public fields.\<close>

definition project_mode :: "doc \<Rightarrow> exc + string" where
  "project_mode raw =
     bind_err (hash_in (got raw ''mode'') [''process'', ''inline'']) (\<lambda>known.
       Inr (if known then str_or_blank (got raw ''mode'') else ''process''))"

definition project_members :: "doc \<Rightarrow> exc + doc list" where
  "project_members raw =
     (case got raw ''members'' of PList xs \<Rightarrow> map_err sanitize_member_status xs | _ \<Rightarrow> Inr [])"

definition project_bridge :: "counts \<Rightarrow> doc \<Rightarrow> pyval" where
  "project_bridge bridge raw =
     sanitize_event_bridge (case got raw ''event_bridge'' of PDict d \<Rightarrow> PDict d | _ \<Rightarrow> counts_value bridge)"

definition project_count :: "doc \<Rightarrow> int \<Rightarrow> int" where
  "project_count raw count =
     (let n = nonneg_int (got raw ''configured_count'') count in if n = 0 then count else n)"

definition project_reason :: "doc \<Rightarrow> bool \<Rightarrow> doc list \<Rightarrow> doc" where
  "project_reason raw degraded ms =
     (case safe_reason (got raw ''reason'') of
        Some s \<Rightarrow> [(''reason'', PStr s)]
      | None \<Rightarrow> if degraded then [(''reason'', PStr (first_degraded_reason ms))] else [])"

fun project_pool_snapshot :: "config \<Rightarrow> counts \<Rightarrow> pyval \<Rightarrow> int \<Rightarrow> exc + doc" where
  "project_pool_snapshot cfg bridge (PDict raw) count =
     bind_err (project_members raw) (\<lambda>ms.
     bind_err (project_mode raw) (\<lambda>mode.
       let degraded = flag ''degraded'' raw \<or> list_ex unwell ms
       in Inr ([(''mode'', PStr mode), (''degraded'', PBool degraded),
            (''available'', PBool (truthy (dgetd raw ''available'' (PBool (mode = ''process''))))),
            (''configured_count'', PInt (project_count raw count)),
            (''member_count'', PInt (int (length ms))), (''reachable_count'', PInt (count_flag ''reachable'' ms)),
            (''ready_count'', PInt (count_flag ''is_ready'' ms)), (''members'', PList (map PDict ms)),
            (''event_bridge'', project_bridge bridge raw)] @ project_reason raw degraded ms)))"
| "project_pool_snapshot cfg bridge _ count =
     Inr (pool_unavailable_status cfg bridge ''invalid_snapshot'' (PInt count))"

section \<open>Members collected one by one\<close>

text \<open>
  A supervisor answers its own status snapshot, when it has one, and its supervision
  snapshot: the attributes that are read. A client answers the \<open>status\<close> call.
\<close>

record sighted =
  s_status :: pyval
  s_is_ready :: pyval
  s_restart_count :: pyval
  s_last_exit_code :: pyval
  s_last_ready_at :: pyval

record supervisor =
  own_status :: "(exc + pyval) option"
  supervision :: "(exc + sighted) option"

record pool =
  p_status :: "(exc + pyval) option"
  p_identities :: "exc + identity list"
  p_executor_ids :: "(exc + nat) option"
  p_member_pids :: "exc + pyval"
  p_supervisor :: "string \<Rightarrow> supervisor option"
  p_status_call :: "(string \<Rightarrow> exc + pyval) option"

type_synonym pids = "(string, int option) dict"

definition pid_value :: "pids \<Rightarrow> string \<Rightarrow> pyval" where
  "pid_value pids i = (case dget pids i of Some (Some p) \<Rightarrow> PInt p | _ \<Rightarrow> PNone)"

fun pids_of :: "doc \<Rightarrow> pids" where
  "pids_of [] = []"
| "pids_of ((k, v) # d) =
     (case v of PInt i \<Rightarrow> (k, Some i) # pids_of d | PNone \<Rightarrow> (k, None) # pids_of d | _ \<Rightarrow> pids_of d)"

definition safe_member_pids :: "pool \<Rightarrow> pids" where
  "safe_member_pids p =
     (case p_member_pids p of Inl _ \<Rightarrow> [] | Inr v \<Rightarrow> (if truthy v then pids_of (mapping v) else []))"

definition readiness_metadata :: "supervisor option \<Rightarrow> exc + doc" where
  "readiness_metadata sv =
     (case Option.bind sv supervision of
        Some (Inr raw) \<Rightarrow>
          bind_err (hash_in (s_status raw) member_statuses) (\<lambda>known.
            if \<not> known then Inr []
            else bind_err (ready_time (s_last_ready_at raw)) (\<lambda>ready_at.
              Inr [(''status'', s_status raw), (''is_ready'', PBool (truthy (s_is_ready raw))),
                (''restart_count'', PInt (nonneg_int (s_restart_count raw) 0)),
                (''last_exit_code'', int_or_none (s_last_exit_code raw)), (''last_ready_at'', ready_at)]))
      | _ \<Rightarrow> Inr [])"

definition merge_readiness :: "doc \<Rightarrow> doc \<Rightarrow> doc" where
  "merge_readiness m readiness = foldl (\<lambda>d (k, v). dput k v d) m readiness"

definition add_pid :: "identity \<Rightarrow> pids \<Rightarrow> doc \<Rightarrow> doc" where
  "add_pid ident pids m =
     (case (got m ''pid'', pid_value pids (executor_id ident)) of
        (PNone, PInt p) \<Rightarrow> dput ''pid'' (PInt p) m
      | _ \<Rightarrow> m)"

definition mark_unwell :: "string \<Rightarrow> identity \<Rightarrow> doc \<Rightarrow> doc" where
  "mark_unwell reason ident m =
     dput ''epoch'' (PStr (epoch ident)) (dput ''reason'' (PStr reason)
       (dput ''degraded'' (PBool True) (dput ''reachable'' (PBool False) m)))"

definition reconcile_member :: "doc \<Rightarrow> identity \<Rightarrow> pids \<Rightarrow> doc" where
  "reconcile_member m ident pids =
     (let m' = add_pid ident pids (dput ''executor_id'' (PStr (executor_id ident)) m)
      in if flag ''executor_id'' m \<and> \<not> eq_str (got m ''executor_id'') (executor_id ident)
         then mark_unwell ''identity_mismatch'' ident m'
         else if flag ''epoch'' m \<and> \<not> eq_str (got m ''epoch'') (epoch ident)
         then mark_unwell ''epoch_mismatch'' ident m'
         else dpop ''reason'' (dput ''degraded'' (PBool False) (dput ''reachable'' (PBool True)
                (dput ''epoch'' (PStr (epoch ident)) m'))))"

text \<open>The member of a supervisor with a status of its own; \<open>None\<close> when there is none or it failed.\<close>

definition supervised_member :: "supervisor option \<Rightarrow> identity \<Rightarrow> pids \<Rightarrow> doc \<Rightarrow> doc option" where
  "supervised_member sv ident pids readiness =
     (case Option.bind sv own_status of
        Some (Inr raw) \<Rightarrow>
          (case sanitize_member_status raw of
             Inr m \<Rightarrow> Some (merge_readiness (reconcile_member m ident pids) readiness)
           | Inl _ \<Rightarrow> None)
      | _ \<Rightarrow> None)"

definition polled_member :: "pool \<Rightarrow> identity \<Rightarrow> pids \<Rightarrow> doc \<Rightarrow> exc + doc" where
  "polled_member p ident pids readiness =
     (let fallback = merge_readiness
        (degraded_member (executor_id ident) (epoch ident) (pid_value pids (executor_id ident)) ''unreachable'')
        readiness
      in if dget readiness ''is_ready'' = Some (PBool False)
         then Inr (dput ''reason'' (PStr ''not_ready'') fallback)
         else (case p_status_call p of
                 None \<Rightarrow> Inr fallback
               | Some ask \<Rightarrow>
                   (case ask (executor_id ident) of
                      Inl _ \<Rightarrow> Inr fallback
                    | Inr raw \<Rightarrow>
                        bind_err (sanitize_member_status raw) (\<lambda>m.
                          Inr (merge_readiness (reconcile_member m ident pids) readiness)))))"

definition collect_member :: "pool \<Rightarrow> identity \<Rightarrow> pids \<Rightarrow> exc + doc" where
  "collect_member p ident pids =
     (let sv = p_supervisor p (executor_id ident)
      in bind_err (readiness_metadata sv) (\<lambda>readiness.
           case supervised_member sv ident pids readiness of
             Some m \<Rightarrow> Inr m
           | None \<Rightarrow> polled_member p ident pids readiness))"

definition gathered_member :: "pool \<Rightarrow> pids \<Rightarrow> identity \<Rightarrow> doc" where
  "gathered_member p pids ident =
     (case collect_member p ident pids of
        Inr m \<Rightarrow> m
      | Inl _ \<Rightarrow> degraded_member (executor_id ident) (epoch ident) (pid_value pids (executor_id ident)) ''unreachable'')"

definition members_snapshot :: "counts \<Rightarrow> int \<Rightarrow> doc list \<Rightarrow> doc" where
  "members_snapshot bridge count ms =
     (let degraded = list_ex unwell ms
      in [(''mode'', PStr ''process''), (''degraded'', PBool degraded), (''available'', PBool True),
          (''configured_count'', PInt count), (''member_count'', PInt (int (length ms))),
          (''reachable_count'', PInt (count_flag ''reachable'' ms)),
          (''ready_count'', PInt (count_flag ''is_ready'' ms)), (''members'', PList (map PDict ms)),
          (''event_bridge'', sanitize_event_bridge (counts_value bridge))] @
         (if degraded then [(''reason'', PStr (first_degraded_reason ms))] else []))"

definition collect_members :: "config \<Rightarrow> counts \<Rightarrow> pool \<Rightarrow> int \<Rightarrow> doc" where
  "collect_members cfg bridge p count =
     (case p_identities p of
        Inl _ \<Rightarrow> pool_unavailable_status cfg bridge ''identities_unavailable'' (PInt count)
      | Inr idents \<Rightarrow> members_snapshot bridge count (map (gathered_member p (safe_member_pids p)) idents))"

text \<open>
  The Controller's snapshot. An exception of the pool's own snapshot, or of its projection,
  falls back to the members; nothing else raises, so the outer handler of
  \<open>collect_workflow_executor_status\<close> has nothing to catch in this model.
\<close>

definition collect_status :: "config \<Rightarrow> counts \<Rightarrow> pool option \<Rightarrow> string option \<Rightarrow> pyval \<Rightarrow> doc" where
  "collect_status cfg bridge p mode count_arg =
     (let count = configured_count cfg (Option.bind p p_executor_ids) count_arg
      in if resolved_mode cfg mode \<noteq> ''process'' then inline_executor_status cfg (PInt count)
         else (case p of
                 None \<Rightarrow> pool_unavailable_status cfg bridge ''pool_unavailable'' (PInt count)
               | Some p \<Rightarrow>
                   (case p_status p of
                      Some (Inr raw) \<Rightarrow>
                        (case project_pool_snapshot cfg bridge raw count of
                           Inr d \<Rightarrow> d
                         | Inl _ \<Rightarrow> collect_members cfg bridge p count)
                    | _ \<Rightarrow> collect_members cfg bridge p count)))"

section \<open>Lemmas on members\<close>

lemma got_add_reason:
  "k \<noteq> ''reason'' \<Longrightarrow> got (add_reason v m) k = got m k"
  "got (add_reason v m) ''reason'' = (case safe_reason v of None \<Rightarrow> got m ''reason'' | Some s \<Rightarrow> PStr s)"
  by (auto simp: add_reason_def split: option.splits)

definition readiness_keys :: "string list" where
  "readiness_keys = [''status'', ''is_ready'', ''restart_count'', ''last_exit_code'', ''last_ready_at'']"

lemma got_merge:
  "k \<notin> set (dkeys readiness) \<Longrightarrow> got (merge_readiness m readiness) k = got m k"
  unfolding merge_readiness_def by (induction readiness arbitrary: m) auto

lemma readiness_keys:
  "readiness_metadata sv = Inr r \<Longrightarrow> set (dkeys r) \<subseteq> set readiness_keys"
  by (auto simp: readiness_metadata_def readiness_keys_def bind_err_Inr_iff
      split: option.splits sum.splits if_split_asm)

lemma flag_merge:
  "readiness_metadata sv = Inr r \<Longrightarrow> k \<notin> set readiness_keys \<Longrightarrow>
    got (merge_readiness m r) k = got m k"
  using readiness_keys by (intro got_merge) blast

lemma got_add_pid: "k \<noteq> ''pid'' \<Longrightarrow> got (add_pid ident pids m) k = got m k"
  by (auto simp: add_pid_def split: prod.splits pyval.splits)

text \<open>The generation a member claims is this one, or it claims none.\<close>

definition same_generation :: "doc \<Rightarrow> identity \<Rightarrow> bool" where
  "same_generation m ident =
     ((\<not> flag ''executor_id'' m \<or> got m ''executor_id'' = PStr (executor_id ident)) \<and>
      (\<not> flag ''epoch'' m \<or> got m ''epoch'' = PStr (epoch ident)))"

lemma got_reconcile:
  "got (reconcile_member m ident pids) ''reachable'' = PBool (same_generation m ident)"
  "got (reconcile_member m ident pids) ''degraded'' = PBool (\<not> same_generation m ident)"
  "got (reconcile_member m ident pids) ''executor_id'' = PStr (executor_id ident)"
  "got (reconcile_member m ident pids) ''epoch'' = PStr (epoch ident)"
  by (auto simp: reconcile_member_def Let_def mark_unwell_def same_generation_def got_add_pid eq_str_def)

lemma reconcile_reason:
  "got (reconcile_member m ident pids) ''reason'' \<in> {PNone, PStr ''identity_mismatch'', PStr ''epoch_mismatch''}"
  "got (reconcile_member m ident pids) ''reason'' = PNone \<longleftrightarrow> same_generation m ident"
  by (auto simp: reconcile_member_def Let_def mark_unwell_def same_generation_def got_add_pid eq_str_def)

lemma got_degraded_member:
  "got (degraded_member i e pid r) ''reachable'' = PBool False"
  "got (degraded_member i e pid r) ''degraded'' = PBool True"
  "got (degraded_member i e pid r) ''executor_id'' = PStr i"
  "got (degraded_member i e pid r) ''epoch'' = PStr e"
  "got (degraded_member i e pid r) ''reason'' = (if r \<in> set safe_reasons then PStr r else PNone)"
  by (simp_all add: degraded_member_def got_add_reason)

lemma not_readiness [simp]:
  "''reachable'' \<notin> set readiness_keys" "''degraded'' \<notin> set readiness_keys"
  "''executor_id'' \<notin> set readiness_keys" "''epoch'' \<notin> set readiness_keys" "''reason'' \<notin> set readiness_keys"
  by (simp_all add: readiness_keys_def)

section \<open>What is reported for a member\<close>

text \<open>
  A settled member carries the identity asked for, is degraded exactly when it is not
  reachable, and gives a public reason when it is not.
\<close>

definition settled :: "doc \<Rightarrow> identity \<Rightarrow> bool" where
  "settled m ident =
     (got m ''executor_id'' = PStr (executor_id ident) \<and> got m ''epoch'' = PStr (epoch ident) \<and>
      (got m ''reachable'' = PBool True \<and> got m ''degraded'' = PBool False \<or>
       got m ''reachable'' = PBool False \<and> got m ''degraded'' = PBool True \<and>
       safe_reason (got m ''reason'') \<noteq> None))"

lemma settled_reconcile: "settled (reconcile_member m ident pids) ident"
proof (cases "same_generation m ident")
  case False
  then have "got (reconcile_member m ident pids) ''reason'' \<in> {PStr ''identity_mismatch'', PStr ''epoch_mismatch''}"
    using reconcile_reason [of m ident pids] by blast
  then show ?thesis using False by (auto simp: settled_def got_reconcile safe_reasons_def)
qed (simp add: settled_def got_reconcile)

lemma settled_degraded: "settled (degraded_member (executor_id ident) (epoch ident) pid ''unreachable'') ident"
  by (simp add: settled_def got_degraded_member safe_reasons_def)

lemma settled_merge:
  "readiness_metadata sv = Inr r \<Longrightarrow> settled m ident \<Longrightarrow> settled (merge_readiness m r) ident"
  by (simp add: settled_def flag_merge)

lemma settled_not_ready:
  "settled m ident \<Longrightarrow> got m ''reachable'' = PBool False \<Longrightarrow> settled (dput ''reason'' (PStr ''not_ready'') m) ident"
  by (auto simp: settled_def safe_reasons_def)

text \<open>What answered for a member: its supervisor, or its status call.\<close>

definition answered :: "pool \<Rightarrow> identity \<Rightarrow> pyval \<Rightarrow> bool" where
  "answered p ident raw =
     (Option.bind (p_supervisor p (executor_id ident)) own_status = Some (Inr raw) \<or>
      (\<exists>ask. p_status_call p = Some ask \<and> ask (executor_id ident) = Inr raw))"

definition vouched :: "pool \<Rightarrow> identity \<Rightarrow> doc \<Rightarrow> bool" where
  "vouched p ident m =
     (settled m ident \<and>
      (flag ''reachable'' m \<longrightarrow>
         (\<exists>raw m0. answered p ident raw \<and> sanitize_member_status raw = Inr m0 \<and> same_generation m0 ident)))"

lemma vouched_answer:
  "answered p ident raw \<Longrightarrow> sanitize_member_status raw = Inr m0 \<Longrightarrow> readiness_metadata sv = Inr r \<Longrightarrow>
    vouched p ident (merge_readiness (reconcile_member m0 ident pids) r)"
  by (auto simp: vouched_def settled_merge settled_reconcile flag_def flag_merge got_reconcile)

lemma vouched_fallback:
  fixes ident pid
  assumes "readiness_metadata sv = Inr r"
  defines "m \<equiv> merge_readiness (degraded_member (executor_id ident) (epoch ident) pid ''unreachable'') r"
  shows "vouched p ident m" and "vouched p ident (dput ''reason'' (PStr ''not_ready'') m)"
proof -
  have m: "settled m ident" "got m ''reachable'' = PBool False"
    unfolding m_def using assms(1) by (simp_all add: settled_merge settled_degraded flag_merge got_degraded_member)
  then show "vouched p ident m" by (simp add: vouched_def flag_def)
  show "vouched p ident (dput ''reason'' (PStr ''not_ready'') m)"
    using settled_not_ready [OF m] m(2) by (simp add: vouched_def flag_def)
qed

lemma vouched_supervised:
  "supervised_member sv ident pids r = Some m \<Longrightarrow> readiness_metadata sv = Inr r \<Longrightarrow>
    sv = p_supervisor p (executor_id ident) \<Longrightarrow> vouched p ident m"
  by (auto simp: supervised_member_def split: option.splits sum.splits
      intro!: vouched_answer simp: answered_def)

lemma vouched_polled:
  assumes "polled_member p ident pids r = Inr m" and "readiness_metadata sv = Inr r"
  shows "vouched p ident m"
  using assms
  by (auto simp: polled_member_def Let_def bind_err_Inr_iff vouched_fallback answered_def
      split: if_split_asm option.splits sum.splits intro!: vouched_answer)

lemma vouched_gathered: "vouched p ident (gathered_member p pids ident)"
proof (cases "collect_member p ident pids")
  case (Inl e)
  then show ?thesis
    by (simp add: gathered_member_def vouched_def settled_degraded flag_def got_degraded_member)
next
  case (Inr m)
  then have "vouched p ident m"
    by (auto simp: collect_member_def Let_def bind_err_Inr_iff split: option.splits
        intro: vouched_supervised vouched_polled)
  then show ?thesis using Inr by (simp add: gathered_member_def)
qed

section \<open>The snapshot\<close>

definition counted :: "doc \<Rightarrow> bool" where
  "counted d =
     (\<exists>ms. got d ''members'' = PList (map PDict ms) \<and> got d ''member_count'' = PInt (int (length ms)) \<and>
       got d ''reachable_count'' = PInt (count_flag ''reachable'' ms) \<and>
       got d ''ready_count'' = PInt (count_flag ''is_ready'' ms) \<and>
       (list_ex unwell ms \<longrightarrow> got d ''degraded'' = PBool True) \<and>
       (got d ''degraded'' = PBool False \<or>
        got d ''degraded'' = PBool True \<and> safe_reason (got d ''reason'') \<noteq> None))"

lemma first_reason_safe: "first_reason ms = Some s \<Longrightarrow> s \<in> set safe_reasons"
proof (induction ms rule: first_reason.induct)
  case (2 m ms)
  have "safe_reason v = Some x \<Longrightarrow> x \<in> set safe_reasons" for v x
    by (cases v) (auto split: if_split_asm)
  with 2 show ?case by (auto split: if_split_asm option.splits)
qed simp

lemma first_degraded_reason_safe: "first_degraded_reason ms \<in> set safe_reasons"
  using first_reason_safe [of ms]
  by (auto simp: first_degraded_reason_def safe_reasons_def split: option.splits)

lemma counted_unavailable: "counted (pool_unavailable_status cfg bridge reason count)"
proof -
  have "safe_reason (PStr (case safe_reason (PStr reason) of None \<Rightarrow> ''pool_unavailable'' | Some s \<Rightarrow> s)) \<noteq> None"
    by (simp add: safe_reasons_def)
  then show ?thesis
    by (auto simp: counted_def pool_unavailable_status_def count_flag_def intro!: exI [of _ "[]"])
qed

lemma counted_inline: "counted (inline_executor_status cfg count)"
  by (auto simp: counted_def inline_executor_status_def count_flag_def intro!: exI [of _ "[]"])

lemma got_append: "got (d @ e) k = (case dget d k of None \<Rightarrow> got e k | Some v \<Rightarrow> v)"
  by (simp add: got_def dgetd_def map_add_def split: option.splits)

lemma counted_project:
  "project_pool_snapshot cfg bridge raw count = Inr d \<Longrightarrow> counted d"
proof (cases raw)
  case (PDict r)
  assume "project_pool_snapshot cfg bridge raw count = Inr d"
  with PDict obtain ms mode where d: "project_members r = Inr ms" "project_mode r = Inr mode"
    and eq: "d = [(''mode'', PStr mode), (''degraded'', PBool (flag ''degraded'' r \<or> list_ex unwell ms)),
            (''available'', PBool (truthy (dgetd r ''available'' (PBool (mode = ''process''))))),
            (''configured_count'', PInt (project_count r count)),
            (''member_count'', PInt (int (length ms))), (''reachable_count'', PInt (count_flag ''reachable'' ms)),
            (''ready_count'', PInt (count_flag ''is_ready'' ms)), (''members'', PList (map PDict ms)),
            (''event_bridge'', project_bridge bridge r)] @ project_reason r (flag ''degraded'' r \<or> list_ex unwell ms) ms"
    by (auto simp: bind_err_Inr_iff Let_def)
  have "safe_reason (got (project_reason r True ms) ''reason'') \<noteq> None"
    using first_degraded_reason_safe [of ms]
    by (cases "got r ''reason''") (auto simp: project_reason_def)
  then show ?thesis
    unfolding counted_def eq by (intro exI [of _ ms]) (auto simp: got_append)
qed (auto simp: counted_unavailable)

lemma counted_members: "counted (members_snapshot bridge count ms)"
  unfolding counted_def members_snapshot_def Let_def
  using first_degraded_reason_safe [of ms] by (intro exI [of _ ms]) (auto simp: got_append)

lemma counted_collected: "counted (collect_members cfg bridge p count)"
  by (simp add: collect_members_def counted_unavailable counted_members split: sum.split)

text \<open>
  Whatever the pool, its supervisors and its executors answer, the Controller's snapshot
  is consistent: the counts are those of the listed members, one unwell member makes the
  whole degraded, and a degraded snapshot always names one of the public reasons.
\<close>

theorem collected_status_consistent: "counted (collect_status cfg bridge p mode count)"
  by (auto simp: collect_status_def Let_def counted_inline counted_unavailable counted_collected
      split: option.splits sum.splits intro: counted_project)

text \<open>
  An answer that is no object is sanitized to a degraded member without identity, reason
  \<open>invalid_status\<close>; reconciliation takes that member for the generation asked for, overwrites its
  verdict, and reports it reachable.
\<close>

lemma null_answer_reachable:
  assumes "sanitize_member_status PNone = Inr m0"
  shows "got m0 ''reason'' = PStr ''invalid_status'' \<and> flag ''degraded'' m0 \<and>
    flag ''reachable'' (reconcile_member m0 ident pids) \<and> \<not> flag ''degraded'' (reconcile_member m0 ident pids)"
proof -
  have m0: "m0 = degraded_member [] [] PNone ''invalid_status''" using assms by simp
  have "got m0 ''executor_id'' = PStr []" "got m0 ''epoch'' = PStr []" "got m0 ''degraded'' = PBool True"
    "got m0 ''reason'' = PStr ''invalid_status''"
    by (simp_all add: m0 degraded_member_def got_add_reason safe_reasons_def)
  then show ?thesis by (simp add: flag_def got_reconcile same_generation_def)
qed

text \<open>
  C35. In every snapshot collected member by member, a member is reported reachable only when its
  supervisor or its status call answered for it and that answer names no other executor id and no
  other epoch than those asked for (an answer that names none passes, see
  \<open>null_answer_reachable\<close>); the member then carries the identity asked for and is not degraded.
\<close>

theorem reachable_member_vouched:
  assumes "p_identities p = Inr idents"
    and "got (collect_members cfg bridge p count) ''members'' = PList ms"
    and "PDict m \<in> set ms" and "flag ''reachable'' m"
  shows "\<exists>ident\<in>set idents. \<exists>raw m0. answered p ident raw \<and> sanitize_member_status raw = Inr m0 \<and>
    same_generation m0 ident \<and> got m ''executor_id'' = PStr (executor_id ident) \<and>
    got m ''epoch'' = PStr (epoch ident) \<and> \<not> flag ''degraded'' m"
proof -
  from assms obtain ident where i: "ident \<in> set idents" "m = gathered_member p (safe_member_pids p) ident"
    by (auto simp: collect_members_def members_snapshot_def Let_def)
  with vouched_gathered [of p ident "safe_member_pids p"] assms(4) show ?thesis
    by (intro bexI [OF _ i(1)]) (auto simp: vouched_def settled_def flag_def)
qed

text \<open>A pool of one executor whose status call answers with the live generation.\<close>

definition one_executor :: identity where
  "one_executor = \<lparr>executor_id = ''e1'', epoch = ''g7''\<rparr>"

definition one_pool :: pool where
  "one_pool = \<lparr>p_status = None, p_identities = Inr [one_executor], p_executor_ids = Some (Inr 1),
     p_member_pids = Inr (PDict [(''e1'', PInt 42)]), p_supervisor = (\<lambda>_. None),
     p_status_call = Some (\<lambda>_. Inr (PDict [(''executor_id'', PStr ''e1''), (''epoch'', PStr ''g7'')]))\<rparr>"

definition one_member :: doc where
  "one_member = gathered_member one_pool (safe_member_pids one_pool) one_executor"

lemma one_member_reachable: "got one_member ''reachable'' = PBool True"
  by (simp add: one_member_def one_pool_def one_executor_def gathered_member_def collect_member_def
      readiness_metadata_def supervised_member_def polled_member_def merge_readiness_def got_reconcile
      add_status_def hash_in_def same_generation_def flag_def got_add_reason Let_def dgetd_def)

lemma reachable_member_vouched_witness:
  "\<exists>ident\<in>{one_executor}. \<exists>raw m0. answered one_pool ident raw \<and> sanitize_member_status raw = Inr m0 \<and>
    same_generation m0 ident \<and> got one_member ''executor_id'' = PStr (executor_id ident) \<and>
    got one_member ''epoch'' = PStr (epoch ident) \<and> \<not> flag ''degraded'' one_member"
  using reachable_member_vouched [of one_pool "[one_executor]" "\<lparr>executor_mode = ''process'', executor_count = 1\<rparr>"
      new_counts 1 "[PDict one_member]" one_member] one_member_reachable
  by (simp add: collect_members_def members_snapshot_def got_append one_pool_def flag_def Let_def
      one_member_def [unfolded one_pool_def])

end
