(* ===== verification/ExecutorServer.thy ===== *)
theory ExecutorServer
  imports ExecutorStatus
begin

text \<open>
  The executor process's RPC server, \<open>src/workflow/executor_server.py\<close>, and the one-way event
  bridge to the Controller, \<open>src/workflow/executor_events.py\<close>. A connection is the stream of
  bytes the peer sends; the workflow manager, the event handler and the sockets are arguments
  that say what each call to them gives. \<open>None\<close> is a frame outside the model of \<open>json\<close>.
\<close>

section \<open>The RPC server\<close>

text \<open>
  A method of the manager returns a value or an awaitable, whose result is given; the answer
  of \<open>_dispatch\<close> is a value, or (\<open>None\<close>) an awaitable, which cannot be written as JSON.
\<close>

datatype returned = Plain pyval | Awaitable "exc + pyval"

record manager =
  call_method :: "string \<Rightarrow> (string \<times> pyval) list \<Rightarrow> exc + returned"
  recover :: "identity \<Rightarrow> exc + pyval"
  tasks :: task_counter
  running :: "running_item list option"

record server =
  sv_identity :: identity
  sv_token :: string
  sv_pid :: int
  sv_elapsed :: pyfloat
  sv_bridge :: counts
  sv_shutdown :: bool \<comment> \<open>a shutdown callback is installed\<close>
  rpc :: rpc_counts
  shutdowns :: nat \<comment> \<open>how often it was called\<close>

definition runtime_status :: "manager \<Rightarrow> server \<Rightarrow> exc + doc" where
  "runtime_status m s =
     build_executor_runtime_status (sv_identity s) (sv_elapsed s) (sv_pid s)
       (count_active_tasks (tasks m) (running m)) (rpc_snapshot (rpc s))
       (map (\<lambda>(k, n). (k, PInt n)) (sv_bridge s))"

definition finish_call :: "string \<Rightarrow> exc + returned \<Rightarrow> exc + pyval option" where
  "finish_call oper r =
     bind_err r (\<lambda>result.
       if oper \<in> set async_operations then
         (case result of
            Plain _ \<Rightarrow> Inl (Exc ''TypeError'' (oper @ '' must return an awaitable''))
          | Awaitable w \<Rightarrow> bind_err w (\<lambda>v. Inr (Some v)))
       else (case result of Plain v \<Rightarrow> Inr (Some v) | Awaitable _ \<Rightarrow> Inr None))"

definition dispatch :: "manager \<Rightarrow> server \<Rightarrow> string \<Rightarrow> (string \<times> pyval) list \<Rightarrow> (exc + pyval option) \<times> server" where
  "dispatch m s oper args =
     (if oper = ''ping'' then
        (Inr (Some (PDict [(''executor_id'', PStr (executor_id (sv_identity s))),
           (''executor_epoch'', PStr (epoch (sv_identity s))), (''pid'', PInt (sv_pid s))])), s)
      else if oper = ''status'' then (bind_err (runtime_status m s) (\<lambda>d. Inr (Some (PDict d))), s)
      else if oper = ''shutdown'' then
        (Inr (Some (PDict [(''accepted'', PBool True)])),
         if sv_shutdown s then s\<lparr>shutdowns := shutdowns s + 1\<rparr> else s)
      else if oper = ''recover_owned_tasks'' then
        (bind_err (recover m (sv_identity s)) (\<lambda>v. Inr (Some v)), s)
      else (finish_call oper (call_method m oper args), s))"

text \<open>A \<open>status\<close> request counts as succeeded before the snapshot is built.\<close>

definition serve :: "manager \<Rightarrow> server \<Rightarrow> request \<Rightarrow> (exc + pyval option) \<times> server" where
  "serve m s r =
     (let s1 = s\<lparr>rpc := record_received (operation r) (rpc s)\<rparr>
      in if operation r = ''status'' then
           (let s2 = s1\<lparr>rpc := record_success (rpc s1)\<rparr>
            in (bind_err (runtime_status m s2) (\<lambda>d. Inr (Some (PDict d))), s2))
         else
           (case dispatch m s1 (operation r) (arguments r) of
              (Inl e, s2) \<Rightarrow> (Inl e, s2)
            | (Inr v, s2) \<Rightarrow> (Inr v, s2\<lparr>rpc := record_success (rpc s2)\<rparr>)))"

definition claimed_id :: "pyval \<Rightarrow> string" where
  "claimed_id v = (case v of PDict d \<Rightarrow> (case got d ''request_id'' of PStr rid \<Rightarrow> rid | _ \<Rightarrow> ''unknown'') | _ \<Rightarrow> ''unknown'')"

text \<open>The \<open>except\<close> clauses, by the class of the exception.\<close>

definition fail_reply :: "string \<Rightarrow> exc \<Rightarrow> server \<Rightarrow> doc option \<times> server" where
  "fail_reply rid e s =
     (if exc_class e \<in> {''ExecutorProtocolError'', ''JSONDecodeError''}
      then (Some (response_frame rid PNone (Some (exc_text e))), s\<lparr>rpc := record_protocol_error (rpc s)\<rparr>)
      else (Some (response_frame rid PNone (Some (exc_class e @ '': '' @ exc_text e))),
            s\<lparr>rpc := record_failure (rpc s)\<rparr>))"

definition answer :: "manager \<Rightarrow> server \<Rightarrow> pyval \<Rightarrow> doc option \<times> server" where
  "answer m s v =
     (case validate_request v (sv_identity s) (sv_token s) of
        Inl e \<Rightarrow> fail_reply (claimed_id v) e s
      | Inr r \<Rightarrow>
          (case serve m s r of
             (Inl e, s') \<Rightarrow> fail_reply (request_id r) e s'
           | (Inr None, s') \<Rightarrow> (None, s')
           | (Inr (Some res), s') \<Rightarrow> (Some (response_frame (request_id r) res None), s')))"

text \<open>
  One connection: the first line of the stream, its value, the answer. The result is the
  response frame (no frame when its result cannot be written, which raises outside the
  handlers). \<open>late\<close>: no line within the timeout. \<open>msg\<close> is the text of a \<open>JSONDecodeError\<close>.
\<close>

definition handle_connection ::
    "(string \<Rightarrow> string) \<Rightarrow> manager \<Rightarrow> server \<Rightarrow> bool \<Rightarrow> string \<Rightarrow> (doc option \<times> server) option" where
  "handle_connection msg m s late b =
     (if late then Some (fail_reply ''unknown'' (Exc ''TimeoutError'' []) s)
      else (case read_line b of
              Inl e \<Rightarrow> Some (fail_reply ''unknown'' e s)
            | Inr (raw, _) \<Rightarrow>
                (if raw = [] \<or> max_frame_bytes < length raw
                 then Some (fail_reply ''unknown'' (protocol_error ''request frame is empty or oversized'') s)
                 else (case loads raw of
                         Beyond \<Rightarrow> None
                       | NotJson \<Rightarrow> Some (fail_reply ''unknown'' (Exc ''JSONDecodeError'' (msg raw)) s)
                       | NotUtf8 \<Rightarrow> Some (fail_reply ''unknown'' (Exc ''UnicodeDecodeError'' (msg raw)) s)
                       | Loaded v \<Rightarrow> Some (answer m s v)))))"

section \<open>The event receiver\<close>

record receiver =
  rv_identity :: identity
  rv_token :: string
  rv_counts :: counts
  rv_controller :: counts \<comment> \<open>the Controller's counters, shared by its receivers\<close>
  delivered :: "(string \<times> (string \<times> pyval) list) list"

definition new_receiver :: "identity \<Rightarrow> string \<Rightarrow> counts \<Rightarrow> exc + receiver" where
  "new_receiver i t shared =
     bind_err (require_auth_token t) (\<lambda>t.
       Inr \<lparr>rv_identity = i, rv_token = t, rv_counts = new_counts, rv_controller = shared, delivered = []\<rparr>)"

definition note_event :: "string \<Rightarrow> receiver \<Rightarrow> receiver" where
  "note_event n r = r\<lparr>rv_counts := inc n (rv_counts r), rv_controller := inc n (rv_controller r)\<rparr>"

definition receiver_update_identity :: "receiver \<Rightarrow> identity \<Rightarrow> exc + receiver" where
  "receiver_update_identity r i =
     (if executor_id i \<noteq> executor_id (rv_identity r)
      then Inl (Exc ''ValueError'' ''cannot change event bridge executor_id'')
      else Inr (r\<lparr>rv_identity := i\<rparr>))"

definition receiver_update_token :: "receiver \<Rightarrow> string \<Rightarrow> exc + receiver" where
  "receiver_update_token r t = bind_err (require_auth_token t) (\<lambda>t. Inr (r\<lparr>rv_token := t\<rparr>))"

text \<open>The conjunction stops at the first false conjunct; the channel is hashed.\<close>

fun valid :: "receiver \<Rightarrow> pyval \<Rightarrow> exc + bool" where
  "valid r (PDict d) =
     (if eq_int (got d ''protocol_version'') protocol_version \<and> auth_token_matches (PDict d) (rv_token r) \<and>
         eq_str (got d ''executor_id'') (executor_id (rv_identity r)) \<and>
         eq_str (got d ''executor_epoch'') (epoch (rv_identity r))
      then bind_err (hash_in (got d ''channel'') [''chat'', ''events'']) (\<lambda>known.
             Inr (known \<and> is_dict (got d ''event'')))
      else Inr False)"
| "valid r _ = Inr False"

definition deliver :: "(string \<Rightarrow> doc \<Rightarrow> exc option) \<Rightarrow> receiver \<Rightarrow> pyval \<Rightarrow> exc option \<times> receiver" where
  "deliver handler r v =
     (let d = mapping v; ch = str_or_blank (got d ''channel''); ev = mapping (got d ''event'')
      in case handler ch ev of
           Some e \<Rightarrow> (Some e, r)
         | None \<Rightarrow> (None, note_event ''forwarded'' (r\<lparr>delivered := delivered r @ [(ch, ev)]\<rparr>)))"

text \<open>What a line that was read does: go on, or leave the loop with an exception.\<close>

definition receive_line :: "(string \<Rightarrow> doc \<Rightarrow> exc option) \<Rightarrow> receiver \<Rightarrow> string \<Rightarrow> (exc option \<times> receiver) option" where
  "receive_line handler r raw =
     (case loads raw of
        Beyond \<Rightarrow> None
      | NotJson \<Rightarrow> Some (None, note_event ''malformed_or_stale'' r)
      | NotUtf8 \<Rightarrow> Some (Some (Exc ''UnicodeDecodeError'' []), r)
      | Loaded v \<Rightarrow>
          Some (case valid r v of
                  Inl e \<Rightarrow> (Some e, r)
                | Inr False \<Rightarrow> (None, note_event ''malformed_or_stale'' r)
                | Inr True \<Rightarrow> deliver handler r v))"

text \<open>
  The loop of a connection. Its \<open>except asyncio.LimitOverrunError\<close> catches nothing that
  \<open>readline\<close> raises: a line beyond the limit ends the connection with the \<open>ValueError\<close>.
\<close>

function receive :: "(string \<Rightarrow> doc \<Rightarrow> exc option) \<Rightarrow> receiver \<Rightarrow> string \<Rightarrow> (exc option \<times> receiver) option" where
  "receive handler r b =
     (case read_line b of
        Inl e \<Rightarrow> Some (Some e, r)
      | Inr (raw, rest) \<Rightarrow>
          (if raw = [] then Some (None, r)
           else if max_frame_bytes < length raw then Some (None, note_event ''oversized'' r)
           else (case receive_line handler r raw of
                   None \<Rightarrow> None
                 | Some (Some e, r') \<Rightarrow> Some (Some e, r')
                 | Some (None, r') \<Rightarrow> receive handler r' rest)))"
  by pat_completeness auto
termination
  by (relation "measure (\<lambda>(handler, r, b). length b)") (auto dest: read_line_shorter)

declare receive.simps [simp del]

section \<open>The event forwarder\<close>

record forwarder =
  fw_identity :: identity
  fw_token :: string
  fw_counts :: counts
  writer :: bool \<comment> \<open>a stream writer is held\<close>
  connected_once :: bool

definition new_forwarder :: "identity \<Rightarrow> string \<Rightarrow> exc + forwarder" where
  "new_forwarder i t =
     bind_err (require_auth_token t) (\<lambda>t.
       Inr \<lparr>fw_identity = i, fw_token = t, fw_counts = new_counts, writer = False, connected_once = False\<rparr>)"

definition envelope :: "forwarder \<Rightarrow> string \<Rightarrow> (string \<times> pyval) list \<Rightarrow> (string \<times> pyval) list" where
  "envelope f channel event =
     [(''protocol_version'', PInt protocol_version), (''executor_id'', PStr (executor_id (fw_identity f))),
      (''executor_epoch'', PStr (epoch (fw_identity f))), (''auth_token'', PStr (fw_token f)),
      (''channel'', PStr channel), (''event'', PDict event)]"

definition count_event :: "string \<Rightarrow> forwarder \<Rightarrow> forwarder" where
  "count_event n f = f\<lparr>fw_counts := inc n (fw_counts f)\<rparr>"

definition close_writer :: "forwarder \<Rightarrow> forwarder" where
  "close_writer f = f\<lparr>writer := False\<rparr>"

text \<open>
  One attempt: whether the held writer is closing, whether connecting works, whether writing
  and draining works. Everything that fails is an \<open>OSError\<close>.
\<close>

record attempt =
  closing :: bool
  connects :: bool
  sends :: bool

definition connect :: "attempt \<Rightarrow> forwarder \<Rightarrow> forwarder option" where
  "connect a f =
     (if writer f \<and> \<not> closing a then Some f
      else if connects a
      then Some ((if connected_once f then count_event ''reconnect'' f else f)\<lparr>writer := True, connected_once := True\<rparr>)
      else None)"

definition try_send :: "attempt \<Rightarrow> forwarder \<Rightarrow> bool \<times> forwarder" where
  "try_send a f =
     (case connect a f of
        None \<Rightarrow> (False, close_writer f)
      | Some f' \<Rightarrow> if sends a then (True, count_event ''forwarded'' f') else (False, close_writer f'))"

definition send_payload :: "attempt \<Rightarrow> attempt \<Rightarrow> forwarder \<Rightarrow> bool \<times> forwarder" where
  "send_payload a1 a2 f =
     (case try_send a1 f of
        (True, f') \<Rightarrow> (True, f')
      | (False, f') \<Rightarrow>
          (case try_send a2 f' of
             (True, f'') \<Rightarrow> (True, f'')
           | (False, f'') \<Rightarrow> (False, count_event ''failure'' f'')))"

text \<open>
  \<open>line\<close> is the serialisation, \<open>None\<close> when it raises; the result is the payload when it went
  out on the wire.
\<close>

definition emit :: "(pyval \<Rightarrow> string option) \<Rightarrow> attempt \<Rightarrow> attempt \<Rightarrow> string \<Rightarrow> doc \<Rightarrow> forwarder \<Rightarrow>
    string option \<times> forwarder" where
  "emit line a1 a2 channel event f =
     (case line (PDict (envelope f channel event)) of
        None \<Rightarrow> (None, count_event ''malformed_or_stale'' f)
      | Some payload \<Rightarrow>
          (if max_frame_bytes < length payload then (None, count_event ''oversized'' f)
           else (case send_payload a1 a2 f of
                   (ok, f') \<Rightarrow> (if ok then Some payload else None, f'))))"

section \<open>Calls end to end\<close>

lemma claimed_made: "claimed_id (PDict (make_request c rid oper args)) = rid"
  by (simp add: claimed_id_def got_request)

lemma handle_line:
  assumes "json_ok v" and "line_of v = Some b" and "length b \<le> max_frame_bytes"
  shows "handle_connection msg m s False b = Some (answer m s v)"
proof -
  have "read_line b = Inr (b, [])" using read_line_of [OF assms(2,3), of "[]"] by simp
  moreover have "loads b = Loaded v" "b \<noteq> []" using loads_line [OF assms(1)] assms(2) by auto
  ultimately show ?thesis using assms(3) by (simp add: handle_connection_def)
qed

lemma call_line:
  assumes "json_ok v" and "line_of v = Some b" and "length b \<le> max_frame_bytes"
  shows "call rid oper (Answer b) = Some (unwrap v rid)"
proof -
  have "read_line b = Inr (b, [])" using read_line_of [OF assms(2,3), of "[]"] by simp
  moreover have "loads b = Loaded v" "b \<noteq> []" using loads_line [OF assms(1)] assms(2) by auto
  ultimately show ?thesis using assms(3) by (simp add: call_def call_answer_def decode_reply_def)
qed

text \<open>
  C32. A call goes through the wire and back: the line a client writes for an operation is
  read by a server of its generation as that request, and the line the server writes for the
  result is returned by the call as that result, whatever the values, when both lines fit.
\<close>

theorem call_round_trip:
  assumes "c_identity c = sv_identity s" and "c_token c = sv_token s" and "sv_token s \<noteq> []" and "ascii (sv_token s)"
    and "rid \<noteq> []" and "oper \<in> set operations" and "json_ok (PDict args)"
    and "line_of (PDict (make_request c rid oper args)) = Some b" and "length b \<le> max_frame_bytes"
    and "serve m s \<lparr>request_id = rid, operation = oper, arguments = args\<rparr> = (Inr (Some v), s')"
    and "json_ok v" and "line_of (PDict (response_frame rid v None)) = Some b'" and "length b' \<le> max_frame_bytes"
  shows "handle_connection msg m s False b = Some (Some (response_frame rid v None), s') \<and>
    call rid oper (Answer b') = Some (Result v)"
proof
  have "validate_request (PDict (make_request c rid oper args)) (sv_identity s) (sv_token s) =
      Inr \<lparr>request_id = rid, operation = oper, arguments = args\<rparr>"
    using assms by (subst validate_made_request) auto
  then have "answer m s (PDict (make_request c rid oper args)) = (Some (response_frame rid v None), s')"
    using assms(10) by (simp add: answer_def)
  then show "handle_connection msg m s False b = Some (Some (response_frame rid v None), s')"
    using handle_line [OF json_ok_request [OF assms(7)] assms(8,9)] by simp
  show "call rid oper (Answer b') = Some (Result v)"
    using call_line [OF json_ok_response [OF assms(11)] assms(12,13)] by (simp add: unwrap_response)
qed

text \<open>
  C33. A client of another generation is refused: when the identities or the tokens differ,
  the server runs nothing, only its count of protocol errors moves, and the call ends in
  \<open>ExecutorUnavailable\<close>.
\<close>

theorem stale_client_refused:
  assumes "c_identity c \<noteq> sv_identity s \<or> c_token c \<noteq> sv_token s" and "c_token c \<noteq> []" and "ascii (c_token c)"
    and "rid \<noteq> []" and "oper \<in> set operations" and "json_ok (PDict args)"
    and "line_of (PDict (make_request c rid oper args)) = Some b" and "length b \<le> max_frame_bytes"
  shows "\<exists>e. e \<noteq> [] \<and>
    handle_connection msg m s False b =
      Some (Some (response_frame rid PNone (Some e)), s\<lparr>rpc := record_protocol_error (rpc s)\<rparr>) \<and>
    (\<forall>b'. line_of (PDict (response_frame rid PNone (Some e))) = Some b' \<longrightarrow> length b' \<le> max_frame_bytes \<longrightarrow>
       call rid oper (Answer b') = Some (Unavailable (PStr e)))"
proof -
  let ?q = "PDict (make_request c rid oper args)"
  have "validate_request ?q (sv_identity s) (sv_token s) \<noteq> Inr r" for r
    using validate_made_request [OF assms(4,5,2,3), of args "sv_identity s" "sv_token s" r] assms(1) by auto
  then obtain x where x: "validate_request ?q (sv_identity s) (sv_token s) = Inl x"
    by (cases "validate_request ?q (sv_identity s) (sv_token s)") auto
  have "exc_class x = ''ExecutorProtocolError'' \<and> exc_text x \<noteq> []"
    using x assms(4,5)
    by (auto simp: bind_err_Inl_iff validate_request_id_def validate_operation_def hash_in_def validate_arguments_def
        got_request protocol_version_def protocol_error_def split: if_split_asm)
  then have a: "answer m s ?q = (Some (response_frame rid PNone (Some (exc_text x))), s\<lparr>rpc := record_protocol_error (rpc s)\<rparr>)"
    and e: "exc_text x \<noteq> []"
    using x by (simp_all add: answer_def fail_reply_def claimed_made)
  have "call rid oper (Answer b') = Some (Unavailable (PStr (exc_text x)))"
    if "line_of (PDict (response_frame rid PNone (Some (exc_text x)))) = Some b'" "length b' \<le> max_frame_bytes" for b'
    using call_line [OF _ that] json_ok_response [of PNone] e by (simp add: unwrap_response)
  then show ?thesis
    using a e handle_line [OF json_ok_request [OF assms(6)] assms(7,8)] by auto
qed

section \<open>The server's counters\<close>

definition rpc_ok :: "rpc_counts \<Rightarrow> bool" where
  "rpc_ok c =
     (0 \<le> succeeded c \<and> 0 \<le> failed c \<and> 0 \<le> protocol_errors c \<and>
      distinct (dkeys (by_operation c)) \<and> set (dkeys (by_operation c)) \<subseteq> set operations \<and>
      list_all (\<lambda>p. 0 < snd p) (by_operation c) \<and>
      received c = sum_list (map snd (by_operation c)) \<and>
      received c \<le> succeeded c + failed c + protocol_errors c)"

lemma sum_dput_count:
  "sum_list (map snd (dput k (dgetd d k 0 + 1) d)) = sum_list (map snd d) + (1::int)"
  by (induction d) (auto simp: dgetd_def)

lemma dput_all: "list_all P d \<Longrightarrow> P (k, v) \<Longrightarrow> list_all P (dput k v d)"
  by (induction k v d rule: dput.induct) auto

lemma dgetd_pos: "list_all (\<lambda>p. 0 < snd p) d \<Longrightarrow> 0 \<le> dgetd d k (0::int)"
  by (induction d) (auto simp: dgetd_def)

text \<open>One received call is still to be counted as ended.\<close>

definition rpc_open :: "rpc_counts \<Rightarrow> bool" where
  "rpc_open c = (rpc_ok (c\<lparr>succeeded := succeeded c + 1\<rparr>))"

lemma rpc_steps:
  "rpc_ok c \<Longrightarrow> oper \<in> set operations \<Longrightarrow> rpc_open (record_received oper c)"
  "rpc_open c \<Longrightarrow> 0 \<le> succeeded c \<Longrightarrow> rpc_ok (record_success c) \<and> rpc_ok (record_failure c) \<and> rpc_ok (record_protocol_error c)"
  "rpc_ok c \<Longrightarrow> rpc_ok (record_failure c) \<and> rpc_ok (record_protocol_error c)"
    apply (auto simp: rpc_ok_def rpc_open_def record_received_def sum_dput_count dput_all dgetd_pos
      add_nonneg_pos distinct_dput)[1]
   apply (auto simp: rpc_ok_def rpc_open_def record_success_def record_failure_def record_protocol_error_def)[2]
  done

lemma rpc_fail_reply:
  "rpc_ok (rpc s) \<or> rpc_open (rpc s) \<and> 0 \<le> succeeded (rpc s) \<Longrightarrow> rpc_ok (rpc (snd (fail_reply rid e s)))"
  using rpc_steps(2,3) [of "rpc s"] by (auto simp: fail_reply_def)

lemma dispatch_rpc: "dispatch m s oper args = (r, s') \<Longrightarrow> rpc s' = rpc s"
  by (auto simp: dispatch_def split: if_split_asm)

lemma serve_rpc:
  assumes "rpc_ok (rpc s)" and "operation r \<in> set operations" and "serve m s r = (res, s')"
  shows "(\<exists>v. res = Inr v) \<and> rpc_ok (rpc s') \<or>
    (\<exists>e. res = Inl e) \<and> (rpc_ok (rpc s') \<or> rpc_open (rpc s') \<and> 0 \<le> succeeded (rpc s'))"
proof -
  let ?c = "record_received (operation r) (rpc s)"
  have o: "rpc_open ?c" "0 \<le> succeeded ?c"
    using rpc_steps(1) [OF assms(1,2)] assms(1) by (auto simp: rpc_ok_def record_received_def)
  then have "rpc_ok (record_success ?c)" using rpc_steps(2) by blast
  with o assms(3) show ?thesis
    by (auto simp: serve_def Let_def dest: dispatch_rpc split: if_split_asm prod.splits sum.splits;
        metis sum.exhaust)
qed

lemma answer_rpc: "rpc_ok (rpc s) \<Longrightarrow> rpc_ok (rpc (snd (answer m s v)))"
proof (cases "validate_request v (sv_identity s) (sv_token s)")
  case (Inr r)
  assume ok: "rpc_ok (rpc s)"
  have "operation r \<in> set operations" using Inr validate_request_Inr by blast
  moreover obtain res s' where s: "serve m s r = (res, s')" by force
  ultimately have "(\<exists>v. res = Inr v) \<and> rpc_ok (rpc s') \<or>
      (\<exists>e. res = Inl e) \<and> (rpc_ok (rpc s') \<or> rpc_open (rpc s') \<and> 0 \<le> succeeded (rpc s'))"
    using serve_rpc [OF ok] by blast
  then show ?thesis
    using Inr s rpc_fail_reply [of s'] by (cases res) (auto simp: answer_def split: option.splits)
qed (simp add: answer_def rpc_fail_reply)

text \<open>The server as a state machine: one step is one connection.\<close>

record connection =
  by_manager :: manager
  is_late :: bool
  bytes :: string
  json_msg :: "string \<Rightarrow> string"

definition server_step :: "server \<Rightarrow> connection \<Rightarrow> server" where
  "server_step s c =
     (case handle_connection (json_msg c) (by_manager c) s (is_late c) (bytes c) of
        None \<Rightarrow> s
      | Some (_, s') \<Rightarrow> s')"

lemma server_step_rpc: "rpc_ok (rpc s) \<Longrightarrow> rpc_ok (rpc (server_step s c))"
  using answer_rpc [of s "by_manager c"] rpc_fail_reply [of s]
  by (auto simp: server_step_def handle_connection_def split: option.splits sum.splits prod.splits
      loaded.splits if_split_asm) (metis snd_conv)+

interpretation rpc_server: machine "\<lambda>s. rpc s = new_rpc_counts" server_step "\<lambda>s. rpc_ok (rpc s)"
proof
  show "rpc_ok (rpc s)" if "rpc s = new_rpc_counts" for s :: server
    using that by (simp add: new_rpc_counts_def rpc_ok_def)
qed (rule server_step_rpc)

text \<open>
  However many connections a server has handled, and whatever bytes they carried, its
  counters agree: the calls by operation are allowlisted operations and add up to the calls
  received, and every call received has been counted as succeeded, failed or a protocol error.
\<close>

theorem rpc_counts_consistent:
  "rpc s = new_rpc_counts \<Longrightarrow> rpc_ok (rpc (fold (\<lambda>c t. server_step t c) cs s))"
  by (rule rpc_server.run_from_init)

text \<open>A server of the generation of \<open>one_executor\<close>, and a manager that only counts.\<close>

definition fresh_server :: server where
  "fresh_server = \<lparr>sv_identity = one_executor, sv_token = ''k3y'', sv_pid = 42, sv_elapsed = Fin 0 0,
     sv_bridge = new_counts, sv_shutdown = True, rpc = new_rpc_counts, shutdowns = 0\<rparr>"

definition idle_manager :: manager where
  "idle_manager = \<lparr>call_method = (\<lambda>oper args. Inr (Awaitable (Inr (PBool True)))), recover = (\<lambda>_. Inr (PInt 0)),
     tasks = Attribute (PInt 0), running = None\<rparr>"

lemma rpc_counts_consistent_witness:
  "rpc_ok (rpc (fold (\<lambda>c t. server_step t c)
     [\<lparr>by_manager = idle_manager, is_late = False, bytes = ''{}'', json_msg = id\<rparr>,
      \<lparr>by_manager = idle_manager, is_late = True, bytes = [], json_msg = id\<rparr>] fresh_server))"
  by (rule rpc_counts_consistent) (simp add: fresh_server_def)

definition one_client :: client where
  "one_client = \<lparr>c_endpoint = \<lparr>host = loopback_host, port = 8123\<rparr>, c_identity = one_executor, c_token = ''k3y''\<rparr>"

section \<open>Every event is accounted for\<close>

definition cnt :: "string \<Rightarrow> counts \<Rightarrow> int" where
  "cnt n cs = dgetd cs n 0"

lemma cnt_inc [simp]: "n \<in> set (dkeys cs) \<Longrightarrow> cnt m (inc n cs) = cnt m cs + (if m = n then 1 else 0)"
  by (auto simp: cnt_def inc_def dgetd_def split: option.splits dest: dget_None_iff [THEN iffD1])

lemma dkeys_inc [simp]: "dkeys (inc n cs) = dkeys cs"
proof (cases "dget cs n")
  case (Some k)
  then have "n \<in> fst ` set cs" by (metis dget_None_iff option.distinct(1))
  then show ?thesis using Some by (simp add: inc_def dkeys_dput)
qed (simp add: inc_def)

definition settled_events :: "forwarder \<Rightarrow> int" where
  "settled_events f =
     cnt ''forwarded'' (fw_counts f) + cnt ''failure'' (fw_counts f) +
     cnt ''oversized'' (fw_counts f) + cnt ''malformed_or_stale'' (fw_counts f)"

definition forwarder_ok :: "forwarder \<Rightarrow> bool" where
  "forwarder_ok f = (dkeys (fw_counts f) = counter_names \<and> (writer f \<longrightarrow> connected_once f))"

lemma count_event_ok [simp]: "forwarder_ok (count_event n f) = forwarder_ok f"
  by (simp add: forwarder_ok_def count_event_def)

lemma cnt_count_event:
  "forwarder_ok f \<Longrightarrow> n \<in> set counter_names \<Longrightarrow>
    cnt m (fw_counts (count_event n f)) = cnt m (fw_counts f) + (if m = n then 1 else 0)"
  by (simp add: forwarder_ok_def count_event_def)

lemma close_writer_ok [simp]: "forwarder_ok f \<Longrightarrow> forwarder_ok (close_writer f)"
  "fw_counts (close_writer f) = fw_counts f"
  by (simp_all add: close_writer_def forwarder_ok_def)

lemma connect_ok:
  assumes "connect a f = Some f'" and "forwarder_ok f"
  shows "forwarder_ok f'" and "m \<noteq> ''reconnect'' \<Longrightarrow> cnt m (fw_counts f') = cnt m (fw_counts f)"
proof -
  have "forwarder_ok (count_event ''reconnect'' f)" using assms(2) by simp
  then show "forwarder_ok f'"
    using assms by (auto simp: connect_def forwarder_ok_def split: if_split_asm)
  show "m \<noteq> ''reconnect'' \<Longrightarrow> cnt m (fw_counts f') = cnt m (fw_counts f)"
    using assms by (auto simp: connect_def cnt_count_event counter_names_def split: if_split_asm)
qed

lemma try_send_ok:
  assumes "try_send a f = (ok, f')" and "forwarder_ok f" and "m \<noteq> ''reconnect''"
  shows "forwarder_ok f'"
    and "cnt m (fw_counts f') = cnt m (fw_counts f) + (if ok \<and> m = ''forwarded'' then 1 else 0)"
proof -
  have n: "''forwarded'' \<in> set counter_names" by (simp add: counter_names_def)
  show "forwarder_ok f'"
    using assms by (auto simp: try_send_def dest: connect_ok(1) split: option.splits if_split_asm)
  show "cnt m (fw_counts f') = cnt m (fw_counts f) + (if ok \<and> m = ''forwarded'' then 1 else 0)"
    using assms n
    by (auto simp: try_send_def connect_ok cnt_count_event split: option.splits if_split_asm)
qed

lemma send_payload_ok:
  assumes "send_payload a1 a2 f = (ok, f')" and "forwarder_ok f" and "m \<noteq> ''reconnect''"
  shows "forwarder_ok f'"
    and "cnt m (fw_counts f') = cnt m (fw_counts f) +
      (if m = (if ok then ''forwarded'' else ''failure'') then 1 else 0)"
proof -
  obtain ok1 f1 where 1: "try_send a1 f = (ok1, f1)" by force
  obtain ok2 f2 where 2: "try_send a2 f1 = (ok2, f2)" by force
  have n: "''failure'' \<in> set counter_names" by (simp add: counter_names_def)
  note t1 = try_send_ok [OF 1 assms(2,3)]
  note t2 = try_send_ok [OF 2 t1(1) assms(3)]
  show "forwarder_ok f'"
    using assms 1 2 t1(1) t2(1) by (auto simp: send_payload_def split: bool.splits)
  show "cnt m (fw_counts f') = cnt m (fw_counts f) +
      (if m = (if ok then ''forwarded'' else ''failure'') then 1 else 0)"
    using assms 1 2 t1 t2 n by (auto simp: send_payload_def cnt_count_event split: bool.splits)
qed

text \<open>
  The forwarder accounts for every event once: an \<open>emit\<close> adds exactly one to its counts
  of forwarded, failed, oversized and unserialisable events together, to the forwarded ones
  exactly when the payload went out, and keeps its counters and its writer consistent.
\<close>

theorem emit_accounted_once:
  assumes "forwarder_ok f" and "emit line a1 a2 channel event f = (out, f')"
  shows "forwarder_ok f' \<and> settled_events f' = settled_events f + 1 \<and>
    (out \<noteq> None \<longleftrightarrow> cnt ''forwarded'' (fw_counts f') = cnt ''forwarded'' (fw_counts f) + 1)"
proof (cases "line (PDict (envelope f channel event))")
  case None
  then show ?thesis
    using assms by (auto simp: emit_def settled_events_def cnt_count_event counter_names_def)
next
  case (Some payload)
  obtain ok f1 where s: "send_payload a1 a2 f = (ok, f1)" by force
  have e: "(out, f') = (if max_frame_bytes < length payload then (None, count_event ''oversized'' f)
      else (if ok then Some payload else None, f1))"
    using assms(2) s by (auto simp: emit_def Some split: if_split_asm)
  show ?thesis
    using assms(1) e send_payload_ok [OF s assms(1)]
    by (auto simp: settled_events_def cnt_count_event counter_names_def split: if_split_asm)
qed

lemma emit_accounted_once_witness:
  "\<exists>f f' out. new_forwarder one_executor ''k3y'' = Inr f \<and>
     emit line_of \<lparr>closing = False, connects = False, sends = False\<rparr> \<lparr>closing = False, connects = True, sends = True\<rparr>
       ''chat'' [] f = (out, f') \<and> forwarder_ok f' \<and> settled_events f' = settled_events f + 1"
proof -
  obtain f where f: "new_forwarder one_executor ''k3y'' = Inr f" "forwarder_ok f"
    by (simp add: new_forwarder_def require_auth_token_def forwarder_ok_def new_counts_def counter_names_def)
  then show ?thesis using emit_accounted_once [OF f(2)] by (metis surj_pair)
qed

section \<open>Events through the bridge\<close>

definition live :: "forwarder \<Rightarrow> receiver \<Rightarrow> bool" where
  "live f r =
     (fw_identity f = rv_identity r \<and> fw_token f = rv_token r \<and> rv_token r \<noteq> [] \<and> ascii (rv_token r))"

lemma got_envelope:
  "got (envelope f ch ev) ''protocol_version'' = PInt 1" "got (envelope f ch ev) ''auth_token'' = PStr (fw_token f)"
  "got (envelope f ch ev) ''executor_id'' = PStr (executor_id (fw_identity f))"
  "got (envelope f ch ev) ''executor_epoch'' = PStr (epoch (fw_identity f))"
  "got (envelope f ch ev) ''channel'' = PStr ch" "got (envelope f ch ev) ''event'' = PDict ev"
  by (simp_all add: envelope_def protocol_version_def)

lemma valid_envelope:
  "valid r (PDict (envelope f ch ev)) = Inr (live f r \<and> ch \<in> {''chat'', ''events''})"
  by (auto simp: got_envelope protocol_version_def matched_iff hash_in_def live_def)

text \<open>A handler that takes every event, and the receiver after it took these.\<close>

definition took :: "receiver \<Rightarrow> (string \<times> doc) list \<Rightarrow> receiver" where
  "took r evs = foldl (\<lambda>r e. note_event ''forwarded'' (r\<lparr>delivered := delivered r @ [e]\<rparr>)) r evs"

lemma took_delivered: "delivered (took r evs) = delivered r @ evs"
  unfolding took_def by (induction evs arbitrary: r) (simp_all add: note_event_def)

lemma receive_event:
  assumes "live f r" and "ch \<in> {''chat'', ''events''}" and "json_ok (PDict ev)"
    and "line_of (PDict (envelope f ch ev)) = Some b" and "length b \<le> max_frame_bytes"
    and "handler ch ev = None"
  shows "receive handler r (b @ rest) = receive handler (took r [(ch, ev)]) rest"
proof -
  have j: "json_ok (PDict (envelope f ch ev))" using assms(3) by (simp add: envelope_def)
  then have "loads b = Loaded (PDict (envelope f ch ev))" "b \<noteq> []" using loads_line [OF j] assms(4) by auto
  moreover have "valid r (PDict (envelope f ch ev)) = Inr True" using assms(1,2) unfolding valid_envelope by simp
  moreover have "deliver handler r (PDict (envelope f ch ev)) = (None, took r [(ch, ev)])"
    using assms(6) by (simp add: deliver_def mapping_def got_envelope took_def)
  ultimately show ?thesis
    using read_line_of [OF assms(4,5), of rest] assms(5)
    by (subst receive.simps) (simp add: receive_line_def del: valid.simps)
qed

lemma live_took: "live f (took r evs) = live f r"
  unfolding took_def by (induction evs arbitrary: r) (simp_all add: live_def note_event_def)

definition sendable :: "forwarder \<Rightarrow> string \<times> doc \<Rightarrow> string \<Rightarrow> bool" where
  "sendable f e b =
     (fst e \<in> {''chat'', ''events''} \<and> json_ok (PDict (snd e)) \<and>
      line_of (PDict (envelope f (fst e) (snd e))) = Some b \<and> length b \<le> max_frame_bytes)"

text \<open>
  Events arrive complete and in order: when the lines of a live forwarder's events are
  what a connection carries, the receiver ends without an exception, having handed exactly
  these events, in the order they were written, to a handler that takes them.
\<close>

theorem events_arrive_in_order:
  assumes "live f r" and "list_all2 (sendable f) evs bs" and "\<forall>e\<in>set evs. handler (fst e) (snd e) = None"
  shows "\<exists>r'. receive handler r (concat bs) = Some (None, r') \<and> delivered r' = delivered r @ evs"
proof -
  have "receive handler r (concat bs) = Some (None, took r evs)"
    using assms
  proof (induction evs arbitrary: r bs)
    case Nil
    then show ?case by (subst receive.simps) (simp add: read_line_def took_def)
  next
    case (Cons e evs)
    then obtain b bs' where b: "bs = b # bs'" "sendable f e b" "list_all2 (sendable f) evs bs'"
      by (auto simp: list_all2_Cons1)
    have "receive handler r (b @ concat bs') = receive handler (took r [e]) (concat bs')"
      using receive_event [of f r "fst e" "snd e" b handler "concat bs'"] b(2) Cons.prems
      by (simp add: sendable_def)
    also have "\<dots> = Some (None, took (took r [e]) evs)"
      using Cons.prems b(3) by (intro Cons.IH) (auto simp: live_took)
    finally show ?case using b(1) by (simp add: took_def)
  qed
  then show ?thesis using took_delivered by blast
qed

text \<open>What a connection may hand to the handler: the event of an authentic line of it.\<close>

definition authentic :: "receiver \<Rightarrow> string \<Rightarrow> string \<times> doc \<Rightarrow> bool" where
  "authentic r b e =
     (\<exists>raw d. (\<exists>pre post. b = pre @ raw @ post) \<and> loads raw = Loaded (PDict d) \<and>
        got d ''auth_token'' = PStr (rv_token r) \<and> rv_token r \<noteq> [] \<and>
        got d ''executor_id'' = PStr (executor_id (rv_identity r)) \<and>
        got d ''executor_epoch'' = PStr (epoch (rv_identity r)) \<and>
        fst e \<in> {''chat'', ''events''} \<and> got d ''channel'' = PStr (fst e) \<and> got d ''event'' = PDict (snd e))"

lemma read_line_split: "read_line b = Inr (raw, rest) \<Longrightarrow> b = raw @ rest"
proof -
  assume a: "read_line b = Inr (raw, rest)"
  have b: "takeWhile (\<lambda>c. c \<noteq> CHR 0x0A) b @ dropWhile (\<lambda>c. c \<noteq> CHR 0x0A) b = b"
    by (rule takeWhile_dropWhile_id)
  show ?thesis
  proof (cases "dropWhile (\<lambda>c. c \<noteq> CHR 0x0A) b")
    case Nil
    have "raw = takeWhile (\<lambda>c. c \<noteq> CHR 0x0A) b" "rest = []"
      using a [unfolded read_line_def Let_def Nil list.case] by (auto split: if_split_asm)
    then show ?thesis using b unfolding Nil by metis
  next
    case (Cons c cs)
    then have "raw = takeWhile (\<lambda>c. c \<noteq> CHR 0x0A) b @ [c]" "rest = cs"
      using a [unfolded read_line_def Let_def Cons list.case] by (auto split: if_split_asm)
    then show ?thesis using b [unfolded Cons] by simp
  qed
qed

lemma hash_in_True: "hash_in v xs = Inr True \<longleftrightarrow> (\<exists>s\<in>set xs. v = PStr s)"
  by (cases v) (auto simp: hash_in_def)

lemma is_dict_iff: "is_dict v \<longleftrightarrow> (\<exists>d. v = PDict d)"
  by (cases v) auto

lemma valid_PDict:
  "valid r (PDict d) = Inr True \<longleftrightarrow>
     eq_int (got d ''protocol_version'') protocol_version \<and> auth_token_matches (PDict d) (rv_token r) \<and>
     eq_str (got d ''executor_id'') (executor_id (rv_identity r)) \<and>
     eq_str (got d ''executor_epoch'') (epoch (rv_identity r)) \<and>
     hash_in (got d ''channel'') [''chat'', ''events''] = Inr True \<and> is_dict (got d ''event'')"
  by (cases "hash_in (got d ''channel'') [''chat'', ''events'']") (auto simp del: auth_token_matches.simps)

lemma valid_True:
  assumes "valid r v = Inr True"
  shows "\<exists>d ch ev. v = PDict d \<and> got d ''auth_token'' = PStr (rv_token r) \<and> rv_token r \<noteq> [] \<and>
     got d ''executor_id'' = PStr (executor_id (rv_identity r)) \<and>
     got d ''executor_epoch'' = PStr (epoch (rv_identity r)) \<and>
     ch \<in> {''chat'', ''events''} \<and> got d ''channel'' = PStr ch \<and> got d ''event'' = PDict ev"
proof -
  obtain d where d: "v = PDict d" using assms by (cases v) auto
  note c = assms [unfolded d valid_PDict auth_token_matches_iff hash_in_True is_dict_iff eq_str_def]
  from c obtain ch ev where "ch \<in> set [''chat'', ''events'']" "got d ''channel'' = PStr ch" "got d ''event'' = PDict ev"
    by blast
  then show ?thesis using c d by (intro exI [of _ d] exI [of _ ch] exI [of _ ev]) simp
qed

lemma receive_line_delivers:
  assumes "receive_line handler r raw = Some (e, r')" and "b = pre @ raw @ post"
  shows "rv_identity r' = rv_identity r \<and> rv_token r' = rv_token r \<and>
    (\<exists>evs. delivered r' = delivered r @ evs \<and> list_all (authentic r b) evs)"
proof (cases "loads raw")
  case (Loaded v)
  show ?thesis
  proof (cases "valid r v = Inr True")
    case True
    then obtain d ch ev where d: "v = PDict d" "got d ''auth_token'' = PStr (rv_token r)" "rv_token r \<noteq> []"
      "got d ''executor_id'' = PStr (executor_id (rv_identity r))" "got d ''executor_epoch'' = PStr (epoch (rv_identity r))"
      "ch \<in> {''chat'', ''events''}" "got d ''channel'' = PStr ch" "got d ''event'' = PDict ev"
      using valid_True by blast
    then have "authentic r b (ch, ev)"
      unfolding authentic_def using Loaded assms(2) by (intro exI [of _ raw] exI [of _ d]) auto
    then show ?thesis
      using assms(1) Loaded True d
      by (auto simp: receive_line_def deliver_def mapping_def note_event_def split: option.splits
          intro!: exI [of _ "[(ch, ev)]"])
  qed (use assms(1) Loaded in \<open>auto simp: receive_line_def note_event_def split: sum.splits bool.splits\<close>)
qed (use assms(1) in \<open>auto simp: receive_line_def note_event_def\<close>)

lemma authentic_part:
  "list_all (authentic r' b') evs \<Longrightarrow> rv_identity r' = rv_identity r \<Longrightarrow> rv_token r' = rv_token r \<Longrightarrow>
    b = pre @ b' \<Longrightarrow> list_all (authentic r b) evs"
proof -
  assume e: "list_all (authentic r' b') evs" "rv_identity r' = rv_identity r" "rv_token r' = rv_token r" "b = pre @ b'"
  have "authentic r b x" if "authentic r' b' x" for x
  proof -
    from that obtain raw d p q where x: "b' = p @ raw @ q" "loads raw = Loaded (PDict d)"
        "got d ''auth_token'' = PStr (rv_token r)" "rv_token r \<noteq> []"
        "got d ''executor_id'' = PStr (executor_id (rv_identity r))"
        "got d ''executor_epoch'' = PStr (epoch (rv_identity r))"
        "fst x \<in> {''chat'', ''events''}" "got d ''channel'' = PStr (fst x)" "got d ''event'' = PDict (snd x)"
      unfolding authentic_def e(2,3) by blast
    have "b = (pre @ p) @ raw @ q" using x(1) e(4) by simp
    then show ?thesis
      unfolding authentic_def using x(2-) by blast
  qed
  then show ?thesis using e(1) by (auto simp: list_all_iff)
qed

text \<open>
  C34. Only authentic events reach the Controller: whatever bytes a peer sends, and however
  the connection ends, every event handed to the handler is the event of a line of those
  bytes that carries the live token, the executor's id and its live epoch, on one of the two
  channels.
\<close>

theorem delivered_events_authentic:
  assumes "receive handler r b = Some (e, r')"
  shows "\<exists>evs. delivered r' = delivered r @ evs \<and> list_all (authentic r b) evs"
  using assms
proof (induction handler r b arbitrary: r' rule: receive.induct)
  case (1 handler r b)
  show ?case
  proof (cases "read_line b")
    case (Inl x)
    then show ?thesis using "1.prems" by (subst (asm) receive.simps) auto
  next
    case (Inr lr)
    obtain raw rest where lr: "lr = (raw, rest)" by (cases lr)
    show ?thesis
    proof (cases "raw = [] \<or> max_frame_bytes < length raw")
      case True
      then show ?thesis
        using "1.prems" Inr lr by (subst (asm) receive.simps) (auto simp: note_event_def split: if_split_asm)
    next
      case False
      then obtain o1 r1 where l: "receive_line handler r raw = Some (o1, r1)"
        using "1.prems" Inr lr by (subst (asm) receive.simps) (auto split: option.splits)
      have b: "b = raw @ rest" using Inr lr read_line_split by blast
      from receive_line_delivers [OF l, of b "[]" rest] b obtain evs where
        evs: "rv_identity r1 = rv_identity r" "rv_token r1 = rv_token r" "delivered r1 = delivered r @ evs"
          "list_all (authentic r b) evs" by auto
      show ?thesis
      proof (cases o1)
        case None
        then have rec: "receive handler r1 rest = Some (e, r')"
          using "1.prems" Inr lr False l by (subst (asm) receive.simps) auto
        obtain evs' where "delivered r' = delivered r1 @ evs'" "list_all (authentic r1 rest) evs'"
          using "1.IH" [OF Inr lr [symmetric] _ _ l refl None rec] False by blast
        then show ?thesis
          using evs authentic_part [OF _ evs(1,2) b, of evs'] by (intro exI [of _ "evs @ evs'"]) auto
      next
        case (Some x)
        then show ?thesis
          using "1.prems" Inr lr False l evs by (subst (asm) receive.simps) auto
      qed
    qed
  qed
qed

section \<open>A generation on concrete lines\<close>

definition ping_line :: string where
  "ping_line = the (line_of (PDict (make_request one_client ''r1'' ''ping'' [])))"

definition pong :: pyval where
  "pong = PDict [(''executor_id'', PStr ''e1''), (''executor_epoch'', PStr ''g7''), (''pid'', PInt 42)]"

definition pong_line :: string where
  "pong_line = the (line_of (PDict (response_frame ''r1'' pong None)))"

definition old_client :: client where
  "old_client = one_client\<lparr>c_identity := \<lparr>executor_id = ''e1'', epoch = ''g6''\<rparr>\<rparr>"

definition old_line :: string where
  "old_line = the (line_of (PDict (make_request old_client ''r1'' ''ping'' [])))"

lemma lines:
  "line_of (PDict (make_request one_client ''r1'' ''ping'' [])) = Some ping_line \<and> length ping_line < 1000"
  "line_of (PDict (response_frame ''r1'' pong None)) = Some pong_line \<and> length pong_line < 1000"
  "line_of (PDict (make_request old_client ''r1'' ''ping'' [])) = Some old_line \<and> length old_line < 1000"
  by code_simp+

lemma short: "n < 1000 \<Longrightarrow> n \<le> max_frame_bytes"
  by (simp add: max_frame_bytes_def)

lemma call_round_trip_witness:
  "handle_connection id idle_manager fresh_server False ping_line =
     Some (Some (response_frame ''r1'' pong None),
       snd (serve idle_manager fresh_server \<lparr>request_id = ''r1'', operation = ''ping'', arguments = []\<rparr>)) \<and>
   call ''r1'' ''ping'' (Answer pong_line) = Some (Result pong)"
proof (rule call_round_trip [where c = one_client and args = "[]"])
  show "ascii (sv_token fresh_server)" by (simp add: ascii_def fresh_server_def code_def)
  show "serve idle_manager fresh_server \<lparr>request_id = ''r1'', operation = ''ping'', arguments = []\<rparr> =
    (Inr (Some pong), snd (serve idle_manager fresh_server \<lparr>request_id = ''r1'', operation = ''ping'', arguments = []\<rparr>))"
    by (simp add: serve_def dispatch_def pong_def fresh_server_def one_executor_def Let_def)
qed (use lines short in \<open>simp_all add: one_client_def fresh_server_def operations_def sync_operations_def pong_def\<close>)

lemma stale_client_refused_witness:
  "\<exists>e. e \<noteq> [] \<and>
    handle_connection id idle_manager fresh_server False old_line =
      Some (Some (response_frame ''r1'' PNone (Some e)), fresh_server\<lparr>rpc := record_protocol_error (rpc fresh_server)\<rparr>) \<and>
    (\<forall>b'. line_of (PDict (response_frame ''r1'' PNone (Some e))) = Some b' \<longrightarrow> length b' \<le> max_frame_bytes \<longrightarrow>
       call ''r1'' ''ping'' (Answer b') = Some (Unavailable (PStr e)))"
proof (rule stale_client_refused [where c = old_client and args = "[]"])
  show "ascii (c_token old_client)" by (simp add: ascii_def old_client_def one_client_def code_def)
qed (use lines short in \<open>simp_all add: old_client_def one_client_def one_executor_def fresh_server_def
      operations_def sync_operations_def\<close>)

definition one_forwarder :: forwarder where
  "one_forwarder = \<lparr>fw_identity = one_executor, fw_token = ''k3y'', fw_counts = new_counts, writer = False,
     connected_once = False\<rparr>"

definition one_receiver :: receiver where
  "one_receiver = \<lparr>rv_identity = one_executor, rv_token = ''k3y'', rv_counts = new_counts,
     rv_controller = new_counts, delivered = []\<rparr>"

definition event_line :: "int \<Rightarrow> string" where
  "event_line n = the (line_of (PDict (envelope one_forwarder ''chat'' [(''n'', PInt n)])))"

lemma event_lines:
  "sendable one_forwarder (''chat'', [(''n'', PInt 1)]) (event_line 1)"
  "sendable one_forwarder (''chat'', [(''n'', PInt 2)]) (event_line 2)"
proof -
  have "line_of (PDict (envelope one_forwarder ''chat'' [(''n'', PInt 1)])) = Some (event_line 1) \<and> length (event_line 1) < 1000"
    by code_simp
  then show "sendable one_forwarder (''chat'', [(''n'', PInt 1)]) (event_line 1)"
    using short by (simp add: sendable_def)
  have "line_of (PDict (envelope one_forwarder ''chat'' [(''n'', PInt 2)])) = Some (event_line 2) \<and> length (event_line 2) < 1000"
    by code_simp
  then show "sendable one_forwarder (''chat'', [(''n'', PInt 2)]) (event_line 2)"
    using short by (simp add: sendable_def)
qed

lemma one_live: "live one_forwarder one_receiver"
  by (simp add: live_def one_forwarder_def one_receiver_def ascii_def code_def)

lemma events_arrive_in_order_witness:
  "\<exists>r'. receive (\<lambda>_ _. None) one_receiver (concat [event_line 1, event_line 2]) = Some (None, r') \<and>
     delivered r' = [(''chat'', [(''n'', PInt 1)]), (''chat'', [(''n'', PInt 2)])]"
  using events_arrive_in_order [OF one_live, of "[(''chat'', [(''n'', PInt 1)]), (''chat'', [(''n'', PInt 2)])]"
      "[event_line 1, event_line 2]" "\<lambda>_ _. None"] event_lines
  by (simp add: one_receiver_def)

lemma delivered_events_authentic_witness:
  "\<exists>r' evs. receive (\<lambda>_ _. None) one_receiver (event_line 1) = Some (None, r') \<and> evs \<noteq> [] \<and>
     delivered r' = delivered one_receiver @ evs \<and> list_all (authentic one_receiver (event_line 1)) evs"
proof -
  let ?r = "took one_receiver [(''chat'', [(''n'', PInt 1)])]"
  have "receive (\<lambda>_ _. None) one_receiver (event_line 1 @ []) = receive (\<lambda>_ _. None) ?r []"
    using event_lines(1) by (intro receive_event [OF one_live]) (auto simp: sendable_def)
  also have "\<dots> = Some (None, ?r)" by (subst receive.simps) (simp add: read_line_def)
  finally have r: "receive (\<lambda>_ _. None) one_receiver (event_line 1) = Some (None, ?r)" by simp
  then show ?thesis
    using delivered_events_authentic [OF r] took_delivered [of one_receiver "[(''chat'', [(''n'', PInt 1)])]"] by force
qed

section \<open>Behaviours worth knowing\<close>

text \<open>An operation that is a list raises \<open>TypeError\<close>, which counts as a failure, not as a protocol error.\<close>

lemma list_operation_is_a_failure:
  "answer idle_manager fresh_server (PDict (dput ''operation'' (PList []) (make_request one_client ''r1'' ''ping'' []))) =
     (Some (response_frame ''r1'' PNone (Some (''TypeError: unhashable type: '' @ [CHR 0x27] @ ''list'' @ [CHR 0x27]))),
      fresh_server\<lparr>rpc := record_failure new_rpc_counts\<rparr>)"
  by (simp add: answer_def make_request_def one_client_def fresh_server_def one_executor_def protocol_version_def
      matched_iff ascii_def code_def validate_request_id_def validate_operation_def hash_in_def fail_reply_def
      claimed_id_def)

text \<open>A line beyond the reader's limit ends the connection with \<open>ValueError\<close> and is not counted.\<close>

lemma overlong_event_not_counted:
  assumes "stream_limit < length w" and "CHR 0x0A \<notin> set w"
  shows "\<exists>m. receive handler r (w @ rest) = Some (Some (Exc ''ValueError'' m), r)"
proof -
  have n: "x \<in> set w \<Longrightarrow> x \<noteq> CHR 0x0A" for x using assms(2) by blast
  have "length w \<le> length (takeWhile (\<lambda>c. c \<noteq> CHR 0x0A) (w @ rest))"
    by (simp add: takeWhile_append2 n)
  then have "\<exists>m. read_line (w @ rest) = Inl (Exc ''ValueError'' m)"
    using assms(1) by (auto simp: read_line_def Let_def split: list.splits)
  then show ?thesis by (subst receive.simps) auto
qed

end
