(* ===== verification/TaskRecovery.thy ===== *)
theory TaskRecovery
  imports WorkflowModel ExecutorProtocol
begin

text \<open>
  What a restart does to the node states of a task, \<open>src/workflow/task_recovery.py\<close>: attempts
  and approvals that the dead process left open are closed, nested states first, and become
  failed, skipped, scheduled again or reissued. \<open>datetime.fromisoformat\<close> is the argument
  \<open>from_iso\<close>: microseconds and, unless the time is naive, the offset from UTC; conversions that
  leave the years of \<open>datetime\<close> are not modelled. Messages in Chinese are given in English.
\<close>

section \<open>Constants and times\<close>

definition interrupted_error :: string where
  "interrupted_error = ''workflow_process_interrupted: the node was still running at restart''"

definition interrupted_approval_error :: string where
  "interrupted_approval_error = ''workflow_process_interrupted: the node was still waiting for approval at restart''"

definition no_deadline_error :: string where
  "no_deadline_error = ''retry_waiting node without a valid next_retry_at cannot be recovered''"

definition controllable :: "string list" where
  "controllable = [''failed'', ''retry_waiting'']"

definition recoverable_statuses :: "string list" where
  "recoverable_statuses = [''running'', ''retry_waiting'', ''resume_pending'']"

definition pending_resume_triggers :: "string list" where
  "pending_resume_triggers = [auto_retry_trigger, manual_retry_trigger, recovery_reissue_trigger]"

fun replace_z :: "string \<Rightarrow> string" where
  "replace_z [] = []"
| "replace_z (c # s) = (if c = CHR ''Z'' then ''+00:00'' @ replace_z s else c # replace_z s)"

type_synonym iso_parser = "string \<Rightarrow> (int \<times> int option) option"

definition parse_datetime :: "iso_parser \<Rightarrow> string option \<Rightarrow> int option" where
  "parse_datetime from_iso v =
     (case v of
        None \<Rightarrow> None
      | Some s \<Rightarrow>
          (if s = [] then None
           else (case from_iso (replace_z s) of
                   None \<Rightarrow> None
                 | Some (t, None) \<Rightarrow> Some t
                 | Some (t, Some off) \<Rightarrow> Some (t - off))))"

definition retry_waiting_states :: "iso_parser \<Rightarrow> (string \<times> node_state) list \<Rightarrow> (string \<times> node_state \<times> int) list" where
  "retry_waiting_states from_iso sts =
     List.map_filter (\<lambda>(i, s).
       if status (own s) \<noteq> ''retry_waiting'' then None
       else map_option (\<lambda>due. (i, s, due)) (parse_datetime from_iso (next_retry_at (own s)))) sts"

section \<open>Closing an interrupted attempt\<close>

definition interrupted_state :: "string \<Rightarrow> string \<Rightarrow> node_state \<Rightarrow> node_state" where
  "interrupted_state now msg state =
     (let e = strip (error (own state));
          failed = update_own (\<lambda>s. s\<lparr>status := ''failed'', completed_at := Some now,
            error := if e \<noteq> [] then e @ [CHR 0x0A] @ msg else msg,
            attempt_count := max 1 (attempt_count s)\<rparr>) state
      in record_attempt (Some ''failed'') (Some now) failed)"

definition prepare_recovery_reissue :: "bool \<Rightarrow> node_state \<Rightarrow> node_state" where
  "prepare_recovery_reissue preserve state =
     update_own (\<lambda>s. s\<lparr>status := ''pending'',
       session_id := if preserve then session_id s else [],
       started_at := None,
       completed_at := None,
       summary := if preserve then summary s else [],
       error := [],
       rejection_reason := [],
       outputs := [],
       stdout := [],
       stderr := [],
       is_skipped := False,
       next_retry_at := None,
       next_attempt_trigger := recovery_reissue_trigger\<rparr>) state"

fun contains_recovery_reissue :: "node_state \<Rightarrow> bool" where
  "contains_recovery_reissue (Node s cs) =
     (status s = ''pending'' \<and> next_attempt_trigger s = recovery_reissue_trigger \<or>
      (\<exists>(i, c)\<in>set cs. contains_recovery_reissue c))"

definition child_reissued :: "node_state \<Rightarrow> bool" where
  "child_reissued st = (\<exists>(i, c)\<in>set (child_states st). contains_recovery_reissue c)"

definition close_child :: "string \<Rightarrow> node_state \<Rightarrow> node_state" where
  "close_child now st =
     (if status (own st) = ''waiting_approval'' then
        (let closed = interrupted_state now interrupted_approval_error st
         in prepare_recovery_reissue (session_id (own closed) \<noteq> [] \<and> summary (own closed) \<noteq> []) closed)
      else if status (own st) = ''running'' then
        (let closed = interrupted_state now interrupted_error st
         in if child_reissued st then prepare_recovery_reissue False closed else closed)
      else st)"

fun recover_children :: "string \<Rightarrow> node_state \<Rightarrow> node_state" where
  "recover_children now (Node s cs) = Node s (map (\<lambda>(i, c). (i, close_child now (recover_children now c))) cs)"

section \<open>The nodes of a task\<close>

text \<open>
  What a recovery reads of its surroundings: the parser and the printer of times, the
  microseconds of a \<open>timedelta\<close> of so many seconds given as a float, and the clock at each
  point where it is read.
\<close>

record surroundings =
  from_iso :: iso_parser
  stamp :: "int \<Rightarrow> string"
  float_seconds :: "pyfloat \<Rightarrow> exc + int"
  now_nodes :: string
  now_approvals :: string
  utc_now :: "string \<Rightarrow> int"
  now_invalid :: "string \<Rightarrow> string"
  now_failed :: string

text \<open>
  The deadline of an automatic retry: \<open>max(0, interval)\<close> raises for what is not a number, and
  the sum with the clock beyond the last \<open>datetime\<close>.
\<close>

definition datetime_max :: int where
  "datetime_max = 253402300799999999"

definition interval_micros :: "(pyfloat \<Rightarrow> exc + int) \<Rightarrow> pyval \<Rightarrow> exc + int" where
  "interval_micros float_secs v =
     (case v of
        PInt n \<Rightarrow> Inr (1000000 * max 0 n)
      | PBool b \<Rightarrow> Inr (if b then 1000000 else 0)
      | PFloat f \<Rightarrow> if float_lt (Fin 0 0) f then float_secs f else Inr 0
      | _ \<Rightarrow> Inl (Exc ''TypeError'' []))"

definition retry_deadline :: "surroundings \<Rightarrow> string \<Rightarrow> pyval \<Rightarrow> exc + string" where
  "retry_deadline w nid v =
     bind_err (interval_micros (float_seconds w) v) (\<lambda>n.
       if utc_now w nid + n > datetime_max then Inl (Exc ''OverflowError'' [])
       else Inr (stamp w (utc_now w nid + n)))"

text \<open>A step of the failure policy that cannot raise here; its error would be a \<open>ValueError\<close>.\<close>

definition policy_step :: "policy_error + node_state \<Rightarrow> exc + node_state" where
  "policy_step r = (case r of Inl _ \<Rightarrow> Inl (Exc ''ValueError'' []) | Inr s \<Rightarrow> Inr s)"

definition recover_running :: "surroundings \<Rightarrow> workflow_def \<Rightarrow> string \<Rightarrow> node_state \<Rightarrow> exc + node_state" where
  "recover_running w d nid st =
     (let failed = interrupted_state (now_nodes w) interrupted_error st
      in if child_reissued failed then Inr (prepare_recovery_reissue False failed)
         else (case get_node d nid of
                 None \<Rightarrow> Inr failed
               | Some n \<Rightarrow>
                   (if can_auto_retry (policy_of n) failed then
                      bind_err (retry_deadline w nid (n_auto_retry_interval_seconds n)) (\<lambda>due.
                        policy_step (prepare_node_retry auto_retry_trigger (Some due) True failed))
                    else if should_auto_skip (policy_of n) failed then
                      policy_step (apply_failure_skip (Some (now_nodes w)) failed)
                    else Inr failed)))"

definition recover_node :: "surroundings \<Rightarrow> workflow_def \<Rightarrow> string \<times> node_state \<Rightarrow> exc + (string \<times> node_state)" where
  "recover_node w d p =
     (let st = recover_children (now_nodes w) (snd p)
      in if status (own st) \<noteq> ''running'' then Inr (fst p, st)
         else bind_err (recover_running w d (fst p) st) (\<lambda>st'. Inr (fst p, st')))"

definition recover_interrupted_nodes ::
    "surroundings \<Rightarrow> workflow_def \<Rightarrow> (string \<times> node_state) list \<Rightarrow> exc + (string \<times> node_state) list" where
  "recover_interrupted_nodes w d sts = map_err (recover_node w d) sts"

definition recover_approval :: "string \<Rightarrow> workflow_def \<Rightarrow> string \<times> node_state \<Rightarrow> string \<times> node_state" where
  "recover_approval now d p =
     (let st = recover_children now (snd p)
      in if status (own st) \<noteq> ''waiting_approval'' then (fst p, st)
         else (let closed = interrupted_state now interrupted_approval_error st;
                   agent = (case get_node d (fst p) of None \<Rightarrow> False | Some n \<Rightarrow> n_type n = ''agent'')
               in (fst p, prepare_recovery_reissue
                     (agent \<and> session_id (own closed) \<noteq> [] \<and> summary (own closed) \<noteq> []) closed)))"

definition recover_waiting_approval_nodes ::
    "string \<Rightarrow> workflow_def \<Rightarrow> (string \<times> node_state) list \<Rightarrow> (string \<times> node_state) list" where
  "recover_waiting_approval_nodes now d sts = map (recover_approval now d) sts"

definition fail_without_deadline :: "surroundings \<Rightarrow> string \<times> node_state \<Rightarrow> string \<times> node_state" where
  "fail_without_deadline w p =
     (let st = snd p
      in if status (own st) \<noteq> ''retry_waiting'' \<or> parse_datetime (from_iso w) (next_retry_at (own st)) \<noteq> None then p
         else (fst p, update_own (\<lambda>s. s\<lparr>status := ''failed'', completed_at := Some (now_invalid w (fst p)),
                 next_retry_at := None, error := strip (error s @ [CHR 0x0A] @ no_deadline_error)\<rparr>) st))"

definition recovered_states ::
    "surroundings \<Rightarrow> workflow_def \<Rightarrow> (string \<times> node_state) list \<Rightarrow> exc + (string \<times> node_state) list" where
  "recovered_states w d sts =
     bind_err (recover_interrupted_nodes w d sts) (\<lambda>sts1.
       Inr (map (fail_without_deadline w) (recover_waiting_approval_nodes (now_approvals w) d sts1)))"

text \<open>What becomes of the task: run again, wait for the earliest retry, or fail.\<close>

datatype recovery = Resume | Schedule | Fail

definition resume_requested :: "string \<Rightarrow> (string \<times> node_state) list \<Rightarrow> bool" where
  "resume_requested st sts =
     (st = ''resume_pending'' \<or>
      (\<exists>(i, s)\<in>set sts. status (own s) = ''pending'' \<and> next_attempt_trigger (own s) \<in> set pending_resume_triggers))"

definition recovery_of :: "string \<Rightarrow> (string \<times> node_state) list \<Rightarrow> recovery" where
  "recovery_of st sts =
     (if \<not> resume_requested st sts \<and> (\<exists>(i, s)\<in>set sts. status (own s) = ''retry_waiting'') then Schedule
      else if \<not> resume_requested st sts \<and> (\<exists>(i, s)\<in>set sts. status (own s) = ''failed'') then Fail
      else Resume)"

definition prepare_task_for_resume :: "task \<Rightarrow> task" where
  "prepare_task_for_resume t =
     t\<lparr>task_status := ''resume_pending'', current_node_id := None, run_id := None, task_completed_at := None\<rparr>"

definition recovered_task :: "surroundings \<Rightarrow> workflow_def \<Rightarrow> task \<Rightarrow> exc + (recovery \<times> task)" where
  "recovered_task w d t =
     bind_err (recovered_states w d (node_states t)) (\<lambda>sts.
       let t' = t\<lparr>node_states := sts\<rparr>
       in Inr (case recovery_of (task_status t) sts of
            Resume \<Rightarrow> (Resume, prepare_task_for_resume t')
          | Schedule \<Rightarrow> (Schedule, t'\<lparr>task_status := ''retry_waiting'', task_completed_at := None, current_node_id := None\<rparr>)
          | Fail \<Rightarrow> (Fail, t'\<lparr>task_status := ''failed'', task_completed_at := Some (now_failed w), current_node_id := None\<rparr>)))"

section \<open>Nothing is left open\<close>

fun closed_tree :: "node_state \<Rightarrow> bool" where
  "closed_tree (Node s cs) =
     (status s \<notin> {''running'', ''waiting_approval''} \<and> (\<forall>(i, c)\<in>set cs. closed_tree c))"

definition children_closed :: "node_state \<Rightarrow> bool" where
  "children_closed st = (\<forall>(i, c)\<in>set (child_states st). closed_tree c)"

lemma closed_tree_iff: "closed_tree st \<longleftrightarrow> status (own st) \<notin> {''running'', ''waiting_approval''} \<and> children_closed st"
  by (cases st) (simp add: children_closed_def)

lemma interrupted_simps [simp]:
  "status (own (interrupted_state now msg st)) = ''failed''"
  "child_states (interrupted_state now msg st) = child_states st"
  "automatic_retry_count (own (interrupted_state now msg st)) = automatic_retry_count (own st)"
  by (simp_all add: interrupted_state_def record_attempt_def str_default_def normalize_node_status_def Let_def)

lemma reissue_simps [simp]:
  "status (own (prepare_recovery_reissue b st)) = ''pending''"
  "child_states (prepare_recovery_reissue b st) = child_states st"
  "automatic_retry_count (own (prepare_recovery_reissue b st)) = automatic_retry_count (own st)"
  by (simp_all add: prepare_recovery_reissue_def)

lemma children_closed_simps [simp]:
  "children_closed (interrupted_state now msg st) = children_closed st"
  "children_closed (prepare_recovery_reissue b st) = children_closed st"
  "children_closed (update_own f st) = children_closed st"
  "children_closed (Node s (child_states st)) = children_closed st"
  by (simp_all add: children_closed_def)

lemma close_child_closed:
  assumes "children_closed st"
  shows "closed_tree (close_child now st)"
proof (cases "status (own st) = ''waiting_approval'' \<or> status (own st) = ''running''")
  case True
  with assms show ?thesis by (auto simp: closed_tree_iff close_child_def Let_def)
next
  case False
  with assms show ?thesis by (simp add: closed_tree_iff close_child_def)
qed

lemma close_child_id: "closed_tree st \<Longrightarrow> close_child now st = st"
  by (simp add: closed_tree_iff close_child_def)

lemma recover_children_own [simp]: "own (recover_children now st) = own st"
  by (cases st) simp

lemma recover_children_closed: "children_closed (recover_children now st)"
proof (induction st)
  case (Node s cs)
  then have "closed_tree (close_child now (recover_children now c))" if "(i, c) \<in> set cs" for i c
    using that by (intro close_child_closed) fastforce
  then show ?case by (auto simp: children_closed_def)
qed

lemma recover_children_id: "children_closed st \<Longrightarrow> recover_children now st = st"
proof (induction st)
  case (Node s cs)
  have "close_child now (recover_children now c) = c" if "(i, c) \<in> set cs" for i c
  proof -
    have "closed_tree c" using Node.prems that by (auto simp: children_closed_def)
    moreover have "recover_children now c = c" using Node.IH that \<open>closed_tree c\<close>
      by (fastforce simp: closed_tree_iff)
    ultimately show ?thesis by (simp add: close_child_id)
  qed
  then show ?case by (auto intro!: map_idI)
qed

text \<open>A failed state goes on as failed, skipped, pending or waiting for its retry, with its children.\<close>

lemma prepared_closed:
  assumes "prepare_node_retry t (Some due) True st = Inr st'" and "status (own st) = ''failed''" and "children_closed st"
  shows "closed_tree st'"
  using assms by (auto simp: prepare_node_retry_def Let_def closed_tree_iff retry_replayed_def
      split: if_split_asm)

lemma skipped_closed: "apply_failure_skip c st = Inr st' \<Longrightarrow> children_closed st \<Longrightarrow> closed_tree st'"
  by (auto simp: apply_failure_skip_def closed_tree_iff split: if_split_asm)

lemma policy_step_Inr: "policy_step r = Inr s \<longleftrightarrow> r = Inr s"
  by (cases r) (simp_all add: policy_step_def)

lemma recover_running_closed:
  assumes "recover_running w d nid st = Inr st'" and "children_closed st"
  shows "closed_tree st'"
proof -
  let ?f = "interrupted_state (now_nodes w) interrupted_error st"
  have f: "closed_tree ?f" "closed_tree (prepare_recovery_reissue False ?f)"
    using assms(2) by (simp_all add: closed_tree_iff)
  consider "st' = prepare_recovery_reissue False ?f" | "st' = ?f"
    | due where "prepare_node_retry auto_retry_trigger (Some due) True ?f = Inr st'"
    | "apply_failure_skip (Some (now_nodes w)) ?f = Inr st'"
    using assms(1) unfolding recover_running_def Let_def
    by (auto simp: policy_step_Inr bind_err_Inr_iff split: if_split_asm option.splits)
  then show ?thesis
  proof cases
    case 3
    then show ?thesis by (rule prepared_closed) (simp_all add: assms(2))
  next
    case 4
    then show ?thesis by (rule skipped_closed) (simp add: assms(2))
  qed (use f in simp_all)
qed

definition deadline_ok :: "surroundings \<Rightarrow> node_state \<Rightarrow> bool" where
  "deadline_ok w st = (status (own st) = ''retry_waiting'' \<longrightarrow> parse_datetime (from_iso w) (next_retry_at (own st)) \<noteq> None)"

lemma recover_node_Inr:
  assumes "recover_node w d p = Inr q"
  shows "fst q = fst p \<and> status (own (snd q)) \<noteq> ''running'' \<and> children_closed (snd q) \<and>
    (closed_tree (snd p) \<longrightarrow> q = p)"
proof (cases "status (own (snd p)) = ''running''")
  case False
  then have "q = (fst p, recover_children (now_nodes w) (snd p))" using assms by (simp add: recover_node_def Let_def)
  with False show ?thesis by (simp add: recover_children_closed closed_tree_iff recover_children_id)
next
  case True
  then obtain st' where st': "recover_running w d (fst p) (recover_children (now_nodes w) (snd p)) = Inr st'" "q = (fst p, st')"
    using assms by (auto simp: recover_node_def Let_def bind_err_Inr_iff)
  from recover_running_closed [OF st'(1) recover_children_closed] st'(2) True show ?thesis
    by (simp add: closed_tree_iff)
qed

lemma recover_approval_spec:
  assumes "status (own (snd p)) \<noteq> ''running''"
  shows "fst (recover_approval now d p) = fst p \<and> closed_tree (snd (recover_approval now d p)) \<and>
    (closed_tree (snd p) \<longrightarrow> recover_approval now d p = p)"
proof (cases "status (own (snd p)) = ''waiting_approval''")
  case True
  then show ?thesis by (simp add: recover_approval_def Let_def closed_tree_iff recover_children_closed)
next
  case False
  with assms show ?thesis
    by (simp add: recover_approval_def Let_def closed_tree_iff recover_children_closed recover_children_id)
qed

lemma fail_without_deadline_spec:
  assumes "closed_tree (snd p)"
  shows "fst (fail_without_deadline w p) = fst p \<and> closed_tree (snd (fail_without_deadline w p)) \<and>
    deadline_ok w (snd (fail_without_deadline w p)) \<and> (deadline_ok w (snd p) \<longrightarrow> fail_without_deadline w p = p)"
proof (cases "deadline_ok w (snd p)")
  case True
  then have "fail_without_deadline w p = p" by (auto simp: fail_without_deadline_def Let_def deadline_ok_def)
  with True assms show ?thesis by simp
next
  case False
  with assms show ?thesis
    by (simp add: fail_without_deadline_def Let_def closed_tree_iff deadline_ok_def)
qed

definition recovered_one :: "surroundings \<Rightarrow> string \<times> node_state \<Rightarrow> string \<times> node_state \<Rightarrow> bool" where
  "recovered_one w p q =
     (fst q = fst p \<and> closed_tree (snd q) \<and> deadline_ok w (snd q) \<and>
      (closed_tree (snd p) \<and> deadline_ok w (snd p) \<longrightarrow> q = p))"

lemma recovered_states_spec:
  assumes "recovered_states w d sts = Inr sts'"
  shows "list_all2 (recovered_one w) sts sts'"
proof -
  let ?g = "\<lambda>q. fail_without_deadline w (recover_approval (now_approvals w) d q)"
  obtain sts1 where l: "list_all2 (\<lambda>p q. recover_node w d p = Inr q) sts sts1" and s: "sts' = map ?g sts1"
    using assms by (auto simp: recovered_states_def recover_interrupted_nodes_def recover_waiting_approval_nodes_def
        bind_err_Inr_iff map_err_Inr_iff comp_def)
  have "recovered_one w p (?g q)" if "recover_node w d p = Inr q" for p q
  proof -
    note r = recover_node_Inr [OF that]
    note a = recover_approval_spec [of q "now_approvals w" d]
    note f = fail_without_deadline_spec [of "recover_approval (now_approvals w) d q" w]
    show ?thesis using r a f by (auto simp: recovered_one_def closed_tree_iff)
  qed
  then show ?thesis using l unfolding s by (simp add: list.rel_map list.rel_mono_strong)
qed

text \<open>
  C18. Recovery leaves nothing open and redoes nothing: after it no node of the task, at any
  depth, is running or waiting for an approval, every node that waits for a retry has a valid
  deadline, and the nodes that were already so are unchanged.
\<close>

theorem recovery_closes_open_attempts:
  assumes "recovered_states w d sts = Inr sts'"
  shows "dkeys sts' = dkeys sts \<and>
    (\<forall>(i, s)\<in>set sts'. closed_tree s \<and> (status (own s) = ''retry_waiting'' \<longrightarrow>
       parse_datetime (from_iso w) (next_retry_at (own s)) \<noteq> None)) \<and>
    (\<forall>k<length sts. closed_tree (snd (sts ! k)) \<and> status (own (snd (sts ! k))) \<noteq> ''retry_waiting'' \<longrightarrow> sts' ! k = sts ! k)"
proof -
  have l: "list_all2 (recovered_one w) sts sts'" by (rule recovered_states_spec [OF assms])
  then have "list_all2 (\<lambda>p q. fst p = fst q) sts sts'"
    by (rule list_all2_mono) (simp add: recovered_one_def)
  then have "map fst sts = map fst sts'" by (simp add: list_all2_conv_all_nth list_eq_iff_nth_eq)
  moreover have "closed_tree s \<and> deadline_ok w s" if "(i, s) \<in> set sts'" for i s
    using l that by (auto simp: list_all2_conv_all_nth in_set_conv_nth recovered_one_def)
  moreover have "sts' ! k = sts ! k"
    if "k < length sts" "closed_tree (snd (sts ! k))" "status (own (snd (sts ! k))) \<noteq> ''retry_waiting''" for k
    using l that by (auto simp: list_all2_conv_all_nth recovered_one_def deadline_ok_def)
  ultimately show ?thesis by (auto simp: deadline_ok_def)
qed

text \<open>
  C38. Recovering twice is recovering once: after a crash during a recovery whose result was
  saved, the next recovery, at whatever time, changes no node.
\<close>

theorem recovery_idempotent:
  assumes "recovered_states w d sts = Inr sts'" and "from_iso w' = from_iso w"
  shows "recovered_states w' d' sts' = Inr sts'"
proof -
  have ok: "closed_tree (snd q) \<and> deadline_ok w (snd q)" if "q \<in> set sts'" for q
    using recovered_states_spec [OF assms(1)] that
    by (auto simp: list_all2_conv_all_nth in_set_conv_nth recovered_one_def) 
  have "recover_node w' d' q = Inr q" if "q \<in> set sts'" for q
    using ok [OF that] by (auto simp: recover_node_def Let_def closed_tree_iff recover_children_id)
  then have "recover_interrupted_nodes w' d' sts' = Inr sts'"
    by (auto simp: recover_interrupted_nodes_def map_err_Inr_iff list_all2_same)
  moreover have "fail_without_deadline w' (recover_approval (now_approvals w') d' q) = q" if "q \<in> set sts'" for q
    using ok [OF that] recover_approval_spec [of q "now_approvals w'" d'] fail_without_deadline_spec [of q w'] assms(2)
    by (auto simp: closed_tree_iff deadline_ok_def)
  ultimately show ?thesis
    by (simp add: recovered_states_def recover_waiting_approval_nodes_def map_idI)
qed

text \<open>A task of one node that was running a sub-workflow with an approval open.\<close>

definition sample_surroundings :: surroundings where
  "sample_surroundings = \<lparr>from_iso = (\<lambda>_. None), stamp = (\<lambda>_. []), float_seconds = (\<lambda>_. Inr 0), now_nodes = ''t1'',
     now_approvals = ''t2'', utc_now = (\<lambda>_. 0), now_invalid = (\<lambda>_. ''t3''), now_failed = ''t4''\<rparr>"

definition with_status :: "string \<Rightarrow> (string \<times> node_state) list \<Rightarrow> node_state" where
  "with_status st cs = Node ((own (new_node_state ''n''))\<lparr>status := st\<rparr>) cs"

definition open_states :: "(string \<times> node_state) list" where
  "open_states = [(''n'', with_status ''running'' [(''c'', with_status ''waiting_approval'' [])])]"

lemma open_states_recovered: "\<exists>sts. recovered_states sample_surroundings (new_def [] [] [] [] []) open_states = Inr sts"
proof -
  have "get_node (new_def [] [] [] [] []) i = None" for i by (simp add: get_node_def new_def_def)
  then show ?thesis
    by (auto simp: recovered_states_def recover_interrupted_nodes_def recover_node_def recover_running_def open_states_def
        with_status_def Let_def)
qed

lemma recovery_closes_open_attempts_witness:
  "\<exists>sts. recovered_states sample_surroundings (new_def [] [] [] [] []) open_states = Inr sts \<and>
     dkeys sts = [''n''] \<and> (\<forall>(i, s)\<in>set sts. closed_tree s)"
proof -
  obtain sts where s: "recovered_states sample_surroundings (new_def [] [] [] [] []) open_states = Inr sts"
    using open_states_recovered by blast
  from recovery_closes_open_attempts [OF s] s show ?thesis
    by (intro exI [of _ sts]) (auto simp: open_states_def)
qed

lemma recovery_idempotent_witness:
  "\<exists>sts. recovered_states sample_surroundings (new_def [] [] [] [] []) open_states = Inr sts \<and>
     recovered_states (sample_surroundings\<lparr>now_nodes := ''later''\<rparr>) (new_def [] [] [] [] []) sts = Inr sts"
proof -
  obtain sts where s: "recovered_states sample_surroundings (new_def [] [] [] [] []) open_states = Inr sts"
    using open_states_recovered by blast
  from recovery_idempotent [OF s, of "sample_surroundings\<lparr>now_nodes := ''later''\<rparr>"] s show ?thesis by auto
qed

end
