(* ===== verification/ExecutorPool.thy ===== *)
theory ExecutorPool
  imports ExecutorProtocol
begin

text \<open>
  The Controller's pool of executors, \<open>src/workflow/executor_pool.py\<close>, and the process leases
  it rests on, \<open>executor_lease.py\<close>. A supervisor is the part of it the pool reads. What a
  lock attempt or a supervisor's start does is an argument; the pool's state file is the JSON
  value of its text.
\<close>

section \<open>Members and their lease files\<close>

definition member_id :: "nat \<Rightarrow> string" where
  "member_id i = ''workflow-executor-'' @ show_nat i"

definition executor_ids :: "int \<Rightarrow> exc + string list" where
  "executor_ids count =
     (if \<not> (1 \<le> count \<and> count \<le> 32)
      then Inl (Exc ''ValueError'' ''Workflow Executor count must be between 1 and 32'')
      else Inr (map member_id [0..<nat count]))"

definition id_suffix :: "string \<Rightarrow> string" where
  "id_suffix i = (if starts_with i ''workflow-executor-'' then drop 18 i else [])"

text \<open>The file name under \<open>system/\<close>; a digit that \<open>int\<close> refuses raises \<open>ValueError\<close> as well.\<close>

definition executor_lease_path :: "string \<Rightarrow> exc + string" where
  "executor_lease_path i =
     (let s = id_suffix i
      in if s = [] \<or> \<not> list_all py_digit s then Inl (Exc ''ValueError'' ''invalid Workflow Executor id'')
         else (case py_int s of
                 None \<Rightarrow> Inl (Exc ''ValueError'' ''invalid literal for int()'')
               | Some n \<Rightarrow> Inr (if n = 0 then ''workflow-executor.lock''
                               else ''workflow-executor-'' @ show_int n @ ''.lock'')))"

datatype state_file = Absent | Unreadable | Document pyval

definition pool_document :: "string list \<Rightarrow> pyval" where
  "pool_document ids = PDict [(''version'', PInt 1), (''executor_ids'', PList (map PStr ids))]"

definition load_recorded_executor_ids :: "state_file \<Rightarrow> exc + string list" where
  "load_recorded_executor_ids f =
     (case f of
        Absent \<Rightarrow> Inr [''workflow-executor-0'']
      | Unreadable \<Rightarrow> Inl (Exc ''RuntimeError'' ''Workflow Executor pool state is unreadable'')
      | Document raw \<Rightarrow>
          (if \<not> is_dict raw \<or> \<not> eq_int (got (the (as_dict raw)) ''version'') 1
           then Inl (Exc ''RuntimeError'' ''Workflow Executor pool state version is unsupported'')
           else (case got (the (as_dict raw)) ''executor_ids'' of
                   PList (x # xs) \<Rightarrow>
                     bind_err (executor_ids (int (length (x # xs)))) (\<lambda>expected.
                       if map_opt as_str (x # xs) = Some expected then Inr expected
                       else Inl (Exc ''RuntimeError'' ''Workflow Executor pool state has invalid executor_ids''))
                 | _ \<Rightarrow> Inl (Exc ''RuntimeError'' ''Workflow Executor pool state has no executor_ids''))))"

section \<open>Leases\<close>

text \<open>
  A lease is its path and whether it holds the lock. One try of the loop sees whether the
  lock is free and whether the deadline has passed; \<open>None\<close>: still trying at the end.
\<close>

record lease =
  path :: string
  handle :: bool

record lock_try =
  free :: bool
  past_deadline :: bool

definition unavailable_lease :: exc where
  "unavailable_lease = Exc ''ExecutorLeaseUnavailable'' ''another Workflow Executor still owns the process lease''"

fun lease_tries :: "lock_try list \<Rightarrow> lease \<Rightarrow> (exc + lease) option" where
  "lease_tries [] l = None"
| "lease_tries (t # ts) l =
     (if free t then Some (Inr (l\<lparr>handle := True\<rparr>))
      else if past_deadline t then Some (Inl unavailable_lease)
      else lease_tries ts l)"

definition lease_acquire :: "bool \<Rightarrow> lock_try list \<Rightarrow> lease \<Rightarrow> (exc + lease) option" where
  "lease_acquire symlink ts l =
     (if symlink then Some (Inl (Exc ''ExecutorLeaseUnavailable'' ''Executor lease path must not be a symlink''))
      else lease_tries ts l)"

definition lease_release :: "lease \<Rightarrow> lease" where
  "lease_release l = l\<lparr>handle := False\<rparr>"

text \<open>
  The group acquires its leases in order; at the first exception those acquired are
  released. \<open>outcome l\<close> is what acquiring the lease \<open>l\<close> gives.
\<close>

fun group_acquire :: "(lease \<Rightarrow> exc + lease) \<Rightarrow> lease list \<Rightarrow> exc option \<times> lease list" where
  "group_acquire outcome [] = (None, [])"
| "group_acquire outcome (l # ls) =
     (case outcome l of
        Inl e \<Rightarrow> (Some e, l # ls)
      | Inr l' \<Rightarrow>
          (case group_acquire outcome ls of
             (Some e, ls') \<Rightarrow> (Some e, lease_release l' # ls')
           | (None, ls') \<Rightarrow> (None, l' # ls')))"

definition group_release :: "lease list \<Rightarrow> lease list" where
  "group_release ls = map lease_release ls"

definition new_lease :: "string \<Rightarrow> lease" where
  "new_lease p = \<lparr>path = p, handle = False\<rparr>"

definition for_inline :: "state_file \<Rightarrow> int \<Rightarrow> exc + lease list" where
  "for_inline f count =
     bind_err (load_recorded_executor_ids f) (\<lambda>recorded.
     bind_err (executor_ids count) (\<lambda>ids.
       map_err (\<lambda>i. bind_err (executor_lease_path i) (\<lambda>p. Inr (new_lease p)))
         (sorted_list_of_set (set recorded \<union> set ids))))"

section \<open>The pool\<close>

record supervised =
  sup_identity :: identity
  sup_ready :: bool
  sup_client :: bool
  sup_pid :: "int option"

record pool_state =
  pool_ids :: "string list"
  supervisors :: "(string, supervised) dict"
  retired :: "lease list"
  selection_index :: nat
  started :: bool
  state_doc :: state_file

definition new_pool :: "int \<Rightarrow> state_file \<Rightarrow> exc + pool_state" where
  "new_pool count f =
     bind_err (executor_ids count) (\<lambda>ids.
       Inr \<lparr>pool_ids = ids, supervisors = [], retired = [], selection_index = 0, started = False, state_doc = f\<rparr>)"

text \<open>\<open>identities\<close> raises \<open>KeyError\<close> when a member has no supervisor.\<close>

definition identities :: "pool_state \<Rightarrow> exc + identity list" where
  "identities p =
     map_err (\<lambda>i. case dget (supervisors p) i of
         None \<Rightarrow> Inl (Exc ''KeyError'' i)
       | Some s \<Rightarrow> Inr (sup_identity s)) (pool_ids p)"

definition member_pids :: "pool_state \<Rightarrow> (string, int option) dict" where
  "member_pids p = map (\<lambda>(i, s). (i, sup_pid s)) (supervisors p)"

definition client_for :: "pool_state \<Rightarrow> string \<Rightarrow> exc + supervised" where
  "client_for p i =
     (case dget (supervisors p) i of
        Some s \<Rightarrow> if sup_client s then Inr s
          else Inl (Exc ''ExecutorUnavailable'' (''Workflow Executor is not in the active pool: '' @ i))
      | None \<Rightarrow> Inl (Exc ''ExecutorUnavailable'' (''Workflow Executor is not in the active pool: '' @ i)))"

definition selectable :: "pool_state \<Rightarrow> nat \<Rightarrow> supervised option" where
  "selectable p i =
     (case dget (supervisors p) (pool_ids p ! (i mod length (pool_ids p))) of
        Some s \<Rightarrow> if sup_ready s \<and> sup_client s then Some s else None
      | None \<Rightarrow> None)"

fun select_loop :: "nat \<Rightarrow> pool_state \<Rightarrow> supervised option \<times> pool_state" where
  "select_loop 0 p = (None, p)"
| "select_loop (Suc n) p =
     (let p' = p\<lparr>selection_index := Suc (selection_index p)\<rparr>
      in case selectable p (selection_index p) of
           Some s \<Rightarrow> (Some s, p')
         | None \<Rightarrow> select_loop n p')"

definition select_client :: "pool_state \<Rightarrow> (exc + supervised) \<times> pool_state" where
  "select_client p =
     (if \<not> started p then (Inl (Exc ''ExecutorUnavailable'' ''Workflow Executor pool has not started''), p)
      else (case select_loop (length (pool_ids p)) p of
              (Some s, p') \<Rightarrow> (Inr s, p')
            | (None, p') \<Rightarrow> (Inl (Exc ''ExecutorUnavailable'' ''No ready Workflow Executor is available''), p')))"

definition stop :: "pool_state \<Rightarrow> pool_state" where
  "stop p = p\<lparr>started := False, supervisors := [], retired := []\<rparr>"

text \<open>
  Starting: the leases of the retired members, then the supervisors in order, then the state
  file. \<open>lock i\<close> and \<open>boot i\<close> are what taking the lease and starting the supervisor of \<open>i\<close> give.
\<close>

fun take_retired :: "(string \<Rightarrow> exc + unit) \<Rightarrow> string list \<Rightarrow> pool_state \<Rightarrow> (exc + unit) \<times> pool_state" where
  "take_retired lock [] p = (Inr (), p)"
| "take_retired lock (i # ms) p =
     (case bind_err (executor_lease_path i) (\<lambda>f. bind_err (lock i) (\<lambda>_. Inr f)) of
        Inl e \<Rightarrow> (Inl e, p)
      | Inr f \<Rightarrow> take_retired lock ms (p\<lparr>retired := retired p @ [\<lparr>path = f, handle = True\<rparr>]\<rparr>))"

text \<open>A supervisor is entered in the table before it starts.\<close>

fun boot_members :: "(string \<Rightarrow> supervised \<times> exc option) \<Rightarrow> string list \<Rightarrow> pool_state \<Rightarrow> (exc + unit) \<times> pool_state" where
  "boot_members boot [] p = (Inr (), p)"
| "boot_members boot (i # ms) p =
     (case executor_lease_path i of
        Inl e \<Rightarrow> (Inl e, p)
      | Inr _ \<Rightarrow>
          (let (s, err) = boot i; p' = p\<lparr>supervisors := dput i s (supervisors p)\<rparr>
           in case err of Some e \<Rightarrow> (Inl e, p') | None \<Rightarrow> boot_members boot ms p'))"

definition start_members ::
    "(string \<Rightarrow> exc + unit) \<Rightarrow> (string \<Rightarrow> supervised \<times> exc option) \<Rightarrow> exc option \<Rightarrow> string list \<Rightarrow> pool_state \<Rightarrow>
      (exc + unit) \<times> pool_state" where
  "start_members lock boot save previous p =
     (case take_retired lock (sorted_list_of_set (set previous - set (pool_ids p))) p of
        (Inl e, p1) \<Rightarrow> (Inl e, p1)
      | (Inr _, p1) \<Rightarrow>
          (case boot_members boot (pool_ids p1) p1 of
             (Inl e, p2) \<Rightarrow> (Inl e, p2)
           | (Inr _, p2) \<Rightarrow>
               (case save of
                  Some e \<Rightarrow> (Inl e, p2)
                | None \<Rightarrow> (Inr (), p2\<lparr>state_doc := Document (pool_document (pool_ids p2)), started := True\<rparr>))))"

text \<open>
  A start that fails is undone by \<open>stop\<close>. The errors here are those the code catches with
  \<open>except Exception\<close>; a start that is cancelled (\<open>CancelledError\<close> is no \<open>Exception\<close>) is not undone by
  the code and is outside the model.
\<close>

definition start ::
    "(string \<Rightarrow> exc + unit) \<Rightarrow> (string \<Rightarrow> supervised \<times> exc option) \<Rightarrow> exc option \<Rightarrow> pool_state \<Rightarrow>
      (exc + unit) \<times> pool_state" where
  "start lock boot save p =
     (if started p \<or> supervisors p \<noteq> []
      then (Inl (Exc ''RuntimeError'' ''Workflow Executor pool already started''), p)
      else (case load_recorded_executor_ids (state_doc p) of
              Inl e \<Rightarrow> (Inl e, p)
            | Inr previous \<Rightarrow>
                (case start_members lock boot save previous p of
                   (Inl e, p') \<Rightarrow> (Inl e, stop p')
                 | (Inr _, p') \<Rightarrow> (Inr (), p'))))"

text \<open>A restart is passed on only by a started pool that has a callback.\<close>

definition handle_restart :: "pool_state \<Rightarrow> bool \<Rightarrow> identity \<Rightarrow> identity \<Rightarrow> (identity \<times> identity) list" where
  "handle_restart p has_callback previous current = (if started p \<and> has_callback then [(previous, current)] else [])"

section \<open>Identifiers and their files\<close>

lemma show_nat_inj: "show_nat m = show_nat n \<longleftrightarrow> m = n"
  using digits_val_show by metis

lemma member_id_inj: "member_id i = member_id j \<longleftrightarrow> i = j"
  by (simp add: member_id_def show_nat_inj)

lemma lease_path_member:
  "executor_lease_path (member_id i) =
     Inr (if i = 0 then ''workflow-executor.lock'' else ''workflow-executor-'' @ show_nat i @ ''.lock'')"
proof -
  have d: "list_all ascii_digit (show_nat i)" "show_nat i \<noteq> []" using show_nat_digits [of i] by auto
  then have "list_all py_digit (show_nat i)" by (auto simp: list_all_iff py_digit_def)
  moreover have "id_suffix (member_id i) = show_nat i"
    by (simp add: id_suffix_def member_id_def starts_with_def)
  ultimately show ?thesis
    using d py_int_digits [OF d] by (simp add: executor_lease_path_def digits_val_show show_int_def)
qed

lemma executor_ids_Inr:
  "executor_ids n = Inr ids \<longleftrightarrow> 1 \<le> n \<and> n \<le> 32 \<and> ids = map member_id [0..<nat n]"
  by (auto simp: executor_ids_def)

lemma executor_ids_distinct: "executor_ids n = Inr ids \<Longrightarrow> distinct ids \<and> ids \<noteq> [] \<and> int (length ids) = n"
  by (auto simp: executor_ids_Inr distinct_map inj_on_def member_id_inj)

lemma load_pool_document:
  assumes "executor_ids n = Inr ids"
  shows "load_recorded_executor_ids (Document (pool_document ids)) = Inr ids"
proof -
  obtain x xs where ids: "ids = x # xs" using executor_ids_distinct [OF assms] by (cases ids) auto
  moreover have "int (length ids) = n" using executor_ids_distinct [OF assms] by blast
  ultimately show ?thesis
    using assms by (simp add: load_recorded_executor_ids_def pool_document_def map_opt_map)
qed

lemma load_recorded_members:
  "load_recorded_executor_ids f = Inr ids \<Longrightarrow> \<exists>n. executor_ids n = Inr ids"
proof (cases f)
  case Absent
  assume "load_recorded_executor_ids f = Inr ids"
  moreover have "member_id 0 = ''workflow-executor-0''" by (simp add: member_id_def show_nat_0)
  ultimately have "executor_ids 1 = Inr ids"
    using Absent by (auto simp: load_recorded_executor_ids_def executor_ids_Inr)
  then show ?thesis by blast
qed (auto simp: load_recorded_executor_ids_def bind_err_Inr_iff split: if_split_asm pyval.splits list.splits)

section \<open>The lease group\<close>

lemma group_acquire_paths:
  assumes "\<And>l l'. outcome l = Inr l' \<Longrightarrow> path l' = path l \<and> handle l'"
    and "\<forall>l\<in>set ls. \<not> handle l" and "group_acquire outcome ls = (r, ls')"
  shows "map path ls' = map path ls \<and>
    (if r = None then (\<forall>l\<in>set ls'. handle l) else (\<forall>l\<in>set ls'. \<not> handle l))"
  using assms(2,3)
proof (induction ls arbitrary: r ls')
  case (Cons l ls)
  show ?case
  proof (cases "outcome l")
    case (Inl e)
    then show ?thesis using Cons.prems by auto
  next
    case (Inr l')
    obtain r2 ls2 where g: "group_acquire outcome ls = (r2, ls2)" by force
    have "map path ls2 = map path ls \<and> (if r2 = None then (\<forall>l\<in>set ls2. handle l) else (\<forall>l\<in>set ls2. \<not> handle l))"
      using Cons.IH [OF _ g] Cons.prems(1) by simp
    then show ?thesis
      using Cons.prems(2) Inr g assms(1) [OF Inr] by (cases r2) (auto simp: lease_release_def)
  qed
qed simp

lemma group_acquire_refused:
  "l \<in> set ls \<Longrightarrow> outcome l = Inl e \<Longrightarrow> fst (group_acquire outcome ls) \<noteq> None"
  by (induction ls) (auto split: sum.splits prod.splits option.splits)

section \<open>Starting\<close>

lemma take_retired_frame:
  "take_retired lock ids p = (r, p') \<Longrightarrow>
     pool_ids p' = pool_ids p \<and> supervisors p' = supervisors p \<and> started p' = started p \<and> state_doc p' = state_doc p \<and>
     (\<exists>ls. retired p' = retired p @ ls \<and> (\<forall>l\<in>set ls. handle l) \<and>
        (r = Inr () \<longrightarrow> map (Inr \<circ> path) ls = map executor_lease_path ids))"
proof (induction lock ids p rule: take_retired.induct)
  case (2 lock i ms p)
  show ?case
  proof (cases "bind_err (executor_lease_path i) (\<lambda>f. bind_err (lock i) (\<lambda>_. Inr f))")
    case (Inl e)
    then show ?thesis using "2.prems" by auto
  next
    case (Inr f)
    then have f: "executor_lease_path i = Inr f" by (auto simp: bind_err_Inr_iff)
    have "take_retired lock ms (p\<lparr>retired := retired p @ [\<lparr>path = f, handle = True\<rparr>]\<rparr>) = (r, p')"
      using "2.prems" Inr by simp
    from "2.IH" [OF Inr this] f show ?thesis by force
  qed
qed auto

lemma boot_members_frame:
  "boot_members boot ids p = (r, p') \<Longrightarrow>
     pool_ids p' = pool_ids p \<and> retired p' = retired p \<and> started p' = started p \<and> state_doc p' = state_doc p \<and>
     (r = Inr () \<longrightarrow> set ids \<inter> set (dkeys (supervisors p)) = {} \<longrightarrow> distinct ids \<longrightarrow>
        dkeys (supervisors p') = dkeys (supervisors p) @ ids)"
proof (induction boot ids p rule: boot_members.induct)
  case (2 boot i ms p)
  obtain s err where b: "boot i = (s, err)" by force
  show ?case
  proof (cases "executor_lease_path i")
    case (Inr f)
    show ?thesis
    proof (cases err)
      case None
      have rec: "boot_members boot ms (p\<lparr>supervisors := dput i s (supervisors p)\<rparr>) = (r, p')"
        using "2.prems" Inr b None by simp
      from "2.IH" [OF Inr b [symmetric] refl refl None rec] show ?thesis by (auto simp: dkeys_dput)
    qed (use "2.prems" Inr b in auto)
  qed (use "2.prems" in auto)
qed auto

text \<open>
  C36. Starting the pool is all or nothing. When \<open>start\<close> returns, every member has its
  supervisor, in order, every member the previous pool had and this one has not is locked
  out by a held lease, and the state file records the members; when it raises, no supervisor
  and no lease is left, the pool is not started, and the state file is as it was.
\<close>

theorem start_all_or_nothing:
  assumes "executor_ids n = Inr (pool_ids p)" and "\<not> started p" and "supervisors p = []" and "retired p = []"
    and "start lock boot save p = (r, p')"
  shows "case r of
      Inl e \<Rightarrow> \<not> started p' \<and> supervisors p' = [] \<and> retired p' = [] \<and> state_doc p' = state_doc p
    | Inr _ \<Rightarrow> started p' \<and> dkeys (supervisors p') = pool_ids p \<and>
        (\<exists>previous. load_recorded_executor_ids (state_doc p) = Inr previous \<and>
           Inr ` path ` set (retired p') = executor_lease_path ` (set previous - set (pool_ids p))) \<and>
        (\<forall>l\<in>set (retired p'). handle l) \<and> load_recorded_executor_ids (state_doc p') = Inr (pool_ids p)"
proof (cases "load_recorded_executor_ids (state_doc p)")
  case (Inl e)
  then show ?thesis using assms(2-5) by (auto simp: start_def)
next
  case (Inr previous)
  obtain r1 p1 where t: "take_retired lock (sorted_list_of_set (set previous - set (pool_ids p))) p = (r1, p1)" by force
  obtain r2 p2 where b: "boot_members boot (pool_ids p1) p1 = (r2, p2)" by force
  from take_retired_frame [OF t] assms(4) obtain ls where t1: "pool_ids p1 = pool_ids p" "supervisors p1 = []"
    "state_doc p1 = state_doc p" "retired p1 = ls" "\<forall>l\<in>set ls. handle l"
    "r1 = Inr () \<Longrightarrow> map (Inr \<circ> path) ls = map executor_lease_path (sorted_list_of_set (set previous - set (pool_ids p)))"
    using assms(3) by auto
  note b1 = boot_members_frame [OF b]
  have d: "distinct (pool_ids p)" using executor_ids_distinct [OF assms(1)] by blast
  have paths: "Inr ` path ` set ls = executor_lease_path ` (set previous - set (pool_ids p))" if "r1 = Inr ()"
  proof -
    have "set (map (Inr \<circ> path) ls) = set (map executor_lease_path (sorted_list_of_set (set previous - set (pool_ids p))))"
      using t1(6) [OF that] by simp
    then show ?thesis by (simp add: image_comp)
  qed
  obtain r3 p3 where m: "start_members lock boot save previous p = (r3, p3)" by force
  have docs: "state_doc p2 = state_doc p" "pool_ids p2 = pool_ids p" "retired p2 = ls" using b1 t1(1,3,4) by auto
  show ?thesis
  proof (cases r3)
    case (Inl e)
    have "state_doc p3 = state_doc p"
      using m Inl docs t1(3) by (auto simp: start_members_def t b split: sum.splits option.splits)
    moreover have "r = Inl e" "p' = stop p3"
      using assms(2,3,5) \<open>load_recorded_executor_ids (state_doc p) = Inr previous\<close> m Inl by (simp_all add: start_def)
    ultimately show ?thesis by (simp add: stop_def)
  next
    case (Inr u)
    have e: "r1 = Inr ()" "r2 = Inr ()" "p3 = p2\<lparr>state_doc := Document (pool_document (pool_ids p2)), started := True\<rparr>"
      using m Inr by (auto simp: start_members_def t b split: sum.splits option.splits)
    have "dkeys (supervisors p2) = pool_ids p" using b1 e(2) t1(1,2) d by simp
    moreover have "r = Inr u" "p' = p3"
      using assms(2,3,5) \<open>load_recorded_executor_ids (state_doc p) = Inr previous\<close> m Inr by (simp_all add: start_def)
    ultimately show ?thesis
      using e(3) docs t1(5) paths [OF e(1)] \<open>load_recorded_executor_ids (state_doc p) = Inr previous\<close>
        load_pool_document [OF assms(1)] by simp
  qed
qed

definition two_pool :: pool_state where
  "two_pool = \<lparr>pool_ids = map member_id [0..<2], supervisors = [], retired = [], selection_index = 0, started = False,
     state_doc = Document (pool_document (map member_id [0..<3]))\<rparr>"

definition boot_ok :: "string \<Rightarrow> supervised \<times> exc option" where
  "boot_ok i = (\<lparr>sup_identity = \<lparr>executor_id = i, epoch = ''g1''\<rparr>, sup_ready = True, sup_client = True, sup_pid = Some 7\<rparr>, None)"

definition two_started :: "(exc + unit) \<times> pool_state" where
  "two_started = start (\<lambda>_. Inr ()) boot_ok None two_pool"

lemma two_pool_ids: "executor_ids 2 = Inr (pool_ids two_pool)"
  by (simp add: executor_ids_Inr two_pool_def)

lemma start_all_or_nothing_witness:
  "case fst two_started of
      Inl e \<Rightarrow> \<not> started (snd two_started) \<and> supervisors (snd two_started) = [] \<and>
        retired (snd two_started) = [] \<and> state_doc (snd two_started) = state_doc two_pool
    | Inr _ \<Rightarrow> started (snd two_started) \<and> dkeys (supervisors (snd two_started)) = pool_ids two_pool \<and>
        (\<exists>previous. load_recorded_executor_ids (state_doc two_pool) = Inr previous \<and>
           Inr ` path ` set (retired (snd two_started)) = executor_lease_path ` (set previous - set (pool_ids two_pool))) \<and>
        (\<forall>l\<in>set (retired (snd two_started)). handle l) \<and>
        load_recorded_executor_ids (state_doc (snd two_started)) = Inr (pool_ids two_pool)"
proof (rule start_all_or_nothing [OF two_pool_ids])
  show "start (\<lambda>_. Inr ()) boot_ok None two_pool = (fst two_started, snd two_started)"
    by (simp add: two_started_def)
qed (simp_all add: two_pool_def)

section \<open>Selecting a member\<close>

lemma select_loop_spec:
  "select_loop n p = (r, p') \<Longrightarrow>
     (case r of
        None \<Rightarrow> (\<forall>j<n. selectable p (selection_index p + j) = None) \<and> p' = p\<lparr>selection_index := selection_index p + n\<rparr>
      | Some s \<Rightarrow> (\<exists>k<n. selectable p (selection_index p + k) = Some s \<and>
          (\<forall>j<k. selectable p (selection_index p + j) = None) \<and> p' = p\<lparr>selection_index := selection_index p + k + 1\<rparr>))"
proof (induction n arbitrary: p)
  case (Suc n)
  let ?q = "p\<lparr>selection_index := Suc (selection_index p)\<rparr>"
  have q: "selectable ?q j = selectable p j" for j by (simp add: selectable_def)
  show ?case
  proof (cases "selectable p (selection_index p)")
    case (Some s)
    then have "r = Some s" "p' = ?q" using Suc.prems by auto
    then show ?thesis using Some by (auto intro!: exI [of _ 0])
  next
    case None
    then have rec: "select_loop n ?q = (r, p')" using Suc.prems by simp
    have shift: "(\<forall>j<Suc k. selectable p (selection_index p + j) = None) \<longleftrightarrow>
        (\<forall>j<k. selectable p (Suc (selection_index p) + j) = None)" for k
      using None by (auto simp: less_Suc_eq_0_disj)
    show ?thesis
    proof (cases r)
      case (Some s)
      with Suc.IH [OF rec] q obtain k where "k < n" "selectable p (Suc (selection_index p) + k) = Some s"
        "\<forall>j<k. selectable p (Suc (selection_index p) + j) = None" "p' = ?q\<lparr>selection_index := Suc (selection_index p) + k + 1\<rparr>"
        by auto
      then show ?thesis using Some shift [of k] by (auto intro!: exI [of _ "Suc k"])
    next
      case r: None
      with Suc.IH [OF rec] q show ?thesis using shift [of n] by auto
    qed
  qed
qed simp

lemma selectable_member:
  "(\<exists>j<length (pool_ids p). selectable p (i + j) = Some s) \<longleftrightarrow>
     (\<exists>m\<in>set (pool_ids p). dget (supervisors p) m = Some s \<and> sup_ready s \<and> sup_client s)"
proof
  assume "\<exists>j<length (pool_ids p). selectable p (i + j) = Some s"
  then obtain j where j: "j < length (pool_ids p)" "selectable p (i + j) = Some s" by blast
  then have "(i + j) mod length (pool_ids p) < length (pool_ids p)" by (metis mod_less_divisor not_less_zero neq0_conv)
  then show "\<exists>m\<in>set (pool_ids p). dget (supervisors p) m = Some s \<and> sup_ready s \<and> sup_client s"
    using j(2) by (intro bexI [of _ "pool_ids p ! ((i + j) mod length (pool_ids p))"])
      (auto simp: selectable_def split: option.splits if_split_asm)
next
  assume "\<exists>m\<in>set (pool_ids p). dget (supervisors p) m = Some s \<and> sup_ready s \<and> sup_client s"
  then obtain k where k: "k < length (pool_ids p)" "dget (supervisors p) (pool_ids p ! k) = Some s" "sup_ready s" "sup_client s"
    by (auto simp: in_set_conv_nth)
  let ?n = "length (pool_ids p)"
  define j where "j = (k + ?n - i mod ?n) mod ?n"
  have "(i + j) mod ?n = (i mod ?n + (k + ?n - i mod ?n)) mod ?n"
    by (simp add: j_def mod_simps)
  also have "\<dots> = (k + ?n) mod ?n"
  proof -
    have "i mod ?n \<le> k + ?n" using k(1) by (metis add_leD2 less_imp_le_nat mod_less_divisor gr_implies_not0 neq0_conv trans_le_add2)
    then show ?thesis by simp
  qed
  also have "\<dots> = k" using k(1) by simp
  finally have "selectable p (i + j) = Some s" using k by (simp add: selectable_def)
  moreover have "j < ?n" unfolding j_def by (rule mod_less_divisor) (use k(1) in linarith)
  ultimately show "\<exists>j<?n. selectable p (i + j) = Some s" by blast
qed

text \<open>
  A started pool selects a ready member whenever it has one, and takes turns: the client
  chosen is that of the first ready member at or after the cursor, in cyclic order, and the
  cursor moves just past it; it raises only when no member is ready. Nothing else changes.
\<close>

theorem select_client_takes_turns:
  assumes "started p" and "select_client p = (r, p')"
  shows "case r of
      Inl e \<Rightarrow> \<not> (\<exists>m\<in>set (pool_ids p). \<exists>s. dget (supervisors p) m = Some s \<and> sup_ready s \<and> sup_client s)
    | Inr s \<Rightarrow> \<exists>k<length (pool_ids p). selectable p (selection_index p + k) = Some s \<and>
        (\<forall>j<k. selectable p (selection_index p + j) = None) \<and> p' = p\<lparr>selection_index := selection_index p + k + 1\<rparr>"
proof -
  obtain o1 q where l: "select_loop (length (pool_ids p)) p = (o1, q)" by force
  show ?thesis
  proof (cases o1)
    case None
    then have "\<forall>j<length (pool_ids p). selectable p (selection_index p + j) = None"
      using select_loop_spec [OF l] by simp
    then have "\<not> (\<exists>m\<in>set (pool_ids p). dget (supervisors p) m = Some s \<and> sup_ready s \<and> sup_client s)" for s
      unfolding selectable_member [of p "selection_index p" s, symmetric] by auto
    moreover have "r = Inl (Exc ''ExecutorUnavailable'' ''No ready Workflow Executor is available'')"
      using assms l None by (simp add: select_client_def)
    ultimately show ?thesis by auto
  next
    case (Some s)
    then show ?thesis using assms l select_loop_spec [OF l] by (auto simp: select_client_def)
  qed
qed

text \<open>Two members, of which only the second is up.\<close>

definition half_pool :: pool_state where
  "half_pool = two_pool\<lparr>started := True, supervisors := [(member_id 1, fst (boot_ok (member_id 1)))]\<rparr>"

lemma select_client_takes_turns_witness:
  "\<exists>k<2. selectable half_pool k = Some (fst (boot_ok (member_id 1))) \<and>
     (\<forall>j<k. selectable half_pool j = None) \<and> snd (select_client half_pool) = half_pool\<lparr>selection_index := k + 1\<rparr>"
proof -
  have "select_client half_pool = (Inr (fst (boot_ok (member_id 1))), half_pool\<lparr>selection_index := 2\<rparr>)"
    by (simp add: half_pool_def two_pool_def select_client_def selectable_def member_id_inj boot_ok_def
        upt_rec numeral_2_eq_2 Let_def)
  moreover have "started half_pool" "selection_index half_pool = 0" "length (pool_ids half_pool) = 2"
    by (simp_all add: half_pool_def two_pool_def)
  ultimately show ?thesis using select_client_takes_turns [of half_pool] by force
qed

section \<open>The inline engine and a process pool exclude each other\<close>

lemma for_inline_paths:
  assumes "load_recorded_executor_ids f = Inr recorded" and "for_inline f count = Inr ls" and "i \<in> set recorded"
    and "executor_lease_path i = Inr file"
  shows "new_lease file \<in> set ls"
proof -
  obtain ids where "executor_ids count = Inr ids"
    and l: "list_all2 (\<lambda>i l. bind_err (executor_lease_path i) (\<lambda>p. Inr (new_lease p)) = Inr l)
      (sorted_list_of_set (set recorded \<union> set ids)) ls"
    using assms(1,2) by (auto simp: for_inline_def bind_err_Inr_iff map_err_Inr_iff)
  have "i \<in> set (sorted_list_of_set (set recorded \<union> set ids))" using assms(3) by simp
  then obtain k where "k < length (sorted_list_of_set (set recorded \<union> set ids))"
    "sorted_list_of_set (set recorded \<union> set ids) ! k = i" unfolding in_set_conv_nth by blast
  then have "k < length ls" "Inr (new_lease file) = (Inr (ls ! k) :: exc + lease)"
    using l assms(4) by (auto simp: list_all2_conv_all_nth)
  then show ?thesis by (metis nth_mem sum.inject(2))
qed

lemma list_all2_set2: "list_all2 P xs ys \<Longrightarrow> y \<in> set ys \<Longrightarrow> \<exists>x\<in>set xs. P x y"
  by (induction rule: list_all2_induct) auto

lemma for_inline_free: "for_inline f count = Inr ls \<Longrightarrow> l \<in> set ls \<Longrightarrow> \<not> handle l"
  by (auto simp: for_inline_def bind_err_Inr_iff map_err_Inr_iff new_lease_def dest!: list_all2_set2)

text \<open>
  C37. The inline engine cannot start beside a running pool: from the state file that a pool
  leaves when it starts, the lease group of the inline engine contains the lease file of
  every member, so while one member still holds its lease the group's \<open>acquire\<close> raises, and
  it leaves none of its leases held.
\<close>

theorem inline_excluded_by_pool:
  assumes "executor_ids n = Inr (pool_ids p)" and "load_recorded_executor_ids (state_doc p) = Inr (pool_ids p)"
    and "m \<in> set (pool_ids p)" and "executor_lease_path m = Inr file"
    and "for_inline (state_doc p) count = Inr ls"
    and "\<And>l l'. outcome l = Inr l' \<Longrightarrow> path l' = path l \<and> handle l'"
    and "\<And>l. path l = file \<Longrightarrow> outcome l = Inl unavailable_lease"
  shows "\<exists>e ls'. group_acquire outcome ls = (Some e, ls') \<and> (\<forall>l\<in>set ls'. \<not> handle l)"
proof -
  have "new_lease file \<in> set ls" using for_inline_paths assms(2-5) by blast
  then have "fst (group_acquire outcome ls) \<noteq> None"
    using group_acquire_refused assms(7) by (metis lease.select_convs(1) new_lease_def)
  then obtain e ls' where g: "group_acquire outcome ls = (Some e, ls')" by (metis not_None_eq prod.collapse)
  have "\<forall>l\<in>set ls. \<not> handle l" using for_inline_free [OF assms(5)] by blast
  then show ?thesis using group_acquire_paths [OF assms(6) _ g] g by auto
qed

text \<open>The member 1 of two still holds its lease; everything else is free.\<close>

definition one_held :: "lease \<Rightarrow> exc + lease" where
  "one_held l = (if path l = ''workflow-executor-1.lock'' then Inl unavailable_lease else Inr (l\<lparr>handle := True\<rparr>))"

lemma inline_excluded_by_pool_witness:
  "\<exists>ls e ls'. for_inline (Document (pool_document (map member_id [0..<2]))) 1 = Inr ls \<and>
     group_acquire one_held ls = (Some e, ls') \<and> (\<forall>l\<in>set ls'. \<not> handle l)"
proof -
  let ?p = "two_pool\<lparr>state_doc := Document (pool_document (map member_id [0..<2]))\<rparr>"
  have r: "load_recorded_executor_ids (state_doc ?p) = Inr (map member_id [0..<2])"
    using load_pool_document [OF two_pool_ids] by (simp add: two_pool_def)
  have "executor_lease_path i \<noteq> Inl e" if "i \<in> range member_id" for i e
    using that by (auto simp: lease_path_member)
  then have ok: "map_err (\<lambda>i. bind_err (executor_lease_path i) (\<lambda>p. Inr (new_lease p))) xs \<noteq> Inl e"
    if "set xs \<subseteq> range member_id" for xs e
    using that by (induction xs) (auto simp: bind_err_Inl_iff)
  let ?ids = "sorted_list_of_set (set (map member_id [0..<2]) \<union> set (map member_id [0..<1]))"
  have e: "executor_ids 1 = Inr (map member_id [0..<1])" by (simp add: executor_ids_Inr)
  have "for_inline (state_doc ?p) 1 = map_err (\<lambda>i. bind_err (executor_lease_path i) (\<lambda>p. Inr (new_lease p))) ?ids"
    by (simp only: for_inline_def r e bind_err_simps)
  moreover have "set ?ids \<subseteq> range member_id" by auto
  ultimately have "\<exists>ls. for_inline (state_doc ?p) 1 = Inr ls"
    using ok [of ?ids] by (cases "for_inline (state_doc ?p) 1") auto
  then obtain ls where ls: "for_inline (state_doc ?p) 1 = Inr ls" by blast
  have pth: "executor_lease_path (member_id 1) = Inr ''workflow-executor-1.lock''"
  proof -
    have "digit_char (Suc 0) = CHR ''1''"
      by (simp add: code_inj [symmetric] digit_char_def code_char_of) (simp add: code_def)
    then show ?thesis by (simp add: lease_path_member show_nat.simps)
  qed
  have "\<exists>e ls'. group_acquire one_held ls = (Some e, ls') \<and> (\<forall>l\<in>set ls'. \<not> handle l)"
  proof (rule inline_excluded_by_pool [of 2 ?p "member_id 1" _ 1 ls one_held, OF _ _ _ pth ls])
    show "load_recorded_executor_ids (state_doc ?p) = Inr (pool_ids ?p)" using r by (simp add: two_pool_def)
    show "member_id 1 \<in> set (pool_ids ?p)" by (simp add: two_pool_def)
  qed (use two_pool_ids in \<open>auto simp: one_held_def split: if_split_asm\<close>)
  then show ?thesis using ls by (simp add: two_pool_def)
qed

end
