(* ===== verification/ExecutionRouting.thy ===== *)
theory ExecutionRouting
  imports RuntimeModels ExecutorPool
begin

text \<open>
  Sticky ownership of tasks, \<open>src/workflow/execution_routing.py\<close>: which executor a task
  belongs to, when an operation is sent to it, and how tasks are bound to live executors
  after a restart. A client is the identity it is for; what a call to it gives is an
  argument. Each operation returns the tasks it saved, in order.
\<close>

section \<open>Owners\<close>

abbreviation owner_id :: "task \<Rightarrow> string option" where
  "owner_id t \<equiv> RuntimeModels.task.executor_id t"

abbreviation owner_epoch :: "task \<Rightarrow> string option" where
  "owner_epoch t \<equiv> RuntimeModels.task.executor_epoch t"

definition set_owner :: "string \<Rightarrow> string \<Rightarrow> task \<Rightarrow> task" where
  "set_owner i e t =
     RuntimeModels.task.executor_epoch_update (\<lambda>_. Some e) (RuntimeModels.task.executor_id_update (\<lambda>_. Some i) t)"

definition owned_by :: "task \<Rightarrow> identity \<Rightarrow> bool" where
  "owned_by t i = (owner_id t = Some (identity.executor_id i) \<and> owner_epoch t = Some (identity.epoch i))"

datatype message = NotThisGeneration | NotInPool "string option" | HandoverPending | Says string

record executor_error =
  error_code :: string
  error_message :: message

definition executor_error :: "message \<Rightarrow> executor_error" where
  "executor_error m = \<lparr>error_code = ''executor_unavailable'', error_message = m\<rparr>"

definition stale_error :: "message \<Rightarrow> executor_error" where
  "stale_error m = \<lparr>error_code = ''executor_epoch_stale'', error_message = m\<rparr>"

definition task_ownership_error :: "identity option \<Rightarrow> task \<Rightarrow> executor_error option" where
  "task_ownership_error local_identity t =
     (case local_identity of
        None \<Rightarrow> None
      | Some i \<Rightarrow> if owned_by t i then None else Some (stale_error NotThisGeneration))"

section \<open>Delegation\<close>

text \<open>The delegate is a pool, or one client.\<close>

datatype delegate = Pool pool_state | Client identity

definition should_delegate_task :: "delegate option \<Rightarrow> task \<Rightarrow> bool" where
  "should_delegate_task d t =
     (if d = None \<or> owner_id t = Some ''controller'' then False
      else \<not> main_takeover t \<and> task_status t \<noteq> ''pre_running'')"

fun delegate_client_for_task :: "delegate \<Rightarrow> task \<Rightarrow> bool \<Rightarrow> (exc + identity option) \<times> delegate" where
  "delegate_client_for_task (Client i) t allow = (Inr (Some i), Client i)"
| "delegate_client_for_task (Pool p) t allow =
     (case owner_id t of
        Some o' \<Rightarrow>
          (case client_for p o' of
             Inr s \<Rightarrow> (Inr (Some (sup_identity s)), Pool p)
           | Inl _ \<Rightarrow> (Inr None, Pool p))
      | None \<Rightarrow>
          (if allow then
             (case select_client p of
                (Inl e, p') \<Rightarrow> (Inl e, Pool p')
              | (Inr s, p') \<Rightarrow> (Inr (Some (sup_identity s)), Pool p'))
           else (Inr None, Pool p)))"

text \<open>The result carries the client, the delegate and the task after the call, and what was saved.\<close>

record assigned =
  a_client :: "identity option"
  a_delegate :: delegate
  a_task :: task
  a_saved :: "task list"

definition assign_delegate :: "delegate \<Rightarrow> task \<Rightarrow> exc + assigned" where
  "assign_delegate d t =
     (case delegate_client_for_task d t True of
        (Inl e, _) \<Rightarrow> Inl e
      | (Inr None, d') \<Rightarrow> Inr \<lparr>a_client = None, a_delegate = d', a_task = t, a_saved = []\<rparr>
      | (Inr (Some i), d') \<Rightarrow>
          (if owner_id t = None
           then (let t' = set_owner (identity.executor_id i) (identity.epoch i) t
                 in Inr \<lparr>a_client = Some i, a_delegate = d', a_task = t', a_saved = [t']\<rparr>)
           else Inr \<lparr>a_client = Some i, a_delegate = d', a_task = t, a_saved = []\<rparr>))"

definition assign_controller :: "task \<Rightarrow> task \<times> task list" where
  "assign_controller t =
     (if owner_id t = None then (let t' = set_owner ''controller'' ''inline'' t in (t', [t'])) else (t, []))"

definition delegate_identity_error :: "task \<Rightarrow> identity option \<Rightarrow> executor_error option" where
  "delegate_identity_error t c =
     (case c of
        None \<Rightarrow> Some (executor_error (NotInPool (owner_id t)))
      | Some i \<Rightarrow> if owned_by t i then None else Some (stale_error HandoverPending))"

text \<open>
  Routing an operation, the same for the awaited and the blocking call: not delegated, an
  error, or the call's answer. The calls made are listed.
\<close>

datatype routed = Local | Failed executor_error | Answered pyval

record routing =
  routed_to :: routed
  remote_calls :: "(identity \<times> string \<times> doc) list"
  routed_task :: task
  routed_saves :: "task list"
  delegate_after :: "delegate option"

definition route_task_operation ::
    "(identity \<Rightarrow> string \<Rightarrow> doc \<Rightarrow> exc + pyval) \<Rightarrow> delegate option \<Rightarrow> string \<Rightarrow> task \<Rightarrow> doc \<Rightarrow> exc + routing" where
  "route_task_operation rpc d oper t args =
     (let here = Inr \<lparr>routed_to = Local, remote_calls = [], routed_task = t, routed_saves = [], delegate_after = d\<rparr>
      in case d of
        None \<Rightarrow> here
      | Some dd \<Rightarrow>
          (if \<not> should_delegate_task d t then here
           else bind_err (assign_delegate dd t) (\<lambda>a.
             case delegate_identity_error (a_task a) (a_client a) of
               Some e \<Rightarrow> Inr \<lparr>routed_to = Failed e, remote_calls = [], routed_task = a_task a,
                   routed_saves = a_saved a, delegate_after = Some (a_delegate a)\<rparr>
             | None \<Rightarrow>
                 (let i = the (a_client a)
                  in Inr \<lparr>routed_to = (case rpc i oper args of
                            Inl x \<Rightarrow> Failed (executor_error (Says (exc_text x)))
                          | Inr v \<Rightarrow> Answered v),
                       remote_calls = [(i, oper, args)], routed_task = a_task a,
                       routed_saves = a_saved a, delegate_after = Some (a_delegate a)\<rparr>))))"

text \<open>
  When no member of the pool is ready the exception of the selection leaves the operation:
  only failures of the call itself become error results.
\<close>

lemma assignment_failure_escapes:
  assumes "owner_id t = None" and "\<not> main_takeover t" and "task_status t \<noteq> ''pre_running''" and "\<not> started p"
  shows "\<exists>e. route_task_operation rpc (Some (Pool p)) oper t args = Inl e \<and> exc_class e = ''ExecutorUnavailable''"
  using assms by (simp add: route_task_operation_def should_delegate_task_def assign_delegate_def select_client_def Let_def)

section \<open>Binding tasks to live executors\<close>

definition recoverable :: "string list" where
  "recoverable = [''pending'', ''running'', ''retry_waiting'', ''resume_pending'', ''failed'']"

text \<open>The task files in the order they are found; \<open>None\<close> is one that cannot be read.\<close>

definition reassign_one :: "(task \<Rightarrow> bool) \<Rightarrow> identity \<Rightarrow> task option \<Rightarrow> task list" where
  "reassign_one pred current f =
     (case f of
        None \<Rightarrow> []
      | Some t \<Rightarrow> if task_status t \<notin> set recoverable \<or> \<not> pred t then []
                  else [set_owner (identity.executor_id current) (identity.epoch current) t])"

definition reassign_executor_tasks :: "(task \<Rightarrow> bool) \<Rightarrow> identity \<Rightarrow> task option list \<Rightarrow> nat \<times> task list" where
  "reassign_executor_tasks pred current files =
     (let saved = concat (map (reassign_one pred current) files) in (length saved, saved))"

definition reassign_dead_generation :: "identity \<Rightarrow> identity \<Rightarrow> task option list \<Rightarrow> nat \<times> task list" where
  "reassign_dead_generation previous current files =
     reassign_executor_tasks (\<lambda>t. owner_id t = Some (identity.executor_id previous) \<and>
       owner_epoch t \<noteq> Some (identity.epoch current)) current files"

definition reassign_stale_generations :: "identity \<Rightarrow> task option list \<Rightarrow> nat \<times> task list" where
  "reassign_stale_generations current files =
     reassign_executor_tasks (\<lambda>t. owner_id t \<in> {None, Some (identity.executor_id current)} \<and>
       owner_epoch t \<noteq> Some (identity.epoch current)) current files"

text \<open>
  Reconciling one task with the pool: \<open>live\<close> are the identities of the pool by id, later
  ones first in a lookup; a task without a live owner goes to the next ready member.
\<close>

definition live_by_id :: "identity list \<Rightarrow> string \<Rightarrow> identity option" where
  "live_by_id live i = find (\<lambda>x. identity.executor_id x = i) (rev live)"

definition current_member :: "identity list \<Rightarrow> pool_state \<Rightarrow> task \<Rightarrow> (exc + identity) \<times> pool_state" where
  "current_member live p t =
     (case live_by_id live (case owner_id t of None \<Rightarrow> [] | Some i \<Rightarrow> i) of
        Some c \<Rightarrow> (Inr c, p)
      | None \<Rightarrow>
          (case select_client p of
             (Inl e, p') \<Rightarrow> (Inl e, p')
           | (Inr s, p') \<Rightarrow> (Inr (sup_identity s), p')))"

definition reconcile_one :: "identity list \<Rightarrow> pool_state \<Rightarrow> task \<Rightarrow> (exc + task list) \<times> pool_state" where
  "reconcile_one live p t =
     (if task_status t \<notin> set recoverable \<or> task_status t = ''pre_running'' then (Inr [], p)
      else if main_takeover t \<or> owner_id t = Some ''controller'' then (Inr (snd (assign_controller t)), p)
      else (case current_member live p t of
              (Inl e, p') \<Rightarrow> (Inl e, p')
            | (Inr c, p') \<Rightarrow>
                (if owned_by t c then (Inr [], p')
                 else (Inr [set_owner (identity.executor_id c) (identity.epoch c) t], p'))))"

fun reconcile_files :: "identity list \<Rightarrow> pool_state \<Rightarrow> task option list \<Rightarrow> (exc + task list) \<times> pool_state" where
  "reconcile_files live p [] = (Inr [], p)"
| "reconcile_files live p (None # fs) = reconcile_files live p fs"
| "reconcile_files live p (Some t # fs) =
     (case reconcile_one live p t of
        (Inl e, p') \<Rightarrow> (Inl e, p')
      | (Inr saved, p') \<Rightarrow>
          (case reconcile_files live p' fs of
             (Inl e, p'') \<Rightarrow> (Inl e, p'')
           | (Inr rest, p'') \<Rightarrow> (Inr (saved @ rest), p'')))"

definition reconcile_executor_pool :: "pool_state \<Rightarrow> task option list \<Rightarrow> exc + nat \<times> task list" where
  "reconcile_executor_pool p files =
     bind_err (identities p) (\<lambda>live.
     bind_err (fst (reconcile_files live p files)) (\<lambda>saved. Inr (length saved, saved)))"

section \<open>Properties\<close>

lemma owner_set_owner [simp]:
  "owner_id (set_owner i e t) = Some i" "owner_epoch (set_owner i e t) = Some e"
  "task_status (set_owner i e t) = task_status t" "main_takeover (set_owner i e t) = main_takeover t"
  "task_id (set_owner i e t) = task_id t"
  by (simp_all add: set_owner_def)

lemma owned_set_owner [simp]: "owned_by (set_owner (identity.executor_id c) (identity.epoch c) t) c"
  by (simp add: owned_by_def)

text \<open>
  C39. An operation reaches only the owner of its task: every call that routing makes goes to
  the executor that owns the task in the state it leaves, which was saved when the owner was
  chosen, and that executor, checking ownership on its side, finds no error.
\<close>

theorem routed_to_owner:
  assumes "route_task_operation rpc d oper t args = Inr r" and "(i, oper', args') \<in> set (remote_calls r)"
  shows "owned_by (routed_task r) i \<and> task_ownership_error (Some i) (routed_task r) = None \<and> oper' = oper \<and> args' = args \<and>
    (routed_task r = t \<and> routed_saves r = [] \<or> owner_id t = None \<and> routed_saves r = [routed_task r])"
proof -
  obtain dd where d: "d = Some dd" using assms by (cases d) (auto simp: route_task_operation_def)
  then obtain a where a: "assign_delegate dd t = Inr a" "delegate_identity_error (a_task a) (a_client a) = None"
    "i = the (a_client a)" "oper' = oper" "args' = args" "routed_task r = a_task a" "routed_saves r = a_saved a"
    using assms by (auto simp: route_task_operation_def bind_err_Inr_iff Let_def split: if_split_asm option.splits)
  have o: "owned_by (routed_task r) i" using a by (auto simp: delegate_identity_error_def split: option.splits if_split_asm)
  moreover have "routed_task r = t \<and> routed_saves r = [] \<or> owner_id t = None \<and> routed_saves r = [routed_task r]"
    using a(1,6,7) by (auto simp: assign_delegate_def Let_def split: prod.splits sum.splits option.splits if_split_asm)
  ultimately show ?thesis using a by (simp add: task_ownership_error_def)
qed

text \<open>A task as it is created, for the examples.\<close>

definition fresh_task :: task where
  "fresh_task = \<lparr>task_id = ''t'', workflow_id = ''w'', task_name = ''n'', task_status = ''pending'',
     main_session_id = None, main_takeover = False, current_node_id = None, run_id = None, created_at = [],
     updated_at = [], task_started_at = None, task_completed_at = None, node_states = [],
     snapshot_definition = None, parameter_values = [], snapshot_variables = None, workspace_override = None,
     workspace_mode = ''static'', workspace_ref = None, disabled_node_ids = [], scheme_id = None,
     control_flow_state = [], executor_id = None, executor_epoch = None\<rparr>"

lemma routed_to_owner_witness:
  "owned_by (fresh_task\<lparr>RuntimeModels.task.executor_id := Some ''workflow-executor-2'', RuntimeModels.task.executor_epoch := Some ''e''\<rparr>)
     \<lparr>identity.executor_id = ''workflow-executor-2'', epoch = ''e''\<rparr>"
proof -
  let ?i = "\<lparr>identity.executor_id = ''workflow-executor-2'', epoch = ''e''\<rparr>"
  have r: "route_task_operation (\<lambda>_ _ _. Inr PNone) (Some (Client ?i)) ''execute'' fresh_task [] =
      Inr \<lparr>routed_to = Answered PNone, remote_calls = [(?i, ''execute'', [])],
        routed_task = set_owner ''workflow-executor-2'' ''e'' fresh_task,
        routed_saves = [set_owner ''workflow-executor-2'' ''e'' fresh_task], delegate_after = Some (Client ?i)\<rparr>"
  proof -
    have f: "owner_id fresh_task = None" "main_takeover fresh_task = False" "task_status fresh_task = ''pending''"
      by (simp_all add: fresh_task_def)
    have "assign_delegate (Client ?i) fresh_task = Inr \<lparr>a_client = Some ?i, a_delegate = Client ?i,
        a_task = set_owner ''workflow-executor-2'' ''e'' fresh_task,
        a_saved = [set_owner ''workflow-executor-2'' ''e'' fresh_task]\<rparr>"
      unfolding assign_delegate_def delegate_client_for_task.simps prod.case sum.case option.case f Let_def
      by (simp only: refl if_True identity.simps)
    moreover have "delegate_identity_error (set_owner ''workflow-executor-2'' ''e'' fresh_task) (Some ?i) = None"
      by (simp add: delegate_identity_error_def owned_by_def)
    moreover have "should_delegate_task (Some (Client ?i)) fresh_task" by (simp add: should_delegate_task_def f)
    ultimately show ?thesis by (simp add: route_task_operation_def Let_def)
  qed
  have "owned_by (set_owner ''workflow-executor-2'' ''e'' fresh_task) ?i"
    using routed_to_owner [OF r, of ?i "''execute''" "[]", THEN conjunct1] by (simp only: routing.simps list.set insertI1)
  then show ?thesis by (simp only: set_owner_def)
qed

section \<open>Reconciling with the pool\<close>

text \<open>What reconciling is for: a task of the controller has an owner, any other a live one.\<close>

definition owner_settled :: "identity list \<Rightarrow> task \<Rightarrow> bool" where
  "owner_settled live t =
     (if main_takeover t \<or> owner_id t = Some ''controller'' then owner_id t \<noteq> None
      else \<exists>c\<in>set live. owned_by t c)"

lemma live_by_id_member: "live_by_id live i = Some c \<Longrightarrow> c \<in> set live \<and> identity.executor_id c = i"
  unfolding live_by_id_def by (metis (mono_tags) find_Some_iff nth_mem set_rev)

lemma live_by_id_distinct:
  assumes "distinct (map identity.executor_id live)" and "c \<in> set live"
  shows "live_by_id live (identity.executor_id c) = Some c"
proof -
  have "find (\<lambda>x. identity.executor_id x = identity.executor_id c) (rev live) \<noteq> None"
    using assms(2) by (auto simp: find_None_iff)
  then obtain b where b: "live_by_id live (identity.executor_id c) = Some b" by (auto simp: live_by_id_def)
  from live_by_id_member [OF this] assms have "b = c" by (auto simp: distinct_map dest: inj_onD)
  with b show ?thesis by simp
qed

definition same_members :: "pool_state \<Rightarrow> pool_state \<Rightarrow> bool" where
  "same_members p q = (pool_ids q = pool_ids p \<and> supervisors q = supervisors p)"

lemma same_members_refl [simp]: "same_members p p" by (simp add: same_members_def)

lemma identities_same: "same_members p q \<Longrightarrow> identities q = identities p"
  by (simp add: same_members_def identities_def cong: map_cong)

lemma select_loop_frame: "select_loop n p = (r, q) \<Longrightarrow> same_members p q \<and>
    (\<forall>s. r = Some s \<longrightarrow> (\<exists>i. selectable p i = Some s))"
  using select_loop_spec [of n p r q] by (auto simp: same_members_def split: option.splits)

lemma select_client_live:
  assumes "select_client p = (r, q)" and "identities p = Inr live"
  shows "same_members p q \<and> (\<forall>s. r = Inr s \<longrightarrow> sup_identity s \<in> set live)"
proof -
  have "sup_identity s \<in> set live" if "selectable p i = Some s" "pool_ids p \<noteq> []" for i s
  proof -
    let ?m = "pool_ids p ! (i mod length (pool_ids p))"
    have "?m \<in> set (pool_ids p)" using that(2) by simp
    moreover have "dget (supervisors p) ?m = Some s"
      using that(1) by (auto simp: selectable_def split: option.splits if_split_asm)
    ultimately show ?thesis
      using assms(2) by (force simp: identities_def map_err_Inr_iff list_all2_conv_all_nth in_set_conv_nth)
  qed
  moreover have "select_loop (length (pool_ids p)) p = (Some s, q') \<Longrightarrow> pool_ids p \<noteq> []" for s q' by auto
  ultimately show ?thesis
    using assms(1) by (auto simp: select_client_def dest!: select_loop_frame split: if_split_asm prod.splits option.splits)
qed

lemma current_member_live:
  assumes "current_member live p t = (r, q)" and "identities p = Inr live"
  shows "same_members p q \<and> (\<forall>c. r = Inr c \<longrightarrow> c \<in> set live)"
  using assms by (auto simp: current_member_def dest: live_by_id_member select_client_live
      split: option.splits prod.splits sum.splits)

lemma reconcile_one_spec:
  assumes "reconcile_one live p t = (r, q)" and "identities p = Inr live"
    and "distinct (map identity.executor_id live)"
  shows "same_members p q \<and> (\<forall>saved. r = Inr saved \<longrightarrow>
    (if task_status t \<in> set recoverable \<and> \<not> owner_settled live t
     then \<exists>i e. saved = [set_owner i e t] \<and> owner_settled live (set_owner i e t) else saved = []))"
proof (cases "task_status t \<notin> set recoverable \<or> main_takeover t \<or> owner_id t = Some ''controller''")
  case True
  then show ?thesis using assms(1)
    by (auto simp: reconcile_one_def assign_controller_def owner_settled_def recoverable_def Let_def split: if_split_asm)
next
  case False
  then have f: "task_status t \<in> set recoverable" "task_status t \<noteq> ''pre_running''" "\<not> main_takeover t"
    "owner_id t \<noteq> Some ''controller''" by (auto simp: recoverable_def)
  obtain m q' where m: "current_member live p t = (m, q')" by force
  note live = current_member_live [OF m assms(2)]
  show ?thesis
  proof (cases m)
    case (Inl e)
    then show ?thesis using assms(1) f m live by (auto simp: reconcile_one_def)
  next
    case (Inr c)
    have s: "owner_settled live (set_owner (identity.executor_id c) (identity.epoch c) t)"
      using live Inr f by (auto simp: owner_settled_def intro!: bexI [of _ c])
    have "owner_settled live t \<longleftrightarrow> owned_by t c"
    proof
      assume "owner_settled live t"
      then obtain b where b: "b \<in> set live" "owned_by t b" using f by (auto simp: owner_settled_def)
      with live_by_id_distinct [OF assms(3) b(1)] m Inr show "owned_by t c"
        by (auto simp: current_member_def owned_by_def)
    qed (use live Inr f in \<open>auto simp: owner_settled_def\<close>)
    then show ?thesis using assms(1) f m live Inr s by (auto simp: reconcile_one_def split: if_split_asm)
  qed
qed

definition newly_settled :: "identity list \<Rightarrow> task \<Rightarrow> task \<Rightarrow> bool" where
  "newly_settled live t s = (task_status t \<in> set recoverable \<and> \<not> owner_settled live t \<and> owner_settled live s \<and> (\<exists>i e. s = set_owner i e t))"

lemma reconcile_files_spec:
  assumes "reconcile_files live p files = (Inr saved, q)" and "identities p = Inr live"
    and "distinct (map identity.executor_id live)"
  shows "(\<forall>s\<in>set saved. \<exists>t. Some t \<in> set files \<and> newly_settled live t s) \<and>
    (\<forall>t. Some t \<in> set files \<longrightarrow> task_status t \<in> set recoverable \<longrightarrow> \<not> owner_settled live t \<longrightarrow>
       (\<exists>s\<in>set saved. newly_settled live t s))"
  using assms(1,2)
proof (induction files arbitrary: p saved)
  case (Cons f fs)
  show ?case
  proof (cases f)
    case None
    then show ?thesis using Cons by auto
  next
    case (Some t)
    obtain s1 p1 rest where one: "reconcile_one live p t = (Inr s1, p1)"
      and rest: "reconcile_files live p1 fs = (Inr rest, q)" and s: "saved = s1 @ rest"
      using Cons.prems(1) Some by (auto split: prod.splits sum.splits)
    note o = reconcile_one_spec [OF one Cons.prems(2) assms(3)]
    then have "identities p1 = Inr live" using identities_same Cons.prems(2) by auto
    note IH = Cons.IH [OF rest this]
    have "(\<forall>s\<in>set s1. newly_settled live t s) \<and>
        (task_status t \<in> set recoverable \<longrightarrow> \<not> owner_settled live t \<longrightarrow> (\<exists>s\<in>set s1. newly_settled live t s))"
      using o unfolding newly_settled_def by (cases "task_status t \<in> set recoverable \<and> \<not> owner_settled live t") (auto; blast)+
    then show ?thesis unfolding s Some using IH by auto
  qed
qed simp

text \<open>
  Reconciling with the pool binds every recoverable task: exactly the readable recoverable
  tasks without a valid owner are saved again, the saved ones have one (a live member of the
  pool, or the controller for a takeover), nothing else about them changes, and the number
  returned is how many were saved.
\<close>

theorem reconcile_settles_tasks:
  assumes "reconcile_executor_pool p files = Inr (n, saved)" and "identities p = Inr live"
    and "distinct (map identity.executor_id live)"
  shows "n = length saved \<and>
    (\<forall>s\<in>set saved. \<exists>t i e. Some t \<in> set files \<and> s = set_owner i e t \<and>
       task_status t \<in> set recoverable \<and> \<not> owner_settled live t \<and> owner_settled live s) \<and>
    (\<forall>t. Some t \<in> set files \<longrightarrow> task_status t \<in> set recoverable \<longrightarrow> \<not> owner_settled live t \<longrightarrow>
       (\<exists>i e. set_owner i e t \<in> set saved))"
proof -
  obtain q where "reconcile_files live p files = (Inr saved, q)" "n = length saved"
    using assms(1,2) by (cases "reconcile_files live p files") (auto simp: reconcile_executor_pool_def bind_err_Inr_iff)
  then show ?thesis using reconcile_files_spec [OF _ assms(2,3)] unfolding newly_settled_def by metis
qed

definition ready_pool :: pool_state where
  "ready_pool = half_pool\<lparr>pool_ids := [member_id 1]\<rparr>"

lemma reconcile_settles_tasks_witness:
  "\<exists>i e. owner_settled [\<lparr>identity.executor_id = member_id 1, epoch = ''g1''\<rparr>] (set_owner i e fresh_task)"
proof -
  let ?c = "\<lparr>identity.executor_id = member_id 1, epoch = ''g1''\<rparr>"
  have live: "identities ready_pool = Inr [?c]"
    by (simp add: identities_def ready_pool_def half_pool_def two_pool_def boot_ok_def)
  have "select_client ready_pool = (Inr (fst (boot_ok (member_id 1))), ready_pool\<lparr>selection_index := 1\<rparr>)"
    by (simp add: ready_pool_def half_pool_def two_pool_def select_client_def selectable_def boot_ok_def Let_def)
  moreover have "member_id 1 \<noteq> []" by (simp add: member_id_def)
  ultimately have "reconcile_executor_pool ready_pool [None, Some fresh_task] =
      Inr (1, [set_owner (member_id 1) ''g1'' fresh_task])"
    by (simp add: reconcile_executor_pool_def live reconcile_one_def current_member_def live_by_id_def fresh_task_def
        recoverable_def boot_ok_def owned_by_def)
  from reconcile_settles_tasks [OF this live] show ?thesis by auto
qed

end
