(* ===== verification/ExecutionControl.thy ===== *)
theory ExecutionControl
  imports ExecutorProtocol
begin

text \<open>
  The persistent admission control of releases, \<open>src/workflow/execution_control.py\<close>. The
  control file is its bytes; the clock, the failures of file operations and the text of a
  library exception are arguments. A text outside the model of \<open>json\<close> gives \<open>None\<close>.
\<close>

type_synonym doc = "(string \<times> pyval) list"

definition active_task_statuses :: "string list" where
  \<comment> \<open>sorted\<close>
  "active_task_statuses = [''resume_pending'', ''retry_waiting'', ''running'']"

definition default_retry_after :: int where
  "default_retry_after = 30"

definition validate_retry_after :: "pyval \<Rightarrow> exc + int" where
  "validate_retry_after v =
     (case v of
        PInt i \<Rightarrow> (if 1 \<le> i \<and> i \<le> 3600 then Inr i
                   else Inl (Exc ''ValueError'' ''retry_after_seconds must be between 1 and 3600''))
      | _ \<Rightarrow> Inl (Exc ''TypeError'' ''retry_after_seconds must be an integer''))"

section \<open>Reading\<close>

datatype control_file = Missing | Irregular | Broken string | Text string

definition project :: "doc \<Rightarrow> doc" where
  "project state =
     dput ''accepting_new_tasks''
       (PBool (truthy (got state ''state_valid'') \<and> eq_str (got state ''mode'') ''normal'')) state"

definition normal_state :: doc where
  "normal_state =
     [(''schema_version'', PInt 1), (''mode'', PStr ''normal''), (''reason'', PStr []), (''changed_at'', PNone),
      (''retry_after_seconds'', PInt default_retry_after), (''state_valid'', PBool True),
      (''source'', PStr ''default'')]"

definition invalid_state :: "string \<Rightarrow> doc" where
  "invalid_state text =
     [(''schema_version'', PInt 1), (''mode'', PStr ''draining''), (''reason'', PStr ''invalid_control_state''),
      (''changed_at'', PNone), (''retry_after_seconds'', PInt default_retry_after),
      (''state_valid'', PBool False), (''source'', PStr ''invalid''), (''validation_error'', PStr text)]"

definition file_state :: "string \<Rightarrow> string \<Rightarrow> string \<Rightarrow> int \<Rightarrow> doc" where
  "file_state mode reason changed_at retry =
     [(''schema_version'', PInt 1), (''mode'', PStr mode), (''reason'', PStr reason),
      (''changed_at'', PStr changed_at), (''retry_after_seconds'', PInt retry),
      (''state_valid'', PBool True), (''source'', PStr ''file'')]"

definition validate_mode :: "doc \<Rightarrow> exc + string" where
  "validate_mode raw =
     bind_err (hash_in (got raw ''mode'') [''normal'', ''draining'']) (\<lambda>known.
       case got raw ''mode'' of
         PStr mode \<Rightarrow> (if known then Inr mode else Inl (Exc ''ValueError'' ''unsupported execution mode''))
       | _ \<Rightarrow> Inl (Exc ''ValueError'' ''unsupported execution mode''))"

definition validate_texts :: "doc \<Rightarrow> exc + string \<times> string" where
  "validate_texts raw =
     (case (dgetd raw ''reason'' (PStr []), got raw ''changed_at'') of
        (PStr reason, PStr changed_at) \<Rightarrow> Inr (reason, changed_at)
      | _ \<Rightarrow> Inl (Exc ''TypeError'' ''reason and changed_at must be strings''))"

definition validate_document :: "pyval \<Rightarrow> exc + doc" where
  "validate_document v =
     (case v of
        PDict raw \<Rightarrow>
          (if \<not> eq_int (got raw ''schema_version'') 1 then Inl (Exc ''ValueError'' ''unsupported schema_version'')
           else bind_err (validate_mode raw) (\<lambda>mode.
                bind_err (validate_texts raw) (\<lambda>(reason, changed_at).
                bind_err (validate_retry_after (got raw ''retry_after_seconds'')) (\<lambda>retry.
                  Inr (file_state mode reason changed_at retry)))))
      | _ \<Rightarrow> Inl (Exc ''TypeError'' ''control document must be an object''))"

text \<open>
  What the \<open>try\<close> block gives: the state, or the exception, all of which are caught. It is \<open>None\<close> on
  documents beyond the model (text above U+00FF, and whatever \<open>loads_text\<close> leaves open); a document
  nested so deep that \<open>json.loads\<close> raises \<open>RecursionError\<close>, which the code does not catch, is outside it.
\<close>

definition load_state :: "(string \<Rightarrow> string) \<Rightarrow> control_file \<Rightarrow> (exc + doc) option" where
  "load_state msg f =
     (case f of
        Text b \<Rightarrow>
          (case utf8_decode b of
             None \<Rightarrow> Some (Inl (Exc ''UnicodeDecodeError'' (msg b)))
           | Some None \<Rightarrow> None
           | Some (Some s) \<Rightarrow>
               (case loads_text s of
                  Loaded v \<Rightarrow> Some (validate_document v)
                | Beyond \<Rightarrow> None
                | _ \<Rightarrow> Some (Inl (Exc ''JSONDecodeError'' (msg b)))))
      | Broken m \<Rightarrow> Some (Inl (Exc ''OSError'' m))
      | _ \<Rightarrow> Some (Inl (Exc ''ValueError'' ''control path must be a regular file'')))"

definition read_state :: "(string \<Rightarrow> string) \<Rightarrow> control_file \<Rightarrow> doc option" where
  "read_state msg f =
     (if f = Missing then Some (project normal_state)
      else (case load_state msg f of
              None \<Rightarrow> None
            | Some (Inr state) \<Rightarrow> Some (project state)
            | Some (Inl e) \<Rightarrow> Some (project (invalid_state (exc_text e)))))"

section \<open>Writing\<close>

definition control_document :: "string \<Rightarrow> string \<Rightarrow> string \<Rightarrow> int \<Rightarrow> doc" where
  "control_document mode reason now retry =
     [(''schema_version'', PInt 1), (''mode'', PStr mode), (''reason'', PStr reason),
      (''changed_at'', PStr now), (''retry_after_seconds'', PInt retry)]"

definition check_write :: "string \<Rightarrow> pyval \<Rightarrow> pyval \<Rightarrow> exc + string \<times> int" where
  "check_write mode reason retry =
     (if mode \<notin> {''normal'', ''draining''} then Inl (Exc ''ValueError'' ''mode must be normal or draining'')
      else (case reason of
              PStr r \<Rightarrow> bind_err (validate_retry_after retry) (\<lambda>n. Inr (r, n))
            | _ \<Rightarrow> Inl (Exc ''TypeError'' ''reason must be a string'')))"

text \<open>
  What the file system does: the parent is a real directory or not, an operation up to the
  replacement fails, or one after it does.
\<close>

record disk =
  real_parent :: bool
  before_replace :: "exc option"
  after_replace :: "exc option"

definition file_text :: "doc \<Rightarrow> string" where
  "file_text d = utf8 (the (indented d) @ [CHR 0x0A])"

definition write_state ::
    "(string \<Rightarrow> string) \<Rightarrow> disk \<Rightarrow> string \<Rightarrow> string \<Rightarrow> pyval \<Rightarrow> pyval \<Rightarrow> control_file \<Rightarrow>
      (exc + doc option) \<times> control_file" where
  "write_state msg dsk now mode reason retry f =
     (case check_write mode reason retry of
        Inl e \<Rightarrow> (Inl e, f)
      | Inr (r, n) \<Rightarrow>
          (if \<not> real_parent dsk then (Inl (Exc ''ValueError'' ''control directory must be a real directory''), f)
           else (case before_replace dsk of
                   Some e \<Rightarrow> (Inl e, f)
                 | None \<Rightarrow>
                     (let f' = Text (file_text (control_document mode r now n))
                      in case after_replace dsk of
                           Some e \<Rightarrow> (Inl e, f')
                         | None \<Rightarrow> (Inr (read_state msg f'), f')))))"

section \<open>Activity\<close>

text \<open>A task file is what \<open>json.loads\<close> gives for it, or (\<open>None\<close>) any of the caught exceptions.\<close>

definition task_file_status :: "pyval option \<Rightarrow> string option" where
  "task_file_status t =
     (case t of
        Some (PDict d) \<Rightarrow> (case got d ''status'' of PStr s \<Rightarrow> Some s | _ \<Rightarrow> None)
      | _ \<Rightarrow> None)"

definition count_task :: "pyval option \<Rightarrow> counts \<times> int \<Rightarrow> counts \<times> int" where
  "count_task t a =
     (case task_file_status t of
        None \<Rightarrow> (fst a, snd a + 1)
      | Some s \<Rightarrow> (inc s (fst a), snd a))"

definition count_files :: "pyval option list \<Rightarrow> counts \<times> int" where
  "count_files files = fold count_task files (map (\<lambda>s. (s, 0)) active_task_statuses, 0)"

definition activity :: "pyval option list \<Rightarrow> doc" where
  "activity files =
     (let (counts, unreadable) = count_files files; active = sum_list (map snd counts)
      in [(''active_task_count'', PInt active),
          (''active_status_counts'', PDict (map (\<lambda>(s, n). (s, PInt n)) counts)),
          (''scanned_task_files'', PInt (int (length files))), (''unreadable_task_files'', PInt unreadable),
          (''quiescent'', PBool (active = 0 \<and> unreadable = 0))])"

definition snapshot :: "(string \<Rightarrow> string) \<Rightarrow> control_file \<Rightarrow> pyval option list \<Rightarrow> doc option" where
  "snapshot msg f files =
     map_option (\<lambda>state. dput ''workflow_activity'' (PDict (activity files)) state) (read_state msg f)"

text \<open>The command line: the state after the command and the exit code.\<close>

datatype command = Drain string int | Resume string int | Activity | Status

definition exit_code :: "doc \<Rightarrow> int" where
  "exit_code d = (if truthy (dgetd d ''state_valid'' (PBool True)) then 0 else 2)"

definition main ::
    "(string \<Rightarrow> string) \<Rightarrow> disk \<Rightarrow> string \<Rightarrow> command \<Rightarrow> control_file \<Rightarrow> pyval option list \<Rightarrow>
      (exc + int option) \<times> control_file" where
  "main msg dsk now cmd f files =
     (case cmd of
        Drain reason n \<Rightarrow>
          (case write_state msg dsk now ''draining'' (PStr reason) (PInt n) f of
             (Inl e, f') \<Rightarrow> (Inl e, f')
           | (Inr d, f') \<Rightarrow> (Inr (map_option exit_code d), f'))
      | Resume reason n \<Rightarrow>
          (case write_state msg dsk now ''normal'' (PStr reason) (PInt n) f of
             (Inl e, f') \<Rightarrow> (Inl e, f')
           | (Inr d, f') \<Rightarrow> (Inr (map_option exit_code d), f'))
      | Activity \<Rightarrow> (Inr (Some (exit_code (activity files))), f)
      | Status \<Rightarrow> (Inr (map_option exit_code (snapshot msg f files)), f))"

section \<open>The state that is read\<close>

lemma accepting_project:
  "got (project state) ''accepting_new_tasks'' =
     PBool (truthy (got state ''state_valid'') \<and> eq_str (got state ''mode'') ''normal'')"
  by (simp add: project_def)

lemma validate_document_Inr:
  "validate_document v = Inr s \<longleftrightarrow>
     (\<exists>raw mode reason changed_at retry. v = PDict raw \<and> eq_int (got raw ''schema_version'') 1 \<and>
       mode \<in> {''normal'', ''draining''} \<and> got raw ''mode'' = PStr mode \<and>
       dgetd raw ''reason'' (PStr []) = PStr reason \<and> got raw ''changed_at'' = PStr changed_at \<and>
       1 \<le> retry \<and> retry \<le> 3600 \<and> got raw ''retry_after_seconds'' = PInt retry \<and>
       s = file_state mode reason changed_at retry)"
proof (cases v)
  case (PDict raw)
  have m: "validate_mode raw = Inr mode \<longleftrightarrow> mode \<in> {''normal'', ''draining''} \<and> got raw ''mode'' = PStr mode" for mode
    by (cases "got raw ''mode''") (auto simp: validate_mode_def hash_in_def)
  have x: "validate_texts raw = Inr rc \<longleftrightarrow>
      dgetd raw ''reason'' (PStr []) = PStr (fst rc) \<and> got raw ''changed_at'' = PStr (snd rc)" for rc
    by (cases rc; cases "dgetd raw ''reason'' (PStr [])"; cases "got raw ''changed_at''")
      (auto simp: validate_texts_def)
  have r: "validate_retry_after w = Inr n \<longleftrightarrow> 1 \<le> n \<and> n \<le> 3600 \<and> w = PInt n" for w n
    by (cases w) (auto simp: validate_retry_after_def)
  show ?thesis
    unfolding PDict validate_document_def by (auto simp: bind_err_Inr_iff m x r)
qed (simp_all add: validate_document_def)

text \<open>
  C40. The admission control fails closed: whatever the control file holds, the state that is
  read accepts new tasks only when there is no file, or the file is a complete, valid
  document in the mode normal; and a state that cannot be validated is a draining one.
\<close>

theorem control_fails_closed:
  assumes "read_state msg f = Some d"
  shows "(got d ''accepting_new_tasks'' = PBool True \<longleftrightarrow>
      f = Missing \<or> (\<exists>s. load_state msg f = Some (Inr s) \<and> got s ''mode'' = PStr ''normal'')) \<and>
    (got d ''accepting_new_tasks'' \<in> {PBool True, PBool False}) \<and>
    (\<forall>e. f \<noteq> Missing \<longrightarrow> load_state msg f = Some (Inl e) \<longrightarrow>
       got d ''mode'' = PStr ''draining'' \<and> got d ''validation_error'' = PStr (exc_text e))"
proof (cases "f = Missing")
  case True
  then show ?thesis
    using assms by (auto simp: read_state_def accepting_project normal_state_def)
next
  case False
  then obtain r where l: "load_state msg f = Some r" using assms by (auto simp: read_state_def split: option.splits)
  show ?thesis
  proof (cases r)
    case (Inl e)
    then show ?thesis
      using assms False l
      by (auto simp: read_state_def accepting_project project_def invalid_state_def)
  next
    case (Inr s)
    then have "validate_document v = Inr s \<Longrightarrow> got s ''state_valid'' = PBool True" for v
      by (auto simp: validate_document_Inr file_state_def)
    moreover have "\<exists>v. validate_document v = Inr s"
      using l Inr False by (auto simp: load_state_def split: control_file.splits option.splits loaded.splits)
    ultimately have "got s ''state_valid'' = PBool True" by blast
    then show ?thesis
      using assms False l Inr by (auto simp: read_state_def accepting_project eq_str_def)
  qed
qed

lemma load_written:
  assumes "mode \<in> {''normal'', ''draining''}" and "1 \<le> n" and "n \<le> 3600"
  shows "load_state msg (Text (file_text (control_document mode r now n))) = Some (Inr (file_state mode r now n))"
proof -
  let ?d = "control_document mode r now n"
  have "\<exists>w. indented ?d = Some w \<and> loads_text (w @ [CHR 0x0A]) = Loaded (PDict ?d)"
    by (rule indented_reads) (simp_all add: control_document_def json_space_def)
  then have t: "loads_text (the (indented ?d) @ [CHR 0x0A]) = Loaded (PDict ?d)" by auto
  have u: "utf8_decode (utf8 s) = Some (Some s)" for s
    using utf8_decode_utf8 [of s "[]"] by simp
  have v: "validate_document (PDict ?d) = Inr (file_state mode r now n)"
    unfolding validate_document_Inr using assms
    by (intro exI [of _ ?d] exI [of _ mode] exI [of _ r] exI [of _ now] exI [of _ n])
      (simp add: control_document_def dgetd_def)
  show ?thesis by (simp add: load_state_def file_text_def u t v)
qed

lemma check_write_Inr:
  "check_write mode reason retry = Inr (r, n) \<longleftrightarrow>
     mode \<in> {''normal'', ''draining''} \<and> reason = PStr r \<and> retry = PInt n \<and> 1 \<le> n \<and> n \<le> 3600"
  by (cases reason; cases retry) (auto simp: check_write_def validate_retry_after_def)

text \<open>
  A write that returns is what is read from then on: the file holds the mode, the reason,
  the time and the delay that were written, and new tasks are accepted exactly in the mode
  normal. A write that is refused leaves the file alone.
\<close>

theorem written_state_is_read:
  assumes "write_state msg dsk now mode reason retry f = (res, f')"
  shows "case res of
      Inr d \<Rightarrow> (\<exists>r n. reason = PStr r \<and> retry = PInt n \<and> mode \<in> {''normal'', ''draining''} \<and>
        d = Some (project (file_state mode r now n)) \<and> read_state msg f' = d \<and>
        got (project (file_state mode r now n)) ''accepting_new_tasks'' = PBool (mode = ''normal''))
    | Inl e \<Rightarrow> f' = f \<or> after_replace dsk = Some e"
proof (cases "check_write mode reason retry")
  case (Inl e)
  then show ?thesis using assms by (auto simp: write_state_def)
next
  case (Inr rn)
  obtain r n where rn: "rn = (r, n)" by (cases rn)
  have c: "mode \<in> {''normal'', ''draining''}" "reason = PStr r" "retry = PInt n" "1 \<le> n" "n \<le> 3600"
    using Inr rn check_write_Inr by auto
  have "read_state msg (Text (file_text (control_document mode r now n))) = Some (project (file_state mode r now n))"
    by (simp add: read_state_def load_written [OF c(1,4,5)])
  moreover have "got (project (file_state mode r now n)) ''accepting_new_tasks'' = PBool (mode = ''normal'')"
    by (simp add: accepting_project file_state_def)
  ultimately show ?thesis
    using assms Inr rn c by (auto simp: write_state_def Let_def split: if_splits option.splits)
qed

definition calm_disk :: disk where
  "calm_disk = \<lparr>real_parent = True, before_replace = None, after_replace = None\<rparr>"

lemma written_state_is_read_witness:
  "case fst (write_state id calm_disk ''now'' ''draining'' (PStr ''release'') (PInt 60) Missing) of
      Inr d \<Rightarrow> (\<exists>r n. PStr ''release'' = PStr r \<and> PInt 60 = PInt n \<and> ''draining'' \<in> {''normal'', ''draining''} \<and>
        d = Some (project (file_state ''draining'' r ''now'' n)) \<and>
        read_state id (snd (write_state id calm_disk ''now'' ''draining'' (PStr ''release'') (PInt 60) Missing)) = d \<and>
        got (project (file_state ''draining'' r ''now'' n)) ''accepting_new_tasks'' = PBool (''draining'' = ''normal''))
    | Inl e \<Rightarrow> snd (write_state id calm_disk ''now'' ''draining'' (PStr ''release'') (PInt 60) Missing) = Missing \<or>
        after_replace calm_disk = Some e"
  by (rule written_state_is_read [where f = Missing and mode = "''draining''" and now = "''now''"]) simp

lemma control_fails_closed_witness:
  "got (project (invalid_state ''boom'')) ''accepting_new_tasks'' \<noteq> PBool True \<and>
   got (project (invalid_state ''boom'')) ''mode'' = PStr ''draining''"
proof -
  have "read_state id (Broken ''boom'') = Some (project (invalid_state ''boom''))"
    by (simp add: read_state_def load_state_def)
  from control_fails_closed [OF this] show ?thesis
    by (simp add: load_state_def)
qed

section \<open>Quiescence\<close>

lemma count_files_counts:
  assumes "dkeys cs = active_task_statuses"
  shows "dkeys (fst (fold count_task files (cs, u))) = active_task_statuses \<and>
    (\<forall>s\<in>set active_task_statuses. dgetd (fst (fold count_task files (cs, u))) s 0 =
       dgetd cs s 0 + int (length (filter (\<lambda>t. task_file_status t = Some s) files))) \<and>
    snd (fold count_task files (cs, u)) = u + int (length (filter (\<lambda>t. task_file_status t = None) files))"
  using assms
proof (induction files arbitrary: cs u)
  case (Cons t files)
  show ?case
  proof (cases "task_file_status t")
    case None
    then have "count_task t (cs, u) = (cs, u + 1)" by (simp add: count_task_def)
    then show ?thesis using Cons.IH [OF Cons.prems, of "u + 1"] None by simp
  next
    case (Some s)
    then have c: "count_task t (cs, u) = (inc s cs, u)" by (simp add: count_task_def)
    have k: "dkeys (inc s cs) = active_task_statuses"
      using Cons.prems by (auto simp: inc_def dkeys_dput split: option.splits dest: dget_Some_in) (metis dget_None_iff image_set option.distinct(1))+
    have "dgetd (inc s cs) x 0 = dgetd cs x 0 + (if x = s then 1 else 0)" if "x \<in> set active_task_statuses" for x
    proof -
      have "dget cs x \<noteq> None" using that Cons.prems by (metis dget_None_iff image_set)
      then show ?thesis by (auto simp: inc_def dgetd_def split: option.splits)
    qed
    then show ?thesis using Cons.IH [OF k, of u] c Some by auto
  qed
qed simp

text \<open>
  Quiescence means nothing runs: the release gate reports quiescent exactly when every
  task file was readable and none of them is running, waiting to retry or about to resume.
\<close>

theorem quiescent_iff_idle:
  "got (activity files) ''quiescent'' = PBool True \<longleftrightarrow>
     (\<forall>t\<in>set files. \<exists>s. task_file_status t = Some s \<and> s \<notin> set active_task_statuses)"
proof -
  let ?z = "map (\<lambda>s. (s, 0 :: int)) active_task_statuses"
  obtain cs u where f: "count_files files = (cs, u)" by force
  have z: "dgetd ?z s 0 = 0" for s by (auto simp: active_task_statuses_def dgetd_def)
  have c: "dkeys cs = active_task_statuses"
    "\<forall>s\<in>set active_task_statuses. dgetd cs s 0 = int (length (filter (\<lambda>t. task_file_status t = Some s) files))"
    "u = int (length (filter (\<lambda>t. task_file_status t = None) files))"
    using count_files_counts [of ?z files 0] f z by (simp_all add: count_files_def comp_def)
  obtain a b d where cs: "cs = [(''resume_pending'', a), (''retry_waiting'', b), (''running'', d)]"
    using c(1) by (auto simp: active_task_statuses_def map_eq_Cons_conv)
  have "got (activity files) ''quiescent'' = PBool True \<longleftrightarrow> a + b + d = 0 \<and> u = 0"
    by (simp add: activity_def f cs Let_def add.assoc)
  also have "\<dots> \<longleftrightarrow> a = 0 \<and> b = 0 \<and> d = 0 \<and> u = 0"
  proof -
    have "0 \<le> a" "0 \<le> b" "0 \<le> d"
      using c(2) by (simp_all add: cs active_task_statuses_def dgetd_def)
    then show ?thesis by linarith
  qed
  also have "\<dots> \<longleftrightarrow> (\<forall>t\<in>set files. \<exists>s. task_file_status t = Some s \<and> s \<notin> set active_task_statuses)"
    using c(2,3) by (auto simp: cs active_task_statuses_def dgetd_def filter_empty_conv; metis)
  finally show ?thesis .
qed

lemma quiescent_iff_idle_witness:
  "got (activity [Some (PDict [(''status'', PStr ''completed'')])]) ''quiescent'' = PBool True \<and>
   got (activity [Some (PDict [(''status'', PStr ''running'')])]) ''quiescent'' \<noteq> PBool True \<and>
   got (activity [None]) ''quiescent'' \<noteq> PBool True"
  using quiescent_iff_idle [of "[Some (PDict [(''status'', PStr ''completed'')])]"]
    quiescent_iff_idle [of "[Some (PDict [(''status'', PStr ''running'')])]"] quiescent_iff_idle [of "[None]"]
  by (simp add: task_file_status_def active_task_statuses_def)

end
