(* ===== verification/TaskManager.thy ===== *)
theory TaskManager
  imports TaskRecovery ExecutionRouting ExecutionControl ExecutionPlan "HOL-Library.Product_Lexorder"
begin

text \<open>
  The task operations of the workflow manager, \<open>src/workflow/manager.py\<close> with its mixin
  \<open>task_recovery.py\<close>: starting, stopping, the end of a runner, manual retry and skip, the
  timers of automatic retries, the recovery after a restart. The state is the task files by
  sanitized path, the runners, the timers and the routing of the process; what a runner does
  until its end is an argument. An operation returns its reply, or the exception it raises,
  and the state it leaves; the lock of a task makes each of them one step.
\<close>

section \<open>State\<close>

datatype task_file = NoFile | BadFile | Stored task

record runner =
  runner_done :: bool
  runner_workflow :: string
  runner_definition :: workflow_def
  runner_task :: task
  runner_from :: "string option"

record timer =
  timer_workflow :: string
  timer_due :: int
  timer_generation :: int

record manager =
  task_files :: "(string \<times> string, task_file) dict"
  runners :: "(string, runner) dict"
  timers :: "(string, timer) dict"
  generations :: "(string, int) dict"
  stopping :: bool
  execution_delegate :: "delegate option"
  local_identity :: "identity option"

text \<open>What the manager calls: extensions, sessions, stored definitions, the control file, executors, clocks.\<close>

record services =
  owner_enabled :: "string \<Rightarrow> bool"
  session_live :: "string option \<Rightarrow> bool"
  workflow_doc :: "string \<Rightarrow> doc option"
  control_state :: doc
  remote :: "identity \<Rightarrow> string \<Rightarrow> doc \<Rightarrow> exc + pyval"
  set_order :: "string list \<Rightarrow> string list"
  fresh_ids :: "string \<Rightarrow> nat \<Rightarrow> string"
  iso_now :: string

datatype control_error =
    TaskNotFound
  | TaskStatusConflict string
  | NodeNotFound
  | TaskRunning
  | NodeStatusConflict string
  | CountInvalid
  | CountStale int int

datatype reply =
    ReadOnly string
  | NoTask string
  | Remote routed
  | Refused executor_error
  | StateConflict string
  | Draining doc
  | NoMainSession
  | AlreadyRunning
  | NoWorkflow string
  | Started string string
  | NodeReply reply string string
  | ControlRefused control_error
  | StoppedPreRunning string
  | Discarded string
  | StoppedLeftover string
  | NotRunning
  | AlreadyFinished
  | StoppedRunner string

text \<open>\<open>result.get("success")\<close>: the answer of an executor may be anything.\<close>

fun reply_ok :: "reply \<Rightarrow> exc + bool" where
  "reply_ok (Remote (Answered (PDict d))) = Inr (truthy (got d ''success''))"
| "reply_ok (Remote (Answered _)) = Inl (Exc ''AttributeError'' [])"
| "reply_ok (Started _ _) = Inr True"
| "reply_ok (NodeReply r _ _) = reply_ok r"
| "reply_ok (StoppedPreRunning _) = Inr True"
| "reply_ok (Discarded _) = Inr True"
| "reply_ok (StoppedLeftover _) = Inr True"
| "reply_ok AlreadyFinished = Inr True"
| "reply_ok (StoppedRunner _) = Inr True"
| "reply_ok _ = Inr False"

text \<open>Operations that may raise, on a state.\<close>

type_synonym 'a op = "manager \<Rightarrow> (exc + 'a) \<times> manager"

definition bind_op :: "(exc + 'a) \<times> manager \<Rightarrow> ('a \<Rightarrow> 'b op) \<Rightarrow> (exc + 'b) \<times> manager" where
  "bind_op r f = (case fst r of Inl e \<Rightarrow> (Inl e, snd r) | Inr x \<Rightarrow> f x (snd r))"

lemma bind_op_simps [simp]: "bind_op (Inl e, m) f = (Inl e, m)" "bind_op (Inr x, m) f = f x m"
  by (simp_all add: bind_op_def)

section \<open>Task files\<close>

definition sanitize_id :: "string \<Rightarrow> string" where
  "sanitize_id v = filter (\<lambda>c. ascii_letter c \<or> ascii_digit c \<or> c = CHR ''_'' \<or> c = CHR ''-'') v"

definition task_path :: "string \<Rightarrow> string \<Rightarrow> exc + string \<times> string" where
  "task_path wid tid =
     (if sanitize_id wid = [] \<or> sanitize_id tid = [] then Inl (Exc ''ValueError'' [])
      else Inr (sanitize_id wid, sanitize_id tid))"

definition file_at :: "manager \<Rightarrow> string \<times> string \<Rightarrow> task_file" where
  "file_at m p = (case dget (task_files m) p of None \<Rightarrow> NoFile | Some f \<Rightarrow> f)"

definition load_task :: "manager \<Rightarrow> string \<Rightarrow> string \<Rightarrow> exc + task option" where
  "load_task m wid tid =
     bind_err (task_path wid tid) (\<lambda>p.
       Inr (case file_at m p of
              Stored t \<Rightarrow> if workflow_id t = wid \<and> task_id t = tid then Some t else None
            | _ \<Rightarrow> None))"

definition save_task :: "string \<Rightarrow> task \<Rightarrow> unit op" where
  "save_task now t m =
     (case task_path (workflow_id t) (task_id t) of
        Inl e \<Rightarrow> (Inl e, m)
      | Inr p \<Rightarrow> (Inr (), m\<lparr>task_files := dput p (Stored (t\<lparr>updated_at := now\<rparr>)) (task_files m)\<rparr>))"

definition remove_task :: "string \<Rightarrow> string \<Rightarrow> unit op" where
  "remove_task wid tid m =
     (case task_path wid tid of
        Inl e \<Rightarrow> (Inl e, m)
      | Inr p \<Rightarrow> (Inr (), m\<lparr>task_files := dpop p (task_files m)\<rparr>))"

text \<open>A runner that has not ended.\<close>

definition running :: "manager \<Rightarrow> string \<Rightarrow> bool" where
  "running m tid = (case dget (runners m) tid of None \<Rightarrow> False | Some r \<Rightarrow> \<not> runner_done r)"

section \<open>Timers of automatic retries\<close>

definition cancel_retry_timer :: "string \<Rightarrow> manager \<Rightarrow> manager" where
  "cancel_retry_timer tid m =
     m\<lparr>generations := dput tid (dgetd (generations m) tid 0 + 1) (generations m), timers := dpop tid (timers m)\<rparr>"

definition schedule_retry_for_task :: "surroundings \<Rightarrow> task \<Rightarrow> unit op" where
  "schedule_retry_for_task w t m =
     (let m1 = cancel_retry_timer (task_id t) m
      in case load_task m1 (workflow_id t) (task_id t) of
           Inl e \<Rightarrow> (Inl e, m1)
         | Inr None \<Rightarrow> (Inr (), m1)
         | Inr (Some c) \<Rightarrow>
             (let due = map (\<lambda>(_, _, d). d) (retry_waiting_states (from_iso w) (node_states c))
              in if stopping m1 \<or> task_status c \<noteq> ''retry_waiting'' \<or> due = [] then (Inr (), m1)
                 else (Inr (), m1\<lparr>timers := dput (task_id c) \<lparr>timer_workflow = workflow_id c, timer_due = Min (set due),
                         timer_generation = dgetd (generations m1) (task_id c) 0\<rparr> (timers m1)\<rparr>)))"

section \<open>Starting a task\<close>

definition route :: "services \<Rightarrow> string \<Rightarrow> task \<Rightarrow> doc \<Rightarrow> (routed \<times> task) op" where
  "route s oper t args m =
     (case route_task_operation (remote s) (execution_delegate m) oper t args of
        Inl e \<Rightarrow> (Inl e, m)
      | Inr r \<Rightarrow>
          bind_op (case routed_saves r of [] \<Rightarrow> (Inr (), m) | t' # _ \<Rightarrow> save_task (iso_now s) t' m) (\<lambda>_ m'.
            (Inr (routed_to r, routed_task r), m'\<lparr>execution_delegate := delegate_after r\<rparr>)))"

definition new_task_admission_result :: "services \<Rightarrow> reply option" where
  "new_task_admission_result s =
     (if truthy (got (control_state s) ''accepting_new_tasks'') then None else Some (Draining (control_state s)))"

text \<open>The definition of a task: its snapshot, else the stored one.\<close>

definition task_definition :: "services \<Rightarrow> task \<Rightarrow> exc + workflow_def option" where
  "task_definition s t =
     (case (case snapshot_definition t of None \<Rightarrow> [] | Some d \<Rightarrow> d) of
        [] \<Rightarrow>
          (case workflow_doc s (workflow_id t) of
             None \<Rightarrow> Inr None
           | Some d \<Rightarrow> (case def_from_dict (fresh_ids s) (iso_now s) d of
                          None \<Rightarrow> Inl (Exc ''Exception'' ''definition'') | Some w \<Rightarrow> Inr (Some w)))
      | d \<Rightarrow> (case def_from_dict (fresh_ids s) (iso_now s) d of
                 None \<Rightarrow> Inl (Exc ''Exception'' ''definition'') | Some w \<Rightarrow> Inr (Some w)))"

text \<open>A node that is run again from scratch keeps its ledgers only.\<close>

definition rerun_state :: "string \<Rightarrow> node_state option \<Rightarrow> node_state" where
  "rerun_state nid old =
     (case old of
        None \<Rightarrow> new_node_state nid
      | Some st \<Rightarrow> update_own (\<lambda>x. x\<lparr>token_usage := token_usage (own st), token_usage_calls := token_usage_calls (own st),
          rejection_history := rejection_history (own st), iteration_history := iteration_history (own st)\<rparr>)
          (new_node_state nid))"

definition reset_from :: "services \<Rightarrow> workflow_def \<Rightarrow> string \<Rightarrow> task \<Rightarrow> task" where
  "reset_from s d from t =
     (let t1 = t\<lparr>control_flow_state := []\<rparr>;
          later = dropWhile (\<lambda>i. i \<noteq> from) (serial_execution_order (set_order s) d)
      in if node_states t = [] then t1
         else t1\<lparr>node_states := fold (\<lambda>i sts. dput i (rerun_state i (dget sts i)) sts) later (node_states t)\<rparr>)"

definition begin_run :: "services \<Rightarrow> string \<Rightarrow> string \<Rightarrow> string option \<Rightarrow> workflow_def \<Rightarrow> task \<Rightarrow> reply op" where
  "begin_run s wid tid from d t m =
     (let d1 = fst (auto_pair_gateways d);
          t1 = (case from of None \<Rightarrow> t | Some [] \<Rightarrow> t | Some f \<Rightarrow> reset_from s d1 f t);
          t2 = t1\<lparr>task_status := ''running'', task_started_at := Some (iso_now s), task_completed_at := None,
                 current_node_id := None, run_id := None\<rparr>
      in bind_op (save_task (iso_now s) t2 m) (\<lambda>_ m'.
           (Inr (Started tid wid), m'\<lparr>runners := dput tid
              \<lparr>runner_done = False, runner_workflow = wid, runner_definition = d1,
               runner_task = t2\<lparr>updated_at := iso_now s\<rparr>, runner_from = from\<rparr> (runners m')\<rparr>)))"

definition admit :: "services \<Rightarrow> manager \<Rightarrow> string \<Rightarrow> task \<Rightarrow> reply option" where
  "admit s m tid t =
     (case task_ownership_error (local_identity m) t of
        Some e \<Rightarrow> Some (Refused e)
      | None \<Rightarrow>
          if task_status t \<notin> {''pending'', ''resume_pending''} then Some (StateConflict (task_status t))
          else if task_status t = ''pending'' \<and> new_task_admission_result s \<noteq> None then new_task_admission_result s
          else if main_takeover t \<and> \<not> session_live s (main_session_id t) then Some NoMainSession
          else if running m tid then Some AlreadyRunning
          else None)"

definition run_here :: "services \<Rightarrow> string \<Rightarrow> string \<Rightarrow> string option \<Rightarrow> task \<Rightarrow> reply op" where
  "run_here s wid tid from t m =
     (let (t1, saves) = (if main_takeover t then assign_controller t else (t, []))
      in bind_op (case saves of [] \<Rightarrow> (Inr (), m) | t' # _ \<Rightarrow> save_task (iso_now s) t' m) (\<lambda>_ m1.
           case admit s m1 tid t1 of
             Some r \<Rightarrow> (Inr r, m1)
           | None \<Rightarrow>
               (case task_definition s t1 of
                  Inl e \<Rightarrow> (Inl e, m1)
                | Inr None \<Rightarrow> (Inr (NoWorkflow wid), m1)
                | Inr (Some d) \<Rightarrow> begin_run s wid tid from d t1 m1)))"

definition run_args :: "string \<Rightarrow> string \<Rightarrow> string option \<Rightarrow> doc" where
  "run_args wid tid from = [(''workflow_id'', PStr wid), (''task_id'', PStr tid), (''from_node_id'', opt_str from)]"

definition run_task :: "services \<Rightarrow> string \<Rightarrow> string \<Rightarrow> string option \<Rightarrow> reply op" where
  "run_task s wid tid from m =
     (if \<not> owner_enabled s wid then (Inr (ReadOnly wid), m)
      else (case load_task m wid tid of
              Inl e \<Rightarrow> (Inl e, m)
            | Inr None \<Rightarrow> (Inr (NoTask tid), m)
            | Inr (Some t) \<Rightarrow>
                bind_op (route s ''run_task'' t (run_args wid tid from) m) (\<lambda>(r, t') m1.
                  if r \<noteq> Local then (Inr (Remote r), m1) else run_here s wid tid from t' m1)))"

section \<open>The end of a runner\<close>

text \<open>
  How \<open>_run_task_coroutine\<close> ends: cancelled, by another exception, or with the task the engine
  returned, which may fail to be written. The tables are cleared in every case.
\<close>

datatype ending = Cancelled task | Crashed task | Returned task bool

definition end_task :: "services \<Rightarrow> string \<Rightarrow> task \<Rightarrow> task" where
  "end_task s st t = t\<lparr>task_status := st, task_completed_at := Some (iso_now s)\<rparr>"

definition drop_runner :: "string \<Rightarrow> manager \<Rightarrow> manager" where
  "drop_runner tid m = m\<lparr>runners := dpop tid (runners m)\<rparr>"

definition end_runner :: "surroundings \<Rightarrow> services \<Rightarrow> string \<Rightarrow> ending \<Rightarrow> unit op" where
  "end_runner w s tid e m =
     (case e of
        Cancelled t \<Rightarrow> (let (r, m1) = save_task (iso_now s) (end_task s ''stopped'' t) m in (r, drop_runner tid m1))
      | Crashed t \<Rightarrow> (let (r, m1) = save_task (iso_now s) (end_task s ''failed'' t) m in (r, drop_runner tid m1))
      | Returned t written \<Rightarrow>
          (let m1 = drop_runner tid (if written then snd (save_task (iso_now s) t m) else m)
           in if task_status t = ''retry_waiting'' then schedule_retry_for_task w t m1 else (Inr (), m1)))"

section \<open>Stopping a task\<close>

definition terminal_statuses :: "string list" where
  "terminal_statuses = [''completed'', ''failed'', ''stopped'', ''cancelled'']"

text \<open>
  An operation is routed when its task is delegated; the second reading of the task, under the
  lock, gives the same task here, since an operation is one step.
\<close>

definition routed_first ::
    "services \<Rightarrow> string \<Rightarrow> string \<Rightarrow> string \<Rightarrow> doc \<Rightarrow> reply op \<Rightarrow> reply op" where
  "routed_first s oper wid tid args otherwise m =
     (case load_task m wid tid of
        Inl e \<Rightarrow> (Inl e, m)
      | Inr None \<Rightarrow> otherwise m
      | Inr (Some t) \<Rightarrow>
          (if should_delegate_task (execution_delegate m) t then
             bind_op (route s oper t args m) (\<lambda>(r, _) m1.
               if r = Local then (Inl (Exc ''AssertionError'' []), m1) else (Inr (Remote r), m1))
           else (case task_ownership_error (local_identity m) t of
                   Some e \<Rightarrow> (Inr (Refused e), m)
                 | None \<Rightarrow> otherwise m)))"

definition stop_without_runner :: "services \<Rightarrow> string \<Rightarrow> string \<Rightarrow> reply op" where
  "stop_without_runner s wid tid m =
     (case load_task m wid tid of
        Inl e \<Rightarrow> (Inl e, m)
      | Inr None \<Rightarrow> (Inr NotRunning, m)
      | Inr (Some t) \<Rightarrow>
          (let stopped = end_task s ''stopped'' (t\<lparr>current_node_id := None\<rparr>)
           in if task_status t = ''pre_running'' then
                bind_op (save_task (iso_now s) stopped m) (\<lambda>_ m1. (Inr (StoppedPreRunning tid), m1))
              else if task_status t = ''pending'' then
                bind_op (remove_task wid tid m) (\<lambda>_ m1. (Inr (Discarded tid), m1))
              else if task_status t \<in> set recoverable_statuses then
                bind_op (save_task (iso_now s) stopped (cancel_retry_timer tid m)) (\<lambda>_ m1. (Inr (StoppedLeftover tid), m1))
              else (Inr NotRunning, m)))"

text \<open>The cancelled runner may never have started, or ends in some way before it is dropped.\<close>

definition await_cancelled :: "surroundings \<Rightarrow> services \<Rightarrow> string \<Rightarrow> ending option \<Rightarrow> unit op" where
  "await_cancelled w s tid e m = (case e of None \<Rightarrow> (Inr (), m) | Some x \<Rightarrow> end_runner w s tid x m)"

definition stop_runner :: "surroundings \<Rightarrow> services \<Rightarrow> string \<Rightarrow> string \<Rightarrow> ending option \<Rightarrow> reply op" where
  "stop_runner w s wid tid e m =
     bind_op (await_cancelled w s tid e (cancel_retry_timer tid m)) (\<lambda>_ m1.
       let m2 = drop_runner tid m1
       in case load_task m2 wid tid of
            Inl x \<Rightarrow> (Inl x, m2)
          | Inr None \<Rightarrow> (Inr (StoppedRunner tid), m2)
          | Inr (Some t) \<Rightarrow>
              (if task_status t \<in> set terminal_statuses then (Inr (StoppedRunner tid), m2)
               else bind_op (save_task (iso_now s) (end_task s ''stopped'' t) m2) (\<lambda>_ m3. (Inr (StoppedRunner tid), m3))))"

definition stop_args :: "string \<Rightarrow> string \<Rightarrow> doc" where
  "stop_args wid tid = [(''workflow_id'', PStr wid), (''task_id'', PStr tid)]"

definition stop_task :: "surroundings \<Rightarrow> services \<Rightarrow> string \<Rightarrow> string \<Rightarrow> ending option \<Rightarrow> reply op" where
  "stop_task w s wid tid e m =
     (if \<not> owner_enabled s wid then (Inr (ReadOnly wid), m)
      else routed_first s ''stop_task'' wid tid (stop_args wid tid) (\<lambda>m.
        case dget (runners m) tid of
          None \<Rightarrow> stop_without_runner s wid tid m
        | Some r \<Rightarrow>
            (if runner_done r then (Inr AlreadyFinished, drop_runner tid m)
             else stop_runner w s wid tid e m)) m)"

section \<open>Manual retry and skip\<close>

definition valid_count :: "pyval \<Rightarrow> int option" where
  "valid_count v = (case v of PInt n \<Rightarrow> if n < 0 then None else Some n | _ \<Rightarrow> None)"

definition check_node_control :: "manager \<Rightarrow> string \<Rightarrow> task \<Rightarrow> string \<Rightarrow> pyval \<Rightarrow> control_error + node_state" where
  "check_node_control m tid t nid expected =
     (if task_status t \<notin> set controllable then Inl (TaskStatusConflict (task_status t))
      else (case dget (node_states t) nid of
              None \<Rightarrow> Inl NodeNotFound
            | Some st \<Rightarrow>
                if running m tid then Inl TaskRunning
                else if status (own st) \<notin> set controllable then Inl (NodeStatusConflict (status (own st)))
                else (case valid_count expected of
                        None \<Rightarrow> Inl CountInvalid
                      | Some n \<Rightarrow> if attempt_count (own st) \<noteq> n then Inl (CountStale n (attempt_count (own st)))
                                  else Inr st)))"

definition validate_node_control ::
    "manager \<Rightarrow> string \<Rightarrow> string \<Rightarrow> string \<Rightarrow> pyval \<Rightarrow> exc + (control_error + task \<times> node_state)" where
  "validate_node_control m wid tid nid expected =
     bind_err (load_task m wid tid) (\<lambda>t.
       Inr (case t of
              None \<Rightarrow> Inl TaskNotFound
            | Some t \<Rightarrow> (case check_node_control m tid t nid expected of Inl e \<Rightarrow> Inl e | Inr st \<Rightarrow> Inr (t, st))))"

datatype node_control = RetryNode | SkipNode

definition control_name :: "node_control \<Rightarrow> string" where
  "control_name c = (case c of RetryNode \<Rightarrow> ''retry_node'' | SkipNode \<Rightarrow> ''skip_node'')"

definition controlled_state :: "services \<Rightarrow> node_control \<Rightarrow> node_state \<Rightarrow> exc + node_state" where
  "controlled_state s c st =
     (let st1 = (if status (own st) = ''retry_waiting'' then update_own (\<lambda>x. x\<lparr>status := ''failed''\<rparr>) st else st)
      in policy_step (case c of
           RetryNode \<Rightarrow> prepare_node_retry manual_retry_trigger None True st1
         | SkipNode \<Rightarrow> apply_failure_skip (Some (iso_now s)) st1))"

definition control_args :: "string \<Rightarrow> string \<Rightarrow> string \<Rightarrow> pyval \<Rightarrow> doc" where
  "control_args wid tid nid expected =
     stop_args wid tid @ [(''node_id'', PStr nid), (''expected_attempt_count'', expected)]"

definition control_here ::
    "services \<Rightarrow> node_control \<Rightarrow> string \<Rightarrow> string \<Rightarrow> string \<Rightarrow> pyval \<Rightarrow> reply op" where
  "control_here s c wid tid nid expected m =
     (case validate_node_control m wid tid nid expected of
        Inl e \<Rightarrow> (Inl e, m)
      | Inr (Inl e) \<Rightarrow> (Inr (ControlRefused e), m)
      | Inr (Inr (t, st)) \<Rightarrow>
          (let m1 = cancel_retry_timer tid m
           in case controlled_state s c st of
                Inl e \<Rightarrow> (Inl e, m1)
              | Inr st' \<Rightarrow>
                  (let t1 = prepare_task_for_resume (t\<lparr>node_states := dput nid st' (node_states t)\<rparr>)
                   in bind_op (save_task (iso_now s) t1 m1) (\<lambda>_ m2.
                      bind_op (run_task s wid tid None m2) (\<lambda>r m3. (Inr (NodeReply r nid (control_name c)), m3))))))"

definition control_node ::
    "services \<Rightarrow> node_control \<Rightarrow> string \<Rightarrow> string \<Rightarrow> string \<Rightarrow> pyval \<Rightarrow> reply op" where
  "control_node s c wid tid nid expected m =
     (if \<not> owner_enabled s wid then (Inr (ReadOnly wid), m)
      else routed_first s (control_name c) wid tid (control_args wid tid nid expected)
        (control_here s c wid tid nid expected) m)"

section \<open>Timers that fire\<close>

definition activate_node :: "exc + (string \<times> node_state) list \<Rightarrow> string \<times> node_state \<times> int \<Rightarrow> exc + (string \<times> node_state) list" where
  "activate_node r p =
     bind_err r (\<lambda>sts. bind_err (policy_step (activate_scheduled_retry (fst (snd p)))) (\<lambda>st'. Inr (dput (fst p) st' sts)))"

definition activate_due_retries ::
    "surroundings \<Rightarrow> services \<Rightarrow> int \<Rightarrow> string \<Rightarrow> string \<Rightarrow> int \<Rightarrow> unit op" where
  "activate_due_retries w s utc wid tid generation m =
     (if stopping m \<or> dget (generations m) tid \<noteq> Some generation \<or> \<not> owner_enabled s wid \<or> running m tid
      then (Inr (), m)
      else (case load_task m wid tid of
              Inl e \<Rightarrow> (Inl e, m)
            | Inr None \<Rightarrow> (Inr (), m)
            | Inr (Some t) \<Rightarrow>
                if task_status t \<noteq> ''retry_waiting'' then (Inr (), m)
                else (let due = filter (\<lambda>(_, _, d). d \<le> utc) (retry_waiting_states (from_iso w) (node_states t))
                      in if due = [] then schedule_retry_for_task w t m
                         else (case foldl activate_node (Inr (node_states t)) due of
                                 Inl e \<Rightarrow> (Inl e, m)
                               | Inr sts \<Rightarrow>
                                   bind_op (save_task (iso_now s) (prepare_task_for_resume (t\<lparr>node_states := sts\<rparr>)) m) (\<lambda>_ m1.
                                   bind_op (run_task s wid tid None m1) (\<lambda>r m2.
                                     case reply_ok r of Inl e \<Rightarrow> (Inl e, m2) | Inr _ \<Rightarrow> (Inr (), m2)))))))"

text \<open>The worker swallows what activating raises and drops its timer unless there is a newer one.\<close>

definition retry_timer_worker ::
    "surroundings \<Rightarrow> services \<Rightarrow> int \<Rightarrow> string \<Rightarrow> string \<Rightarrow> int \<Rightarrow> manager \<Rightarrow> manager" where
  "retry_timer_worker w s utc wid tid generation m =
     (let m1 = snd (activate_due_retries w s utc wid tid generation m)
      in if dget (generations m1) tid = Some generation then m1\<lparr>timers := dpop tid (timers m1)\<rparr> else m1)"

section \<open>Recovery after a restart\<close>

datatype recovered = Resumed | Scheduled | Unrecovered

definition recover_task :: "surroundings \<Rightarrow> services \<Rightarrow> task \<Rightarrow> recovered op" where
  "recover_task w s t m =
     (case load_task m (workflow_id t) (task_id t) of
        Inl e \<Rightarrow> (Inl e, m)
      | Inr None \<Rightarrow> (Inr Unrecovered, m)
      | Inr (Some c) \<Rightarrow>
          if task_status c \<notin> set recoverable_statuses then (Inr Unrecovered, m)
          else (case task_definition s c of
                  Inl e \<Rightarrow> (Inl e, m)
                | Inr None \<Rightarrow> (Inl (Exc ''ValueError'' []), m)
                | Inr (Some d) \<Rightarrow>
                    (case recovered_task w d c of
                       Inl e \<Rightarrow> (Inl e, m)
                     | Inr (k, c') \<Rightarrow>
                         bind_op (save_task (iso_now s) c' m) (\<lambda>_ m1.
                           case k of
                             Schedule \<Rightarrow> bind_op (schedule_retry_for_task w c' m1) (\<lambda>_ m2. (Inr Scheduled, m2))
                           | Fail \<Rightarrow> (Inr Unrecovered, m1)
                           | TaskRecovery.Resume \<Rightarrow>
                               bind_op (run_task s (workflow_id c') (task_id c') None m1) (\<lambda>r m2.
                                 case reply_ok r of
                                   Inl e \<Rightarrow> (Inl e, m2)
                                 | Inr ok \<Rightarrow> (Inr (if ok then Resumed else Unrecovered), m2))))))"

record summary =
  scanned :: nat
  resumed :: nat
  scheduled :: nat
  not_recovered :: nat
  errors :: nat

definition count_recovered :: "exc + recovered \<Rightarrow> summary \<Rightarrow> summary" where
  "count_recovered r x =
     (case r of
        Inl _ \<Rightarrow> x\<lparr>errors := errors x + 1\<rparr>
      | Inr Resumed \<Rightarrow> x\<lparr>resumed := resumed x + 1\<rparr>
      | Inr Scheduled \<Rightarrow> x\<lparr>scheduled := scheduled x + 1\<rparr>
      | Inr Unrecovered \<Rightarrow> x\<lparr>not_recovered := not_recovered x + 1\<rparr>)"

definition recover_file ::
    "surroundings \<Rightarrow> services \<Rightarrow> identity option \<Rightarrow> string \<times> string \<Rightarrow> summary \<times> manager \<Rightarrow> summary \<times> manager" where
  "recover_file w s who p st =
     (let (x, m) = st
      in if \<not> owner_enabled s (fst p) then st
         else (case file_at m p of
                 NoFile \<Rightarrow> st
               | BadFile \<Rightarrow> (x\<lparr>errors := errors x + 1\<rparr>, m)
               | Stored t \<Rightarrow>
                   if task_status t \<notin> set recoverable_statuses then st
                   else if (case who of None \<Rightarrow> False | Some i \<Rightarrow> \<not> owned_by t i) then st
                   else (let (r, m1) = recover_task w s t m
                         in (count_recovered r (x\<lparr>scanned := scanned x + 1\<rparr>), m1))))"

text \<open>The directories in order, in each the files by name.\<close>

definition scan_order :: "manager \<Rightarrow> (string \<times> string) list" where
  "scan_order m = map (\<lambda>(a, b). (a, take (length b - 5) b))
     (sorted_list_of_set ((\<lambda>(a, b). (a, b @ ''.json'')) ` fst ` set (task_files m)))"

definition recover_workflow_tasks ::
    "surroundings \<Rightarrow> services \<Rightarrow> identity option \<Rightarrow> manager \<Rightarrow> summary \<times> manager" where
  "recover_workflow_tasks w s who m =
     (let m1 = m\<lparr>stopping := False\<rparr>
      in fold (recover_file w s who) (scan_order m1)
           (\<lparr>scanned = 0, resumed = 0, scheduled = 0, not_recovered = 0, errors = 0\<rparr>, m1))"

definition shutdown_task_recovery :: "manager \<Rightarrow> manager" where
  "shutdown_task_recovery m = fold cancel_retry_timer (dkeys (timers m)) (m\<lparr>stopping := True\<rparr>)"

end
