(* ===== verification/TaskTimers.thy ===== *)
theory TaskTimers
  imports TaskManager
begin

text \<open>
  Laws of the task operations of \<open>TaskManager\<close>: what each leaves alone, when a task is started,
  and the invariant of the timers in every state a manager reaches.
\<close>

section \<open>What the operations leave alone\<close>

definition same_timers :: "manager \<Rightarrow> manager \<Rightarrow> bool" where
  "same_timers m m' = (timers m' = timers m \<and> generations m' = generations m \<and> stopping m' = stopping m \<and>
     local_identity m' = local_identity m)"

definition same_tables :: "manager \<Rightarrow> manager \<Rightarrow> bool" where
  "same_tables m m' = (same_timers m m' \<and> runners m' = runners m)"

lemma same_refl [simp]: "same_timers m m" "same_tables m m"
  by (simp_all add: same_timers_def same_tables_def)

lemma same_trans: "same_timers a b \<Longrightarrow> same_timers b c \<Longrightarrow> same_timers a c"
  "same_tables a b \<Longrightarrow> same_tables b c \<Longrightarrow> same_tables a c"
  by (simp_all add: same_timers_def same_tables_def)

lemma same_tables_timers: "same_tables m m' \<Longrightarrow> same_timers m m'"
  by (simp add: same_tables_def)

lemma same_updates [simp]:
  "same_tables m (m'\<lparr>task_files := x\<rparr>) = same_tables m m'"
  "same_tables m (m'\<lparr>execution_delegate := d\<rparr>) = same_tables m m'"
  "same_timers m (m'\<lparr>runners := r\<rparr>) = same_timers m m'"
  "same_timers m (m'\<lparr>task_files := x\<rparr>) = same_timers m m'"
  by (simp_all add: same_timers_def same_tables_def)

lemma save_task_same [simp]: "same_tables m (snd (save_task now t m))"
  by (simp add: save_task_def split: sum.splits)

lemma save_task_delegate [simp]: "execution_delegate (snd (save_task now t m)) = execution_delegate m"
  by (simp add: save_task_def split: sum.splits)

lemma save_task_frame: "save_task now t m = (r, m') \<Longrightarrow> same_tables m m' \<and> execution_delegate m' = execution_delegate m"
  using save_task_same [of m now t] save_task_delegate [of now t m] by simp

lemma bind_opE:
  assumes "bind_op r f = (x, m')"
  obtains e where "fst r = Inl e" "x = Inl e" "m' = snd r" | y where "fst r = Inr y" "f y (snd r) = (x, m')"
  using assms by (cases "fst r") (auto simp: bind_op_def)

lemma route_same: "route s oper t args m = (r, m') \<Longrightarrow> same_tables m m'"
proof -
  assume a: "route s oper t args m = (r, m')"
  show ?thesis
  proof (cases "route_task_operation (remote s) (execution_delegate m) oper t args")
    case (Inl e)
    with a show ?thesis by (simp add: route_def)
  next
    case (Inr x)
    let ?sv = "case routed_saves x of [] \<Rightarrow> (Inr (), m) | t' # _ \<Rightarrow> save_task (iso_now s) t' m"
    have "same_tables m (snd ?sv)" by (simp split: list.splits)
    moreover have "bind_op ?sv (\<lambda>_ m'. (Inr (routed_to x, routed_task x), m'\<lparr>execution_delegate := delegate_after x\<rparr>)) = (r, m')"
      using a Inr by (simp add: route_def)
    ultimately show ?thesis by (auto elim!: bind_opE)
  qed
qed

lemma route_local:
  assumes "execution_delegate m = None"
  shows "route s oper t args m = (Inr (Local, t), m)"
  using assms by (simp add: route_def route_task_operation_def Let_def)

lemma begin_run_cases:
  assumes "begin_run s wid tid from d t m = (x, m')"
  shows "(\<exists>e. x = Inl e \<and> m' = m) \<or>
    (x = Inr (Started tid wid) \<and> same_timers m m' \<and> execution_delegate m' = execution_delegate m \<and>
     (\<exists>r. runners m' = dput tid r (runners m) \<and> \<not> runner_done r) \<and>
     (\<exists>p t'. task_path (workflow_id t) (task_id t) = Inr p \<and> task_files m' = dput p (Stored t') (task_files m) \<and>
        task_status t' = ''running'' \<and> workflow_id t' = workflow_id t \<and> task_id t' = task_id t \<and>
        owner_id t' = owner_id t \<and> owner_epoch t' = owner_epoch t))"
proof -
  let ?t1 = "case from of None \<Rightarrow> t | Some [] \<Rightarrow> t | Some f \<Rightarrow> reset_from s (fst (auto_pair_gateways d)) f t"
  have keep: "workflow_id ?t1 = workflow_id t" "task_id ?t1 = task_id t" "owner_id ?t1 = owner_id t" "owner_epoch ?t1 = owner_epoch t"
    by (simp_all add: reset_from_def Let_def split: option.splits list.splits)
  show ?thesis
    using assms keep
    by (cases "task_path (workflow_id t) (task_id t)")
      (auto simp: begin_run_def Let_def save_task_def same_timers_def)
qed


lemma load_task_Some:
  "load_task m wid tid = Inr (Some t) \<longleftrightarrow>
     workflow_id t = wid \<and> task_id t = tid \<and> (\<exists>p. task_path wid tid = Inr p \<and> file_at m p = Stored t)"
proof (cases "task_path wid tid")
  case (Inr p)
  show ?thesis
  proof (cases "file_at m p")
    case (Stored x)
    with Inr show ?thesis by (auto simp: load_task_def)
  qed (simp_all add: Inr load_task_def)
qed (simp add: load_task_def)

lemma load_task_stored:
  assumes "task_path (workflow_id t) (task_id t) = Inr p" and "task_files m = dput p (Stored t) d"
  shows "load_task m (workflow_id t) (task_id t) = Inr (Some t)"
  using assms by (auto simp: load_task_Some file_at_def)

lemma route_Local:
  assumes "route s oper t args m = (Inr (Local, t'), m')"
  shows "t' = t \<and> m' = m"
proof -
  obtain x where x: "route_task_operation (remote s) (execution_delegate m) oper t args = Inr x"
    using assms by (cases "route_task_operation (remote s) (execution_delegate m) oper t args") (auto simp: route_def)
  have to: "routed_to x = Local"
    using assms x by (auto simp: route_def elim!: bind_opE split: list.splits)
  then have "x = \<lparr>routed_to = Local, remote_calls = [], routed_task = t, routed_saves = [], delegate_after = execution_delegate m\<rparr>"
    using x by (auto simp: route_task_operation_def Let_def bind_err_Inr_iff split: option.splits if_split_asm sum.splits)
  then show ?thesis using assms x by (simp add: route_def)
qed

lemma admit_reply: "admit s m tid t \<noteq> Some (Started a b)"
  by (auto simp: admit_def new_task_admission_result_def split: option.splits if_split_asm)

lemma assign_controller_keeps:
  "assign_controller t = (t', sv) \<Longrightarrow> workflow_id t' = workflow_id t \<and> task_id t' = task_id t \<and>
     task_status t' = task_status t \<and> main_takeover t' = main_takeover t \<and> main_session_id t' = main_session_id t"
  by (auto simp: assign_controller_def set_owner_def Let_def split: if_split_asm)

lemma run_here_cases:
  assumes "run_here s wid tid from t m = (x, m')"
  shows "(same_tables m m' \<and> (\<forall>a b. x \<noteq> Inr (Started a b))) \<or>
    (x = Inr (Started tid wid) \<and> same_timers m m' \<and> task_status t \<in> {''pending'', ''resume_pending''} \<and>
     (task_status t = ''pending'' \<longrightarrow> truthy (got (control_state s) ''accepting_new_tasks'')) \<and> \<not> running m tid \<and>
     (\<exists>r. runners m' = dput tid r (runners m) \<and> \<not> runner_done r) \<and>
     (\<exists>p t' d. task_path (workflow_id t) (task_id t) = Inr p \<and> task_files m' = dput p (Stored t') d \<and>
        task_status t' = ''running'' \<and> workflow_id t' = workflow_id t \<and> task_id t' = task_id t \<and>
        task_ownership_error (local_identity m) t' = None))"
proof -
  obtain t1 saves where a: "(if main_takeover t then assign_controller t else (t, [])) = (t1, saves)" by force
  then have k: "workflow_id t1 = workflow_id t" "task_id t1 = task_id t" "task_status t1 = task_status t"
    by (auto simp: assign_controller_keeps split: if_split_asm)
  define sv where "sv = (case saves of [] \<Rightarrow> (Inr (), m) | t' # _ \<Rightarrow> save_task (iso_now s) t' m)"
  have sm: "same_tables m (snd sv)" by (simp add: sv_def split: list.splits)
  let ?f = "\<lambda>m1. case admit s m1 tid t1 of
             Some r \<Rightarrow> (Inr r, m1)
           | None \<Rightarrow>
               (case task_definition s t1 of
                  Inl e \<Rightarrow> (Inl e, m1)
                | Inr None \<Rightarrow> (Inr (NoWorkflow wid), m1)
                | Inr (Some d) \<Rightarrow> begin_run s wid tid from d t1 m1)"
  have r: "bind_op sv (\<lambda>_. ?f) = (x, m')"
    using assms unfolding run_here_def a Let_def prod.case sv_def by simp
  show ?thesis
  proof (cases "fst sv")
    case (Inl e)
    with r sm show ?thesis by (auto simp: bind_op_def)
  next
    case (Inr u)
    then have f: "?f (snd sv) = (x, m')" using r by (simp add: bind_op_def)
    show ?thesis
    proof (cases "admit s (snd sv) tid t1")
      case (Some y)
      then have "x = Inr y" "m' = snd sv" "\<forall>a b. y \<noteq> Started a b" using f admit_reply by auto
      with sm show ?thesis by simp
    next
      case None
      then have ad: "task_ownership_error (local_identity m) t1 = None" "task_status t \<in> {''pending'', ''resume_pending''}"
        "task_status t = ''pending'' \<longrightarrow> truthy (got (control_state s) ''accepting_new_tasks'')" "\<not> running m tid"
        using sm k by (auto simp: admit_def new_task_admission_result_def same_tables_def same_timers_def running_def
            split: option.splits if_split_asm)
      show ?thesis
      proof (cases "\<exists>d. task_definition s t1 = Inr (Some d)")
        case False
        then have "m' = snd sv" "\<And>a b. x \<noteq> Inr (Started a b)"
          using f None by (auto split: sum.splits option.splits)
        with sm show ?thesis by auto
      next
        case True
        then obtain d where "begin_run s wid tid from d t1 (snd sv) = (x, m')" using f None by auto
        from begin_run_cases [OF this] show ?thesis
        proof
          assume "\<exists>e. x = Inl e \<and> m' = snd sv"
          with sm show ?thesis by auto
        next
          assume b: "x = Inr (Started tid wid) \<and> same_timers (snd sv) m' \<and> execution_delegate m' = execution_delegate (snd sv) \<and>
            (\<exists>r. runners m' = dput tid r (runners (snd sv)) \<and> \<not> runner_done r) \<and>
            (\<exists>p t'. task_path (workflow_id t1) (task_id t1) = Inr p \<and> task_files m' = dput p (Stored t') (task_files (snd sv)) \<and>
               task_status t' = ''running'' \<and> workflow_id t' = workflow_id t1 \<and> task_id t' = task_id t1 \<and>
               owner_id t' = owner_id t1 \<and> owner_epoch t' = owner_epoch t1)"
          then obtain p t' where t': "task_path (workflow_id t1) (task_id t1) = Inr p"
            "task_files m' = dput p (Stored t') (task_files (snd sv))" "task_status t' = ''running''"
            "workflow_id t' = workflow_id t1" "task_id t' = task_id t1" "owner_id t' = owner_id t1" "owner_epoch t' = owner_epoch t1"
            by blast
          have "task_ownership_error (local_identity m) t' = None"
            using ad(1) t' by (cases "local_identity m") (simp_all add: task_ownership_error_def owned_by_def)
          moreover have "same_timers m m'" using b sm same_trans(1) same_tables_timers by blast
          moreover have "runners (snd sv) = runners m" using sm by (simp add: same_tables_def)
          ultimately show ?thesis using b ad t' k by (intro disjI2) auto
        qed
      qed
    qed
  qed
qed

lemma run_task_cases:
  assumes "run_task s wid tid from m = (x, m')"
  shows "(same_tables m m' \<and> (\<forall>a b. x \<noteq> Inr (Started a b))) \<or>
    (x = Inr (Started tid wid) \<and> same_timers m m' \<and> owner_enabled s wid \<and>
     (\<exists>t. load_task m wid tid = Inr (Some t) \<and> task_status t \<in> {''pending'', ''resume_pending''} \<and>
       (task_status t = ''pending'' \<longrightarrow> truthy (got (control_state s) ''accepting_new_tasks''))) \<and> \<not> running m tid \<and>
     (\<exists>r. runners m' = dput tid r (runners m) \<and> \<not> runner_done r) \<and>
     (\<exists>t'. load_task m' wid tid = Inr (Some t') \<and> task_status t' = ''running'' \<and>
       task_ownership_error (local_identity m) t' = None))"
proof (cases "owner_enabled s wid \<and> (\<exists>t. load_task m wid tid = Inr (Some t))")
  case False
  then have "m' = m \<and> (\<forall>a b. x \<noteq> Inr (Started a b))"
    using assms by (auto simp: run_task_def split: if_split_asm sum.splits option.splits)
  then show ?thesis by simp
next
  case True
  then obtain t where o: "owner_enabled s wid" and t: "load_task m wid tid = Inr (Some t)" by blast
  then have ids: "workflow_id t = wid" "task_id t = tid" by (auto simp: load_task_Some)
  let ?r = "route s ''run_task'' t (run_args wid tid from) m"
  have b: "bind_op ?r (\<lambda>(r, t') m1. if r \<noteq> Local then (Inr (Remote r), m1) else run_here s wid tid from t' m1) = (x, m')"
    using assms o t by (simp add: run_task_def)
  have sm: "same_tables m (snd ?r)" using route_same [of s _ t _ m] by (metis prod.collapse)
  from b show ?thesis
  proof (rule bind_opE)
    fix e assume "fst ?r = Inl e" "x = Inl e" "m' = snd ?r"
    with sm show ?thesis by simp
  next
    fix y assume y: "fst ?r = Inr y" "(case y of (r, t') \<Rightarrow> \<lambda>m1. if r \<noteq> Local then (Inr (Remote r), m1)
        else run_here s wid tid from t' m1) (snd ?r) = (x, m')"
    show ?thesis
    proof (cases "fst y = Local")
      case False
      with y sm show ?thesis by (cases y) auto
    next
      case True
      then obtain t' where "?r = (Inr (Local, t'), snd ?r)" using y(1) by (cases y) (metis fst_conv prod.collapse)
      from route_Local [OF this] have "snd ?r = m" "y = (Local, t)"
        using True y(1) by (auto, metis \<open>?r = (Inr (Local, t'), snd ?r)\<close> fst_conv sum.inject(2))
      then have "run_here s wid tid from t m = (x, m')" using y(2) by simp
      from run_here_cases [OF this] show ?thesis
      proof
        assume "same_tables m m' \<and> (\<forall>a b. x \<noteq> Inr (Started a b))"
        then show ?thesis by blast
      next
        assume c: "x = Inr (Started tid wid) \<and> same_timers m m' \<and> task_status t \<in> {''pending'', ''resume_pending''} \<and>
          (task_status t = ''pending'' \<longrightarrow> truthy (got (control_state s) ''accepting_new_tasks'')) \<and> \<not> running m tid \<and>
          (\<exists>r. runners m' = dput tid r (runners m) \<and> \<not> runner_done r) \<and>
          (\<exists>p t' d. task_path (workflow_id t) (task_id t) = Inr p \<and> task_files m' = dput p (Stored t') d \<and>
             task_status t' = ''running'' \<and> workflow_id t' = workflow_id t \<and> task_id t' = task_id t \<and>
             task_ownership_error (local_identity m) t' = None)"
        then obtain p t' d where t': "task_path (workflow_id t') (task_id t') = Inr p" "task_files m' = dput p (Stored t') d"
          "task_status t' = ''running''" "workflow_id t' = wid" "task_id t' = tid" "task_ownership_error (local_identity m) t' = None"
          using ids by auto
        from load_task_stored [OF t'(1,2)] t' have "load_task m' wid tid = Inr (Some t')" by simp
        with c t t' o show ?thesis by (intro disjI2) blast
      qed
    qed
  qed
qed


text \<open>
  C21. A task is started only when it may be: a reply that it started means it was stored as
  pending or about to resume, a pending one while new tasks are admitted, with no live runner;
  then it has one, its file says running and this process owns it. Any other reply, and any
  exception, leaves runners and timers as they were.
\<close>

theorem started_only_when_admitted:
  assumes "run_task s wid tid from m = (x, m')"
  shows "case x of
      Inr (Started a b) \<Rightarrow> a = tid \<and> b = wid \<and> \<not> running m tid \<and> running m' tid \<and>
        (\<exists>t t'. load_task m wid tid = Inr (Some t) \<and> task_status t \<in> {''pending'', ''resume_pending''} \<and>
           (task_status t = ''pending'' \<longrightarrow> truthy (got (control_state s) ''accepting_new_tasks'')) \<and>
           load_task m' wid tid = Inr (Some t') \<and> task_status t' = ''running'' \<and>
           task_ownership_error (local_identity m) t' = None)
    | _ \<Rightarrow> runners m' = runners m \<and> timers m' = timers m"
proof (cases "\<exists>a b. x = Inr (Started a b)")
  case True
  with run_task_cases [OF assms] have c: "x = Inr (Started tid wid)" "\<not> running m tid"
    "\<exists>r. runners m' = dput tid r (runners m) \<and> \<not> runner_done r"
    "\<exists>t. load_task m wid tid = Inr (Some t) \<and> task_status t \<in> {''pending'', ''resume_pending''} \<and>
       (task_status t = ''pending'' \<longrightarrow> truthy (got (control_state s) ''accepting_new_tasks''))"
    "\<exists>t'. load_task m' wid tid = Inr (Some t') \<and> task_status t' = ''running'' \<and>
       task_ownership_error (local_identity m) t' = None" by auto
  then have "running m' tid" by (auto simp: running_def)
  with c show ?thesis by auto
next
  case False
  with run_task_cases [OF assms] have "same_tables m m'" by auto
  with False show ?thesis by (auto simp: same_tables_def same_timers_def split: sum.splits reply.splits)
qed

section \<open>Timers\<close>

definition generation_of :: "manager \<Rightarrow> string \<Rightarrow> int" where
  "generation_of m tid = dgetd (generations m) tid 0"

lemma generation_of_simps [simp]:
  "generation_of (m\<lparr>timers := ts\<rparr>) = generation_of m" "generation_of (m\<lparr>task_files := fs\<rparr>) = generation_of m"
  "generation_of (m\<lparr>runners := rs\<rparr>) = generation_of m" "generation_of (m\<lparr>stopping := b\<rparr>) = generation_of m"
  "generation_of (cancel_retry_timer tid m) = (generation_of m)(tid := generation_of m tid + 1)"
  by (auto simp: generation_of_def cancel_retry_timer_def dgetd_def)

lemma generation_of_same: "generations m' = generations m \<Longrightarrow> generation_of m' = generation_of m"
  by (simp add: generation_of_def fun_eq_iff)

lemma below_raised: "\<forall>t. b t \<le> (f t :: int) \<Longrightarrow> \<forall>t. b t \<le> (f(u := f u + 1)) t"
proof
  fix t assume "\<forall>t. b t \<le> f t"
  then have "b t \<le> f t" ..
  then show "b t \<le> (f(u := f u + 1)) t" by (cases "t = u") simp_all
qed

text \<open>Timers have the current generation of their task, no generation is below \<open>b\<close>, no runner is done.\<close>

definition timers_current :: "(string \<Rightarrow> int) \<Rightarrow> manager \<Rightarrow> bool" where
  "timers_current b m =
     ((\<forall>tid. b tid \<le> generation_of m tid) \<and>
      (\<forall>tid tm. dget (timers m) tid = Some tm \<longrightarrow> dget (generations m) tid = Some (timer_generation tm)) \<and>
      (\<forall>tid r. dget (runners m) tid = Some r \<longrightarrow> \<not> runner_done r))"

lemma timers_current_same: "same_tables m m' \<Longrightarrow> timers_current b m' = timers_current b m"
  by (simp add: timers_current_def generation_of_def same_tables_def same_timers_def)

lemma cancel_current: "timers_current b m \<Longrightarrow> timers_current b (cancel_retry_timer tid m)"
  using below_raised [of b "generation_of m" tid]
  by (simp add: timers_current_def) (auto simp: cancel_retry_timer_def)

lemma drop_current: "timers_current b m \<Longrightarrow> timers_current b (drop_runner tid m)"
  by (auto simp: timers_current_def generation_of_def drop_runner_def)

lemma save_current: "timers_current b m \<Longrightarrow> save_task now t m = (r, m') \<Longrightarrow> timers_current b m'"
  using save_task_frame timers_current_same by blast

lemma schedule_cases:
  assumes "schedule_retry_for_task w t m = (r, m')"
  shows "m' = cancel_retry_timer (task_id t) m \<or>
    (\<exists>c. load_task m (workflow_id t) (task_id t) = Inr (Some c) \<and>
       m' = (cancel_retry_timer (task_id t) m)\<lparr>timers := dput (task_id t)
         \<lparr>timer_workflow = workflow_id c,
          timer_due = Min ((\<lambda>(_, _, d). d) ` set (retry_waiting_states (from_iso w) (node_states c))),
          timer_generation = dgetd (generations m) (task_id t) 0 + 1\<rparr> (dpop (task_id t) (timers m))\<rparr>)"
proof -
  have l: "load_task (cancel_retry_timer i m) a b = load_task m a b" for i a b
    by (simp add: load_task_def file_at_def cancel_retry_timer_def)
  show ?thesis
  proof (cases "load_task m (workflow_id t) (task_id t)")
    case (Inl e)
    with assms l show ?thesis by (simp add: schedule_retry_for_task_def Let_def)
  next
    case (Inr c)
    show ?thesis
    proof (cases c)
      case None
      with Inr assms l show ?thesis by (simp add: schedule_retry_for_task_def Let_def)
    next
      case (Some d)
      then have "task_id d = task_id t" using Inr by (simp add: load_task_Some)
      with Some Inr assms l show ?thesis
        by (auto simp: schedule_retry_for_task_def Let_def cancel_retry_timer_def split: if_split_asm)
    qed
  qed
qed

lemma schedule_current: "timers_current b m \<Longrightarrow> schedule_retry_for_task w t m = (r, m') \<Longrightarrow> timers_current b m'"
proof -
  assume c: "timers_current b m" and s: "schedule_retry_for_task w t m = (r, m')"
  from schedule_cases [OF s] show ?thesis
  proof
    assume "m' = cancel_retry_timer (task_id t) m"
    with c show ?thesis by (simp add: cancel_current)
  next
    assume "\<exists>c. load_task m (workflow_id t) (task_id t) = Inr (Some c) \<and>
       m' = (cancel_retry_timer (task_id t) m)\<lparr>timers := dput (task_id t)
         \<lparr>timer_workflow = workflow_id c,
          timer_due = Min ((\<lambda>(_, _, d). d) ` set (retry_waiting_states (from_iso w) (node_states c))),
          timer_generation = dgetd (generations m) (task_id t) 0 + 1\<rparr> (dpop (task_id t) (timers m))\<rparr>"
    then obtain tm where x: "m' = (cancel_retry_timer (task_id t) m)\<lparr>timers := dput (task_id t) tm (dpop (task_id t) (timers m))\<rparr>"
        "timer_generation tm = dgetd (generations m) (task_id t) 0 + 1" by force
    have "timers_current b (cancel_retry_timer (task_id t) m)" using c by (rule cancel_current)
    then show ?thesis
      unfolding x(1) using x(2) by (simp add: timers_current_def) (auto simp: cancel_retry_timer_def split: if_split_asm)
  qed
qed

lemma run_current:
  assumes "timers_current b m" and "run_task s wid tid from m = (r, m')"
  shows "timers_current b m'"
  using run_task_cases [OF assms(2)] assms(1)
  by (auto simp: timers_current_same) (auto simp: timers_current_def same_timers_def dest: generation_of_same split: if_split_asm)

lemma end_current:
  assumes "timers_current b m" and "end_runner w s tid e m = (r, m')"
  shows "timers_current b m'"
proof (cases e)
  case (Cancelled t)
  with assms show ?thesis
    by (auto simp: end_runner_def Let_def split: prod.splits intro: drop_current save_current)
next
  case (Crashed t)
  with assms show ?thesis
    by (auto simp: end_runner_def Let_def split: prod.splits intro: drop_current save_current)
next
  case (Returned t stored)
  let ?m = "drop_runner tid (if stored then snd (save_task (iso_now s) t m) else m)"
  have "timers_current b ?m" using assms(1) timers_current_same [OF save_task_same] by (auto intro!: drop_current)
  then show ?thesis using assms(2) Returned schedule_current
    by (auto simp: end_runner_def Let_def split: if_split_asm)
qed

lemma remove_current: "timers_current b m \<Longrightarrow> remove_task wid tid m = (r, m') \<Longrightarrow> timers_current b m'"
  by (auto simp: remove_task_def timers_current_def split: sum.splits)

lemma bind_current:
  assumes "bind_op r f = (x, m')" and "timers_current b (snd r)"
    and "\<And>y m1 x' m2. timers_current b m1 \<Longrightarrow> f y m1 = (x', m2) \<Longrightarrow> timers_current b m2"
  shows "timers_current b m'"
  using assms by (auto elim!: bind_opE)

lemma snd_current [intro]:
  "timers_current b m \<Longrightarrow> timers_current b (snd (save_task now t m))"
  "timers_current b m \<Longrightarrow> timers_current b (snd (remove_task wid tid m))"
  "timers_current b m \<Longrightarrow> timers_current b (snd (schedule_retry_for_task w t m))"
  "timers_current b m \<Longrightarrow> timers_current b (snd (run_task s wid tid from m))"
  "timers_current b m \<Longrightarrow> timers_current b (snd (route s oper t args m))"
  "timers_current b m \<Longrightarrow> timers_current b (snd (end_runner w s tid e m))"
  using save_current remove_current schedule_current run_current end_current route_same timers_current_same
  by (metis prod.collapse)+


lemma routed_first_current:
  assumes "timers_current b m" and "routed_first s oper wid tid args f m = (r, m')"
    and f: "\<And>m1 x m2. timers_current b m1 \<Longrightarrow> f m1 = (x, m2) \<Longrightarrow> timers_current b m2"
  shows "timers_current b m'"
proof (cases "load_task m wid tid")
  case (Inl e)
  with assms show ?thesis by (simp add: routed_first_def)
next
  case (Inr o')
  show ?thesis
  proof (cases o')
    case None
    with Inr assms show ?thesis by (simp add: routed_first_def)
  next
    case (Some t)
    show ?thesis
    proof (cases "should_delegate_task (execution_delegate m) t")
      case True
      have "timers_current b (snd (route s oper t args m))" using assms(1) by blast
      with True Inr Some assms show ?thesis
        by (auto simp: routed_first_def elim!: bind_opE split: prod.splits if_split_asm)
    next
      case False
      then have "(case task_ownership_error (local_identity m) t of Some e \<Rightarrow> (Inr (Refused e), m) | None \<Rightarrow> f m) = (r, m')"
        using assms(2) Inr Some by (simp add: routed_first_def)
      then show ?thesis using f [OF assms(1)] assms(1) by (cases "task_ownership_error (local_identity m) t") simp_all
    qed
  qed
qed

lemma stop_without_runner_current:
  assumes "timers_current b m" and "stop_without_runner s wid tid m = (r, m')"
  shows "timers_current b m'"
proof (cases "\<exists>t. load_task m wid tid = Inr (Some t)")
  case False
  with assms show ?thesis by (auto simp: stop_without_runner_def split: sum.splits option.splits)
next
  case True
  with assms show ?thesis
    by (auto simp: stop_without_runner_def Let_def split: if_split_asm elim!: bind_opE intro!: snd_current cancel_current)
qed

lemma stop_runner_current:
  assumes "timers_current b m" and "stop_runner w s wid tid e m = (r, m')"
  shows "timers_current b m'"
proof -
  let ?m = "cancel_retry_timer tid m"
  have c: "timers_current b (snd (await_cancelled w s tid e ?m))"
    using assms(1) by (auto simp: await_cancelled_def cancel_current split: option.splits)
  show ?thesis
  proof (rule bind_current [OF assms(2) [unfolded stop_runner_def] c])
    fix y m1 x' m2
    assume t: "timers_current b m1"
    assume r: "(let m2 = drop_runner tid m1
       in case load_task m2 wid tid of
            Inl x \<Rightarrow> (Inl x, m2)
          | Inr None \<Rightarrow> (Inr (StoppedRunner tid), m2)
          | Inr (Some t) \<Rightarrow>
              (if task_status t \<in> set terminal_statuses then (Inr (StoppedRunner tid), m2)
               else bind_op (save_task (iso_now s) (end_task s ''stopped'' t) m2) (\<lambda>_ m3. (Inr (StoppedRunner tid), m3)))) = (x', m2)"
    have d: "timers_current b (drop_runner tid m1)" using t by (rule drop_current)
    show "timers_current b m2"
      using r d unfolding Let_def
      by (auto split: sum.splits option.splits if_split_asm elim!: bind_opE intro!: snd_current)
  qed
qed

lemma stop_current:
  assumes "timers_current b m" and "stop_task w s wid tid e m = (r, m')"
  shows "timers_current b m'"
proof (cases "owner_enabled s wid")
  case False
  with assms show ?thesis by (simp add: stop_task_def)
next
  case True
  let ?f = "\<lambda>m. case dget (runners m) tid of
          None \<Rightarrow> stop_without_runner s wid tid m
        | Some r \<Rightarrow> (if runner_done r then (Inr AlreadyFinished, drop_runner tid m) else stop_runner w s wid tid e m)"
  have "routed_first s ''stop_task'' wid tid (stop_args wid tid) ?f m = (r, m')"
    using assms(2) True by (simp add: stop_task_def)
  then show ?thesis
  proof (rule routed_first_current [OF assms(1)])
    fix m1 x m2 assume c: "timers_current b m1" and f: "?f m1 = (x, m2)"
    show "timers_current b m2"
    proof (cases "dget (runners m1) tid")
      case None
      with f have "stop_without_runner s wid tid m1 = (x, m2)" by simp
      with c show ?thesis by (rule stop_without_runner_current)
    next
      case (Some r)
      then have "\<not> runner_done r" using c by (simp add: timers_current_def)
      with Some f have "stop_runner w s wid tid e m1 = (x, m2)" by simp
      with c show ?thesis by (rule stop_runner_current)
    qed
  qed
qed

lemma control_here_current:
  assumes "timers_current b m" and "control_here s c wid tid nid expected m = (r, m')"
  shows "timers_current b m'"
proof (cases "\<exists>t st. validate_node_control m wid tid nid expected = Inr (Inr (t, st))")
  case False
  with assms show ?thesis by (auto simp: control_here_def split: sum.splits)
next
  case True
  then obtain t st where v: "validate_node_control m wid tid nid expected = Inr (Inr (t, st))" by blast
  have c: "timers_current b (cancel_retry_timer tid m)" using assms(1) by (rule cancel_current)
  show ?thesis
  proof (cases "controlled_state s c st")
    case (Inl e)
    with v c assms show ?thesis by (simp add: control_here_def Let_def)
  next
    case (Inr st')
    let ?t = "prepare_task_for_resume (t\<lparr>node_states := dput nid st' (node_states t)\<rparr>)"
    have "bind_op (save_task (iso_now s) ?t (cancel_retry_timer tid m)) (\<lambda>_ m2.
        bind_op (run_task s wid tid None m2) (\<lambda>r m3. (Inr (NodeReply r nid (control_name c)), m3))) = (r, m')"
      using assms(2) v Inr by (simp add: control_here_def Let_def)
    then show ?thesis
    proof (rule bind_current)
      show "timers_current b (snd (save_task (iso_now s) ?t (cancel_retry_timer tid m)))" using c by blast
    next
      fix y m1 x' m2 assume "timers_current b m1"
        and "bind_op (run_task s wid tid None m1) (\<lambda>r m3. (Inr (NodeReply r nid (control_name c)), m3)) = (x', m2)"
      then show "timers_current b m2" using snd_current(4) by (auto elim!: bind_opE)
    qed
  qed
qed

lemma control_current:
  assumes "timers_current b m" and "control_node s c wid tid nid expected m = (r, m')"
  shows "timers_current b m'"
proof (cases "owner_enabled s wid")
  case True
  then have "routed_first s (control_name c) wid tid (control_args wid tid nid expected)
      (control_here s c wid tid nid expected) m = (r, m')"
    using assms(2) by (simp add: control_node_def)
  then show ?thesis by (rule routed_first_current [OF assms(1)]) (rule control_here_current)
qed (use assms in \<open>simp add: control_node_def\<close>)

lemma activate_current:
  assumes "timers_current b m" and "activate_due_retries w s utc wid tid g m = (r, m')"
  shows "timers_current b m'"
proof (cases "(stopping m \<or> dget (generations m) tid \<noteq> Some g \<or> \<not> owner_enabled s wid \<or> running m tid) \<or>
    \<not> (\<exists>t. load_task m wid tid = Inr (Some t) \<and> task_status t = ''retry_waiting'')")
  case True
  with assms show ?thesis by (auto simp: activate_due_retries_def split: sum.splits option.splits if_split_asm)
next
  case False
  then obtain t where t: "load_task m wid tid = Inr (Some t)" "task_status t = ''retry_waiting''" by blast
  let ?due = "filter (\<lambda>(_, _, d). d \<le> utc) (retry_waiting_states (from_iso w) (node_states t))"
  have a: "(if ?due = [] then schedule_retry_for_task w t m
       else (case foldl activate_node (Inr (node_states t)) ?due of
               Inl e \<Rightarrow> (Inl e, m)
             | Inr sts \<Rightarrow>
                 bind_op (save_task (iso_now s) (prepare_task_for_resume (t\<lparr>node_states := sts\<rparr>)) m) (\<lambda>_ m1.
                 bind_op (run_task s wid tid None m1) (\<lambda>r m2.
                   case reply_ok r of Inl e \<Rightarrow> (Inl e, m2) | Inr _ \<Rightarrow> (Inr (), m2))))) = (r, m')"
    using assms(2) False t by (simp add: activate_due_retries_def Let_def)
  show ?thesis
  proof (cases "?due = []")
    case True
    with a assms(1) show ?thesis using schedule_current by simp
  next
    case False
    show ?thesis
    proof (cases "foldl activate_node (Inr (node_states t)) ?due")
      case (Inl e)
      with a False assms(1) show ?thesis by simp
    next
      case (Inr sts)
      have "bind_op (save_task (iso_now s) (prepare_task_for_resume (t\<lparr>node_states := sts\<rparr>)) m) (\<lambda>_ m1.
                 bind_op (run_task s wid tid None m1) (\<lambda>r m2.
                   case reply_ok r of Inl e \<Rightarrow> (Inl e, m2) | Inr _ \<Rightarrow> (Inr (), m2))) = (r, m')"
        using a False Inr by simp
      then show ?thesis
      proof (rule bind_current)
        show "timers_current b (snd (save_task (iso_now s) (prepare_task_for_resume (t\<lparr>node_states := sts\<rparr>)) m))"
          using assms(1) by blast
      next
        fix y m1 x' m2 assume c: "timers_current b m1"
          and "bind_op (run_task s wid tid None m1) (\<lambda>r m2. case reply_ok r of Inl e \<Rightarrow> (Inl e, m2) | Inr _ \<Rightarrow> (Inr (), m2)) = (x', m2)"
        moreover have "timers_current b (snd (run_task s wid tid None m1))" using c by blast
        ultimately show "timers_current b m2" by (auto elim!: bind_opE split: sum.splits)
      qed
    qed
  qed
qed

lemma worker_current:
  assumes "timers_current b m"
  shows "timers_current b (retry_timer_worker w s utc wid tid g m)"
proof -
  have "timers_current b (snd (activate_due_retries w s utc wid tid g m))"
    using activate_current [OF assms] by (metis prod.collapse)
  then show ?thesis by (auto simp: retry_timer_worker_def Let_def timers_current_def)
qed

lemma recover_task_current:
  assumes "timers_current b m" and "recover_task w s t m = (r, m')"
  shows "timers_current b m'"
proof (cases "\<exists>c d k c'. load_task m (workflow_id t) (task_id t) = Inr (Some c) \<and>
    task_status c \<in> set recoverable_statuses \<and> task_definition s c = Inr (Some d) \<and> recovered_task w d c = Inr (k, c')")
  case False
  with assms show ?thesis
    by (auto simp: recover_task_def split: sum.splits option.splits if_split_asm)
next
  case True
  then obtain c d k c' where l: "load_task m (workflow_id t) (task_id t) = Inr (Some c)"
    "task_status c \<in> set recoverable_statuses" "task_definition s c = Inr (Some d)" "recovered_task w d c = Inr (k, c')" by blast
  let ?f = "\<lambda>_ m1. case k of
                 Schedule \<Rightarrow> bind_op (schedule_retry_for_task w c' m1) (\<lambda>_ m2. (Inr Scheduled, m2))
               | Fail \<Rightarrow> (Inr Unrecovered, m1)
               | TaskRecovery.Resume \<Rightarrow>
                   bind_op (run_task s (workflow_id c') (task_id c') None m1) (\<lambda>r m2.
                     case reply_ok r of
                       Inl e \<Rightarrow> (Inl e, m2)
                     | Inr ok \<Rightarrow> (Inr (if ok then Resumed else Unrecovered), m2))"
  have "bind_op (save_task (iso_now s) c' m) ?f = (r, m')"
    using assms(2) l by (simp add: recover_task_def)
  then show ?thesis
  proof (rule bind_current)
    show "timers_current b (snd (save_task (iso_now s) c' m))" using assms(1) by blast
  next
    fix y m1 x' m2 assume c: "timers_current b m1" and f: "?f y m1 = (x', m2)"
    show "timers_current b m2"
    proof (cases k)
      case Schedule
      with f c show ?thesis using snd_current(3) by (auto elim!: bind_opE)
    next
      case Fail
      with f c show ?thesis by simp
    next
      case Resume
      with f c show ?thesis using snd_current(4) by (auto elim!: bind_opE split: sum.splits)
    qed
  qed
qed

lemma recover_file_current:
  "timers_current b (snd st) \<Longrightarrow> timers_current b (snd (recover_file w s who p st))"
  using recover_task_current
  by (auto simp: recover_file_def Let_def split: prod.splits task_file.splits)

lemma recover_all_current:
  assumes "timers_current b m"
  shows "timers_current b (snd (recover_workflow_tasks w s who m))"
proof -
  have "timers_current b (snd (fold (recover_file w s who) ps st))" if "timers_current b (snd st)" for ps st
    using that by (induction ps arbitrary: st) (auto simp: recover_file_current)
  moreover have "timers_current b (m\<lparr>stopping := False\<rparr>)" using assms by (simp add: timers_current_def)
  ultimately show ?thesis by (simp add: recover_workflow_tasks_def Let_def)
qed

lemma shutdown_current:
  assumes "timers_current b m"
  shows "timers_current b (shutdown_task_recovery m)"
proof -
  have "timers_current b (fold cancel_retry_timer ts n)" if "timers_current b n" for ts n
    using that by (induction ts arbitrary: n) (auto simp: cancel_current)
  moreover have "timers_current b (m\<lparr>stopping := True\<rparr>)" using assms by (simp add: timers_current_def)
  ultimately show ?thesis by (simp add: shutdown_task_recovery_def)
qed

text \<open>The operations of a manager, in any order; each has the surroundings and services of its time.\<close>

datatype manager_op =
    OpRun services string string "string option"
  | OpStop surroundings services string string "ending option"
  | OpEnd surroundings services string ending
  | OpControl services node_control string string string pyval
  | OpTimer surroundings services int string string int
  | OpRecover surroundings services "identity option"
  | OpShutdown

fun manager_step :: "manager \<Rightarrow> manager_op \<Rightarrow> manager" where
  "manager_step m (OpRun s wid tid from) = snd (run_task s wid tid from m)"
| "manager_step m (OpStop w s wid tid e) = snd (stop_task w s wid tid e m)"
| "manager_step m (OpEnd w s tid e) = snd (end_runner w s tid e m)"
| "manager_step m (OpControl s c wid tid nid n) = snd (control_node s c wid tid nid n m)"
| "manager_step m (OpTimer w s utc wid tid g) = retry_timer_worker w s utc wid tid g m"
| "manager_step m (OpRecover w s who) = snd (recover_workflow_tasks w s who m)"
| "manager_step m OpShutdown = shutdown_task_recovery m"

definition fresh_manager :: "manager \<Rightarrow> bool" where
  "fresh_manager m = (runners m = [] \<and> timers m = [])"

lemma manager_step_current: "timers_current b m \<Longrightarrow> timers_current b (manager_step m a)"
proof (cases a)
  case (OpStop w s wid tid e)
  assume "timers_current b m"
  then show ?thesis using OpStop stop_current by (metis manager_step.simps(2) prod.collapse)
next
  case (OpControl s c wid tid nid n)
  assume "timers_current b m"
  then show ?thesis using OpControl control_current by (metis manager_step.simps(4) prod.collapse)
qed (auto simp: worker_current recover_all_current shutdown_current)

interpretation task_manager: machine "\<lambda>m. fresh_manager m \<and> (\<forall>tid. b tid \<le> generation_of m tid)" manager_step "timers_current b" for b
  by unfold_locales (erule manager_step_current | simp add: fresh_manager_def timers_current_def)+

lemma reachable_current: "fresh_manager m \<Longrightarrow> timers_current (generation_of m) (fold (\<lambda>a n. manager_step n a) as m)"
  by (rule task_manager.run_from_init) simp

text \<open>
  C22. At most one timer of a task can act. In every state a manager reaches, each timer has the current
  generation of its task. When a timer is cancelled (as stopping, retrying, skipping and shutting
  down do) or replaced by a new one, every worker started before for that task is dead: whatever
  the manager does afterwards, such a worker changes nothing any more.
\<close>

theorem one_timer_acts:
  assumes "fresh_manager m" and "m1 = fold (\<lambda>a n. manager_step n a) as m"
    and "m2 \<in> {cancel_retry_timer tid m1} \<union> {snd (schedule_retry_for_task w t m1) |w t. task_id t = tid}"
    and "m3 = fold (\<lambda>a n. manager_step n a) bs m2" and "g \<le> dgetd (generations m1) tid 0"
  shows "(\<forall>u tm. dget (timers m3) u = Some tm \<longrightarrow> dget (generations m3) u = Some (timer_generation tm)) \<and>
    retry_timer_worker w' s utc wid tid g m3 = m3"
proof -
  have "timers_current (generation_of m) m1" using reachable_current [OF assms(1)] assms(2) by simp
  then have c1: "timers_current (generation_of m1) m1" by (simp add: timers_current_def)
  have raised: "timers_current (generation_of (cancel_retry_timer tid m1)) m2"
  proof -
    have c: "timers_current (generation_of (cancel_retry_timer tid m1)) (cancel_retry_timer tid m1)"
      using cancel_current [OF c1, of tid] by (simp add: timers_current_def)
    consider "m2 = cancel_retry_timer tid m1" | w t where "task_id t = tid" "m2 = snd (schedule_retry_for_task w t m1)"
      using assms(3) by blast
    then show ?thesis
    proof cases
      case 2
      obtain r where "schedule_retry_for_task w t m1 = (r, m2)" using 2(2) by (metis prod.collapse)
      from schedule_current [OF c1 this] schedule_cases [OF this] 2(1)
      have "timers_current (generation_of m1) m2" "generation_of m2 = generation_of (cancel_retry_timer tid m1)" by auto
      then show ?thesis by (simp add: timers_current_def)
    qed (use c in simp)
  qed
  have m3: "timers_current (generation_of (cancel_retry_timer tid m1)) m3"
    unfolding assms(4) by (rule task_manager.run_inv [OF raised])
  then have "generation_of (cancel_retry_timer tid m1) tid \<le> generation_of m3 tid" unfolding timers_current_def by blast
  then have "g < generation_of m3 tid" using assms(5) by (simp add: generation_of_def [of m1, symmetric])
  then have "dget (generations m3) tid \<noteq> Some g" by (auto simp: generation_of_def dgetd_def)
  then have "retry_timer_worker w' s utc wid tid g m3 = m3"
    by (simp add: retry_timer_worker_def activate_due_retries_def Let_def)
  with m3 show ?thesis by (simp add: timers_current_def)
qed

end
