(* ===== verification/TaskControl.thy ===== *)
theory TaskControl
  imports TaskTimers
begin

text \<open>
  Laws of stopping a task, of manual retry and skip, and of the retries that a recovery
  schedules, with an example of each.
\<close>

section \<open>Stopping\<close>

lemma load_after_save:
  assumes "load_task m wid tid = Inr (Some t)" and "workflow_id u = wid" and "task_id u = tid"
  shows "\<exists>m'. save_task now u m = (Inr (), m') \<and> load_task m' wid tid = Inr (Some (u\<lparr>updated_at := now\<rparr>)) \<and>
    same_tables m m' \<and> execution_delegate m' = execution_delegate m"
proof -
  obtain p where p: "task_path wid tid = Inr p" using assms(1) by (auto simp: load_task_Some)
  with assms(2,3) have s: "save_task now u m = (Inr (), m\<lparr>task_files := dput p (Stored (u\<lparr>updated_at := now\<rparr>)) (task_files m)\<rparr>)"
    by (simp add: save_task_def)
  then show ?thesis using p assms(2,3) save_task_frame [OF s] by (auto simp: load_task_Some file_at_def)
qed

lemma load_files: "task_files m' = task_files m \<Longrightarrow> load_task m' wid tid = load_task m wid tid"
  by (simp add: load_task_def file_at_def)

lemma load_drop [simp]: "load_task (drop_runner i m) wid tid = load_task m wid tid"
  "load_task (cancel_retry_timer i m) wid tid = load_task m wid tid"
  by (simp_all add: load_task_def file_at_def drop_runner_def cancel_retry_timer_def)

definition at_rest :: "string \<Rightarrow> string \<Rightarrow> manager \<Rightarrow> bool" where
  "at_rest wid tid m =
     (dget (runners m) tid = None \<and>
      (load_task m wid tid = Inr None \<or>
       (\<exists>t. load_task m wid tid = Inr (Some t) \<and> task_status t \<in> set terminal_statuses)))"

lemma save_at_rest:
  assumes "load_task m wid tid = Inr (Some t)" and "workflow_id u = wid" and "task_id u = tid"
    and "task_status u \<in> set terminal_statuses" and "dget (runners m) tid = None" and "save_task now u m = (r, m')"
  shows "at_rest wid tid m'"
  using load_after_save [OF assms(1-3), of now] assms(4-6)
  by (auto simp: at_rest_def same_tables_def)

lemma stop_without_runner_rest:
  assumes "stop_without_runner s wid tid m = (Inr r, m')" and "reply_ok r = Inr True" and "dget (runners m) tid = None"
  shows "at_rest wid tid m'"
proof -
  obtain t where t: "load_task m wid tid = Inr (Some t)"
    using assms by (auto simp: stop_without_runner_def split: sum.splits option.splits)
  then have id: "workflow_id t = wid" "task_id t = tid" by (simp_all add: load_task_Some)
  let ?u = "end_task s ''stopped'' (t\<lparr>current_node_id := None\<rparr>)"
  have u: "workflow_id ?u = wid" "task_id ?u = tid" "task_status ?u \<in> set terminal_statuses"
    using id by (simp_all add: end_task_def terminal_statuses_def)
  have cases: "(\<exists>r'. save_task (iso_now s) ?u m = (r', m')) \<or> (\<exists>r'. save_task (iso_now s) ?u (cancel_retry_timer tid m) = (r', m')) \<or>
      (\<exists>r'. remove_task wid tid m = (r', m'))"
    using assms(1,2) t
    by (auto simp: stop_without_runner_def Let_def split: if_split_asm elim!: bind_opE) (metis prod.collapse)+
  have c: "load_task (cancel_retry_timer tid m) wid tid = Inr (Some t)" "dget (runners (cancel_retry_timer tid m)) tid = None"
    using t assms(3) by (simp_all add: cancel_retry_timer_def load_task_def file_at_def)
  from cases show ?thesis
  proof (elim disjE exE)
    fix r' assume "save_task (iso_now s) ?u m = (r', m')"
    with t u assms(3) show ?thesis by (intro save_at_rest [of m wid tid t ?u])
  next
    fix r' assume "save_task (iso_now s) ?u (cancel_retry_timer tid m) = (r', m')"
    with c u show ?thesis by (intro save_at_rest [of "cancel_retry_timer tid m" wid tid t ?u])
  next
    fix r' assume rm: "remove_task wid tid m = (r', m')"
    obtain p where p: "task_path wid tid = Inr p" using t by (auto simp: load_task_Some)
    with rm have "m' = m\<lparr>task_files := dpop p (task_files m)\<rparr>" by (simp add: remove_task_def)
    then show ?thesis using p assms(3) by (simp add: at_rest_def load_task_def file_at_def)
  qed
qed

lemma stop_runner_rest:
  assumes "stop_runner w s wid tid e m = (Inr r, m')"
  shows "at_rest wid tid m'"
proof -
  obtain m1 where b: "(let m2 = drop_runner tid m1
       in case load_task m2 wid tid of
            Inl x \<Rightarrow> (Inl x, m2)
          | Inr None \<Rightarrow> (Inr (StoppedRunner tid), m2)
          | Inr (Some t) \<Rightarrow>
              (if task_status t \<in> set terminal_statuses then (Inr (StoppedRunner tid), m2)
               else bind_op (save_task (iso_now s) (end_task s ''stopped'' t) m2) (\<lambda>_ m3. (Inr (StoppedRunner tid), m3)))) = (Inr r, m')"
    using assms unfolding stop_runner_def by (rule bind_opE) auto
  let ?m = "drop_runner tid m1"
  have r: "dget (runners ?m) tid = None" by (simp add: drop_runner_def)
  show ?thesis
  proof (cases "load_task ?m wid tid")
    case (Inl x)
    with b show ?thesis by (simp add: Let_def)
  next
    case (Inr o')
    show ?thesis
    proof (cases o')
      case None
      with b Inr r show ?thesis by (auto simp: Let_def at_rest_def)
    next
      case (Some t)
      show ?thesis
      proof (cases "task_status t \<in> set terminal_statuses")
        case True
        with b Inr Some r have "m' = ?m" by (simp add: Let_def)
        then show ?thesis unfolding at_rest_def using True Inr Some r by blast
      next
        case False
        let ?u = "end_task s ''stopped'' t"
        have l: "load_task ?m wid tid = Inr (Some t)" using Inr Some by simp
        have "save_task (iso_now s) ?u ?m = (fst (save_task (iso_now s) ?u ?m), m')"
          using b l False by (auto simp: Let_def elim!: bind_opE intro: prod_eqI)
        moreover have "workflow_id ?u = wid" "task_id ?u = tid" "task_status ?u \<in> set terminal_statuses"
          using l by (simp_all add: end_task_def terminal_statuses_def load_task_Some)
        ultimately show ?thesis using l r by (intro save_at_rest [of ?m wid tid t ?u])
      qed
    qed
  qed
qed

lemma routed_first_local:
  assumes "execution_delegate m = None"
  shows "routed_first s oper wid tid args f m =
    (case load_task m wid tid of
       Inl e \<Rightarrow> (Inl e, m)
     | Inr None \<Rightarrow> f m
     | Inr (Some t) \<Rightarrow> (case task_ownership_error (local_identity m) t of Some e \<Rightarrow> (Inr (Refused e), m) | None \<Rightarrow> f m))"
proof -
  have "\<not> should_delegate_task (execution_delegate m) t" for t using assms by (simp add: should_delegate_task_def)
  then show ?thesis by (simp add: routed_first_def split: sum.split option.split)
qed

text \<open>
  C19. A stop that succeeds is final: in a process without remote executors, after any history,
  the task then has no runner, its file is gone or says that it ended, no timer that fires
  later changes anything, and the task cannot be started.
\<close>

theorem stopped_stays_stopped:
  assumes "fresh_manager m0" and "m = fold (\<lambda>a n. manager_step n a) as m0" and "execution_delegate m = None"
    and "stop_task w s wid tid e m = (Inr r, m')" and "reply_ok r = Inr True"
  shows "dget (runners m') tid = None \<and>
    (\<forall>t. load_task m' wid tid = Inr (Some t) \<longrightarrow> task_status t \<in> set terminal_statuses) \<and>
    (\<forall>w s utc g. activate_due_retries w s utc wid tid g m' = (Inr (), m')) \<and>
    (\<forall>s from. fst (run_task s wid tid from m') \<noteq> Inr (Started tid wid))"
proof -
  have cur: "timers_current (generation_of m0) m" using reachable_current [OF assms(1)] assms(2) by simp
  let ?f = "\<lambda>m. case dget (runners m) tid of
          None \<Rightarrow> stop_without_runner s wid tid m
        | Some r \<Rightarrow> (if runner_done r then (Inr AlreadyFinished, drop_runner tid m) else stop_runner w s wid tid e m)"
  have "routed_first s ''stop_task'' wid tid (stop_args wid tid) ?f m = (Inr r, m')"
    using assms(4,5) by (auto simp: stop_task_def split: if_split_asm)
  then have f: "?f m = (Inr r, m')"
    using assms(5) unfolding routed_first_local [OF assms(3)] by (auto split: sum.splits option.splits)
  have rest: "at_rest wid tid m'"
  proof (cases "dget (runners m) tid")
    case None
    with f assms(5) show ?thesis by (intro stop_without_runner_rest [of s wid tid m r]) simp_all
  next
    case (Some x)
    then have "\<not> runner_done x" using cur by (simp add: timers_current_def)
    with f Some show ?thesis by (intro stop_runner_rest [of w s wid tid e m r]) simp
  qed
  then have "\<And>t. load_task m' wid tid = Inr (Some t) \<Longrightarrow> task_status t \<in> set terminal_statuses" "\<exists>x. load_task m' wid tid = Inr x"
    by (auto simp: at_rest_def)
  then have t: "\<And>t. load_task m' wid tid = Inr (Some t) \<Longrightarrow> task_status t \<in> set terminal_statuses"
    "\<exists>x. load_task m' wid tid = Inr x" by blast+
  have "activate_due_retries w s utc wid tid g m' = (Inr (), m')" for w s utc g
    using t by (auto simp: activate_due_retries_def terminal_statuses_def split: option.splits)
  moreover have "fst (run_task s wid tid fr m') \<noteq> Inr (Started tid wid)" for s fr
  proof
    assume "fst (run_task s wid tid fr m') = Inr (Started tid wid)"
    then obtain m'' where "run_task s wid tid fr m' = (Inr (Started tid wid), m'')" by (metis prod.collapse)
    from run_task_cases [OF this] t(1) show False by (auto simp: terminal_statuses_def)
  qed
  ultimately show ?thesis using rest t(1) by (simp add: at_rest_def)
qed


section \<open>Manual control\<close>

text \<open>What a start without rerun leaves of the stored task.\<close>

definition kept :: "string \<Rightarrow> string \<Rightarrow> task \<Rightarrow> manager \<Rightarrow> bool" where
  "kept wid tid t m =
     (\<exists>t'. load_task m wid tid = Inr (Some t') \<and> node_states t' = node_states t \<and>
        task_status t' \<in> {task_status t, ''running''})"

lemma begin_run_kept:
  assumes "load_task m wid tid = Inr (Some u)" and "workflow_id t = wid" and "task_id t = tid"
  shows "kept wid tid t (snd (begin_run s wid tid None d t m))"
proof -
  let ?t = "t\<lparr>task_status := ''running'', task_started_at := Some (iso_now s), task_completed_at := None,
                 current_node_id := None, run_id := None\<rparr>"
  have id: "workflow_id ?t = wid" "task_id ?t = tid" using assms by simp_all
  obtain m' where m': "save_task (iso_now s) ?t m = (Inr (), m')"
    "load_task m' wid tid = Inr (Some (?t\<lparr>updated_at := iso_now s\<rparr>))"
    using load_after_save [OF assms(1) id, of "iso_now s"] by blast
  have "snd (begin_run s wid tid None d t m) = m'\<lparr>runners := runners (snd (begin_run s wid tid None d t m))\<rparr>"
    by (simp add: begin_run_def Let_def m'(1))
  then have "load_task (snd (begin_run s wid tid None d t m)) wid tid = load_task m' wid tid"
    by (metis (no_types, lifting) load_files manager.select_convs(1) manager.surjective manager.update_convs(2))
  with m'(2) show ?thesis by (simp add: kept_def)
qed

lemma run_here_kept:
  assumes "load_task m wid tid = Inr (Some t)"
  shows "kept wid tid t (snd (run_here s wid tid None t m))"
proof -
  have id: "workflow_id t = wid" "task_id t = tid" using assms by (simp_all add: load_task_Some)
  obtain t1 saves where a: "(if main_takeover t then assign_controller t else (t, [])) = (t1, saves)" by force
  then have k: "workflow_id t1 = wid" "task_id t1 = tid" "task_status t1 = task_status t" "node_states t1 = node_states t"
    "saves = [] \<or> saves = [t1]"
    using id by (auto simp: assign_controller_def set_owner_def Let_def split: if_split_asm)
  define sv where "sv = (case saves of [] \<Rightarrow> (Inr (), m) | t' # _ \<Rightarrow> save_task (iso_now s) t' m)"
  obtain u where sv: "fst sv = Inr ()" "load_task (snd sv) wid tid = Inr (Some u)" "node_states u = node_states t"
    "task_status u = task_status t"
  proof (cases saves)
    case Nil
    with assms show ?thesis by (intro that [of t]) (simp_all add: sv_def)
  next
    case (Cons y ys)
    then have "y = t1" using k(5) by simp
    with Cons load_after_save [OF assms k(1,2), of "iso_now s"] k show ?thesis
      by (intro that [of "t1\<lparr>updated_at := iso_now s\<rparr>"]) (auto simp: sv_def)
  qed
  have "snd (run_here s wid tid None t m) \<in> {snd sv} \<union> {snd (begin_run s wid tid None d t1 (snd sv)) |d. True}"
    using sv(1) unfolding run_here_def a Let_def prod.case sv_def [symmetric] bind_op_def
    by (auto split: option.splits sum.splits)
  then show ?thesis
  proof
    assume "snd (run_here s wid tid None t m) \<in> {snd sv}"
    with sv show ?thesis by (simp add: kept_def)
  next
    assume "snd (run_here s wid tid None t m) \<in> {snd (begin_run s wid tid None d t1 (snd sv)) |d. True}"
    then obtain d where "snd (run_here s wid tid None t m) = snd (begin_run s wid tid None d t1 (snd sv))" by blast
    with begin_run_kept [OF sv(2) k(1,2), of s d] k show ?thesis by (simp add: kept_def)
  qed
qed

lemma run_task_kept:
  assumes "load_task m wid tid = Inr (Some t)" and "execution_delegate m = None"
  shows "kept wid tid t (snd (run_task s wid tid None m))"
  using run_here_kept [OF assms(1), of s] assms
  by (simp add: run_task_def route_local kept_def)

lemma run_here_delegate: "execution_delegate (snd (run_here s wid tid fr t m)) = execution_delegate m"
proof -
  have b: "execution_delegate (snd (begin_run s wid tid fr d u n)) = execution_delegate n" for d u n
    by (cases "begin_run s wid tid fr d u n") (use begin_run_cases in fastforce)
  show ?thesis
    by (auto simp: run_here_def Let_def bind_op_def b split: prod.splits option.splits sum.splits list.splits)
qed

lemma run_task_delegate: "execution_delegate m = None \<Longrightarrow> execution_delegate (snd (run_task s wid tid fr m)) = None"
  by (auto simp: run_task_def route_local run_here_delegate split: sum.splits option.splits)

lemma controlled_state_Inr:
  assumes "status (own st) \<in> set controllable"
  shows "\<exists>st'. controlled_state s c st = Inr st' \<and> attempt_count (own st') = attempt_count (own st) \<and>
    attempt_history (own st') = attempt_history (own st) \<and> input_snapshot (own st') = input_snapshot (own st) \<and>
    status (own st') = (case c of RetryNode \<Rightarrow> ''pending'' | SkipNode \<Rightarrow> ''skipped'')"
proof -
  let ?st = "if status (own st) = ''retry_waiting'' then update_own (\<lambda>x. x\<lparr>status := ''failed''\<rparr>) st else st"
  have "normalize_node_status (status (own ?st)) = ''failed''" "\<not> retry_replayed manual_retry_trigger None (own ?st)"
    using assms by (auto simp: controllable_def normalize_node_status_def retry_replayed_def trigger_defs)
  then show ?thesis
    by (cases c) (simp_all add: controlled_state_def Let_def policy_step_def prepare_node_retry_def apply_failure_skip_def trigger_defs)
qed

lemma validate_cases:
  "validate_node_control m wid tid nid expected = Inr (Inr (t, st)) \<longleftrightarrow>
     load_task m wid tid = Inr (Some t) \<and> task_status t \<in> set controllable \<and> dget (node_states t) nid = Some st \<and>
     \<not> running m tid \<and> status (own st) \<in> set controllable \<and> expected = PInt (attempt_count (own st)) \<and> 0 \<le> attempt_count (own st)"
proof (cases "\<exists>t. load_task m wid tid = Inr (Some t)")
  case False
  then show ?thesis by (auto simp: validate_node_control_def bind_err_Inr_iff split: option.splits)
next
  case True
  then obtain u where u: "load_task m wid tid = Inr (Some u)" by blast
  have c: "check_node_control m tid u nid expected = Inr st \<longleftrightarrow> task_status u \<in> set controllable \<and>
      dget (node_states u) nid = Some st \<and> \<not> running m tid \<and> status (own st) \<in> set controllable \<and>
      valid_count expected = Some (attempt_count (own st))"
    by (cases "dget (node_states u) nid"; cases "valid_count expected") (auto simp: check_node_control_def)
  have "valid_count expected = Some n \<longleftrightarrow> expected = PInt n \<and> 0 \<le> n" for n
    by (cases expected) (auto simp: valid_count_def)
  moreover have "validate_node_control m wid tid nid expected = Inr (Inr (t, st)) \<longleftrightarrow>
      t = u \<and> check_node_control m tid u nid expected = Inr st"
    by (cases "check_node_control m tid u nid expected") (auto simp: validate_node_control_def u)
  ultimately show ?thesis using c u by auto
qed

lemma control_changes_nothing:
  assumes "execution_delegate m = None" and "load_task m wid tid = Inr (Some t)" and "task_status t \<notin> set controllable"
  shows "snd (control_node s c wid tid nid expected m) = m"
proof -
  have "validate_node_control m wid tid nid expected = Inr (Inl (TaskStatusConflict (task_status t)))"
    using assms by (simp add: validate_node_control_def check_node_control_def)
  then show ?thesis using assms
    by (simp add: control_node_def routed_first_local control_here_def split: option.split)
qed

text \<open>
  C20. A manual retry or skip is applied once: in a process without remote executors a request
  that is not applied changes nothing; one that is applied named the node's last attempt, the
  node had failed and nothing was running; it changes that node only, keeps its attempts and
  inputs, and the same request repeated, for a retry or a skip, changes nothing.
\<close>

theorem node_control_applied_once:
  assumes "execution_delegate m = None" and "control_node s c wid tid nid expected m = (Inr r, m')"
  shows "case r of
      NodeReply _ _ _ \<Rightarrow>
        (\<exists>t st st' t'. load_task m wid tid = Inr (Some t) \<and> dget (node_states t) nid = Some st \<and>
           status (own st) \<in> {''failed'', ''retry_waiting''} \<and> expected = PInt (attempt_count (own st)) \<and> \<not> running m tid \<and>
           load_task m' wid tid = Inr (Some t') \<and> node_states t' = dput nid st' (node_states t) \<and>
           status (own st') = (case c of RetryNode \<Rightarrow> ''pending'' | SkipNode \<Rightarrow> ''skipped'') \<and>
           attempt_history (own st') = attempt_history (own st) \<and> input_snapshot (own st') = input_snapshot (own st)) \<and>
        (\<forall>s c. snd (control_node s c wid tid nid expected m') = m')
    | _ \<Rightarrow> m' = m"
proof (cases "m' = m \<and> (\<forall>r0 i k. r \<noteq> NodeReply r0 i k)")
  case True
  then show ?thesis by (cases r) auto
next
  case False
  have h: "control_here s c wid tid nid expected m = (Inr r, m')"
    using assms(2) False
    by (auto simp: control_node_def routed_first_local [OF assms(1)] split: if_split_asm sum.splits option.splits)
  then obtain t st where v: "validate_node_control m wid tid nid expected = Inr (Inr (t, st))"
    using False by (auto simp: control_here_def split: sum.splits prod.splits)
  note v' = v [unfolded validate_cases]
  obtain st' where st': "controlled_state s c st = Inr st'" "attempt_history (own st') = attempt_history (own st)"
    "input_snapshot (own st') = input_snapshot (own st)"
    "status (own st') = (case c of RetryNode \<Rightarrow> ''pending'' | SkipNode \<Rightarrow> ''skipped'')"
    using controlled_state_Inr [of st s c] v' by blast
  let ?t = "prepare_task_for_resume (t\<lparr>node_states := dput nid st' (node_states t)\<rparr>)"
  let ?m = "cancel_retry_timer tid m"
  have l: "load_task ?m wid tid = Inr (Some t)" "workflow_id ?t = wid" "task_id ?t = tid"
    using v' by (simp_all add: prepare_task_for_resume_def load_task_Some)
  obtain m2 where m2: "save_task (iso_now s) ?t ?m = (Inr (), m2)" "load_task m2 wid tid = Inr (Some (?t\<lparr>updated_at := iso_now s\<rparr>))"
    "execution_delegate m2 = execution_delegate ?m" using load_after_save [OF l, of "iso_now s"] by blast
  have d2: "execution_delegate m2 = None" using m2(3) assms(1) by (simp add: cancel_retry_timer_def)
  obtain x where x: "run_task s wid tid None m2 = (Inr x, m')" and r: "r = NodeReply x nid (control_name c)"
    using h v st'(1) m2(1) by (auto simp: control_here_def Let_def elim!: bind_opE) (metis prod.collapse)
  have "kept wid tid (?t\<lparr>updated_at := iso_now s\<rparr>) m'"
    using run_task_kept [OF m2(2) d2, of s] x by simp
  then obtain t' where t': "load_task m' wid tid = Inr (Some t')" "node_states t' = dput nid st' (node_states t)"
    "task_status t' \<in> {''resume_pending'', ''running''}"
    by (auto simp: kept_def prepare_task_for_resume_def)
  have "execution_delegate m' = None" using run_task_delegate [OF d2, of s wid tid None] x by simp
  moreover have "task_status t' \<notin> set controllable" using t'(3) by (auto simp: controllable_def)
  ultimately have "snd (control_node s' c' wid tid nid expected m') = m'" for s' c'
    using control_changes_nothing t'(1) by blast
  with r v' st' t' show ?thesis by (auto simp: controllable_def)
qed

section \<open>Retries that are scheduled happen\<close>

lemma activate_all:
  assumes "\<forall>(i, st, d)\<in>set due. status (own st) = ''retry_waiting''"
  shows "\<exists>sts'. foldl activate_node (Inr sts) due = Inr sts' \<and>
    (\<forall>i\<in>fst ` set due. \<exists>st. dget sts' i = Some st \<and> status (own st) = ''pending'') \<and>
    (\<forall>i. i \<notin> fst ` set due \<longrightarrow> dget sts' i = dget sts i)"
  using assms
proof (induction due arbitrary: sts)
  case (Cons p due)
  obtain i st d where p: "p = (i, st, d)" by (cases p) auto
  define st' where "st' = update_own (\<lambda>x. x\<lparr>status := ''pending'', next_retry_at := None\<rparr>) st"
  have "activate_node (Inr sts) p = Inr (dput i st' sts)"
    using Cons.prems p by (simp add: activate_node_def activate_scheduled_retry_def policy_step_def st'_def)
  moreover obtain sts' where s: "foldl activate_node (Inr (dput i st' sts)) due = Inr sts'"
    "\<forall>i\<in>fst ` set due. \<exists>st. dget sts' i = Some st \<and> status (own st) = ''pending''"
    "\<forall>j. j \<notin> fst ` set due \<longrightarrow> dget sts' j = dget (dput i st' sts) j"
    using Cons.IH [of "dput i st' sts"] Cons.prems by auto
  moreover have "\<exists>st. dget sts' i = Some st \<and> status (own st) = ''pending''"
    using s(2,3) by (cases "i \<in> fst ` set due") (auto simp: st'_def)
  ultimately show ?case using p by auto
qed simp

lemma map_filter_member: "y \<in> set (List.map_filter g xs) \<longleftrightarrow> (\<exists>x\<in>set xs. g x = Some y)"
  by (induction xs) (auto simp: List.map_filter_simps split: option.split)

lemma waiting_states:
  "(i, st, d) \<in> set (retry_waiting_states f sts) \<longleftrightarrow>
     (i, st) \<in> set sts \<and> status (own st) = ''retry_waiting'' \<and> parse_datetime f (next_retry_at (own st)) = Some d"
  by (force simp: retry_waiting_states_def map_filter_member split: if_split_asm)

lemma recovered_task_scheduled:
  assumes "recovered_task w d c = Inr (Schedule, c')"
  shows "task_status c' = ''retry_waiting'' \<and> workflow_id c' = workflow_id c \<and> task_id c' = task_id c \<and>
    (\<exists>(i, st)\<in>set (node_states c'). status (own st) = ''retry_waiting'') \<and>
    (\<forall>(i, st)\<in>set (node_states c'). status (own st) = ''retry_waiting'' \<longrightarrow>
       parse_datetime (from_iso w) (next_retry_at (own st)) \<noteq> None)"
proof -
  obtain sts where s: "recovered_states w d (node_states c) = Inr sts" and k: "recovery_of (task_status c) sts = Schedule"
    and c': "c' = c\<lparr>node_states := sts, task_status := ''retry_waiting'', task_completed_at := None, current_node_id := None\<rparr>"
  proof -
    obtain sts where s: "recovered_states w d (node_states c) = Inr sts"
      using assms by (auto simp: recovered_task_def bind_err_Inr_iff)
    with assms show ?thesis
      by (cases "recovery_of (task_status c) sts") (auto simp: recovered_task_def Let_def intro!: that [of sts])
  qed
  have "closed_tree st \<and> deadline_ok w st" if "(i, st) \<in> set sts" for i st
    using recovered_states_spec [OF s] that
    by (auto simp: list_all2_conv_all_nth in_set_conv_nth recovered_one_def)
  moreover have "\<exists>(i, st)\<in>set sts. status (own st) = ''retry_waiting''"
    using k by (auto simp: recovery_of_def split: if_split_asm)
  ultimately show ?thesis using c' by (auto simp: deadline_ok_def)
qed

lemma schedule_sets_timer:
  assumes "schedule_retry_for_task w t m = (Inr (), m')" and "load_task m (workflow_id t) (task_id t) = Inr (Some c)"
    and "\<not> stopping m" and "task_status c = ''retry_waiting''" and "retry_waiting_states (from_iso w) (node_states c) \<noteq> []"
  shows "\<exists>tm. dget (timers m') (task_id t) = Some tm \<and> dget (generations m') (task_id t) = Some (timer_generation tm) \<and>
    timer_due tm = Min ((\<lambda>(_, _, d). d) ` set (retry_waiting_states (from_iso w) (node_states c))) \<and>
    task_files m' = task_files m \<and> runners m' = runners m \<and> execution_delegate m' = execution_delegate m \<and> stopping m' = stopping m"
proof -
  have "task_id c = task_id t" using assms(2) by (simp add: load_task_Some)
  then show ?thesis using assms
    by (auto simp: schedule_retry_for_task_def Let_def cancel_retry_timer_def load_task_def file_at_def)
qed

lemma fire_due_retry:
  assumes "load_task m wid tid = Inr (Some c)" and "task_status c = ''retry_waiting''" and "\<not> stopping m"
    and "dget (generations m) tid = Some g" and "owner_enabled s wid" and "\<not> running m tid" and "execution_delegate m = None"
    and "(i, st, d) \<in> set (retry_waiting_states (from_iso w) (node_states c))" and "d \<le> utc"
  shows "\<exists>t'. load_task (retry_timer_worker w s utc wid tid g m) wid tid = Inr (Some t') \<and>
    task_status t' \<in> {''resume_pending'', ''running''} \<and>
    (\<forall>i st. dget (node_states t') i = Some st \<longrightarrow> status (own st) = ''retry_waiting'' \<longrightarrow>
       (\<forall>d. parse_datetime (from_iso w) (next_retry_at (own st)) = Some d \<longrightarrow> utc < d))"
proof -
  let ?due = "filter (\<lambda>(_, _, d). d \<le> utc) (retry_waiting_states (from_iso w) (node_states c))"
  have due: "?due \<noteq> []" using assms(8,9) by (auto simp: filter_empty_conv)
  have "\<forall>(i, st, d)\<in>set ?due. status (own st) = ''retry_waiting''" by (auto simp: waiting_states)
  then obtain sts where sts: "foldl activate_node (Inr (node_states c)) ?due = Inr sts"
    "\<forall>i\<in>fst ` set ?due. \<exists>st. dget sts i = Some st \<and> status (own st) = ''pending''"
    "\<forall>i. i \<notin> fst ` set ?due \<longrightarrow> dget sts i = dget (node_states c) i" using activate_all by blast
  let ?t = "prepare_task_for_resume (c\<lparr>node_states := sts\<rparr>)"
  have id: "workflow_id ?t = wid" "task_id ?t = tid" using assms(1) by (simp_all add: prepare_task_for_resume_def load_task_Some)
  obtain m1 where m1: "save_task (iso_now s) ?t m = (Inr (), m1)" "load_task m1 wid tid = Inr (Some (?t\<lparr>updated_at := iso_now s\<rparr>))"
    "execution_delegate m1 = None" using load_after_save [OF assms(1) id, of "iso_now s"] assms(7) by auto
  obtain t' where t': "load_task (snd (run_task s wid tid None m1)) wid tid = Inr (Some t')" "node_states t' = sts"
    "task_status t' \<in> {''resume_pending'', ''running''}"
    using run_task_kept [OF m1(2,3), of s] by (auto simp: kept_def prepare_task_for_resume_def)
  have "activate_due_retries w s utc wid tid g m =
      bind_op (run_task s wid tid None m1) (\<lambda>r m2. case reply_ok r of Inl e \<Rightarrow> (Inl e, m2) | Inr _ \<Rightarrow> (Inr (), m2))"
    using assms(1-7) due sts(1) m1(1) by (simp add: activate_due_retries_def Let_def)
  then have "snd (activate_due_retries w s utc wid tid g m) = snd (run_task s wid tid None m1)"
    by (auto simp: bind_op_def split: sum.split)
  moreover have "load_task (n\<lparr>timers := x\<rparr>) wid tid = load_task n wid tid" for n x by (simp add: load_task_def file_at_def)
  ultimately have l: "load_task (retry_timer_worker w s utc wid tid g m) wid tid = Inr (Some t')"
    using t'(1) by (simp add: retry_timer_worker_def Let_def)
  have "utc < d" if g: "dget sts i = Some st" "status (own st) = ''retry_waiting''"
    "parse_datetime (from_iso w) (next_retry_at (own st)) = Some d" for i st d
  proof -
    have "i \<notin> fst ` set ?due" using sts(2) g by force
    then have "(i, st) \<in> set (node_states c)" using sts(3) g(1) dget_Some_in by metis
    with g have "(i, st, d) \<in> set (retry_waiting_states (from_iso w) (node_states c))" by (simp add: waiting_states)
    with \<open>i \<notin> fst ` set ?due\<close> show ?thesis by (force simp: image_iff)
  qed
  with l t' show ?thesis by auto
qed

text \<open>
  C17. A retry that recovery schedules happens: the task then waits on disk with a timer of the
  current generation at its earliest deadline, and when that timer fires at or after its time
  (the extension enabled, nothing running, no remote executors) the task is resumed and no
  node whose deadline has passed waits any longer.
\<close>

theorem scheduled_retry_fires:
  assumes "recover_task w s t m = (Inr Scheduled, m')" and "\<not> stopping m"
  shows "\<exists>c tm. load_task m' (workflow_id t) (task_id t) = Inr (Some c) \<and> task_status c = ''retry_waiting'' \<and>
    dget (timers m') (task_id t) = Some tm \<and> dget (generations m') (task_id t) = Some (timer_generation tm) \<and>
    (\<forall>(i, st)\<in>set (node_states c). status (own st) = ''retry_waiting'' \<longrightarrow>
       (\<exists>d. parse_datetime (from_iso w) (next_retry_at (own st)) = Some d \<and> timer_due tm \<le> d)) \<and>
    (\<forall>s' utc. timer_due tm \<le> utc \<longrightarrow> owner_enabled s' (workflow_id t) \<longrightarrow> \<not> running m' (task_id t) \<longrightarrow>
       execution_delegate m' = None \<longrightarrow>
       (\<exists>t'. load_task (retry_timer_worker w s' utc (workflow_id t) (task_id t) (timer_generation tm) m')
            (workflow_id t) (task_id t) = Inr (Some t') \<and> task_status t' \<in> {''resume_pending'', ''running''} \<and>
          (\<forall>i st. dget (node_states t') i = Some st \<longrightarrow> status (own st) = ''retry_waiting'' \<longrightarrow>
             (\<forall>d. parse_datetime (from_iso w) (next_retry_at (own st)) = Some d \<longrightarrow> utc < d))))"
proof -
  obtain c d k c' where l: "load_task m (workflow_id t) (task_id t) = Inr (Some c)"
    "task_definition s c = Inr (Some d)" "task_status c \<in> set recoverable_statuses" "recovered_task w d c = Inr (k, c')"
    using assms(1) by (auto simp: recover_task_def split: sum.splits option.splits if_split_asm)
  define f where "f = (\<lambda>(_ :: unit) m1. case k of
                 Schedule \<Rightarrow> bind_op (schedule_retry_for_task w c' m1) (\<lambda>_ m2. (Inr Scheduled, m2))
               | Fail \<Rightarrow> (Inr Unrecovered, m1)
               | TaskRecovery.Resume \<Rightarrow>
                   bind_op (run_task s (workflow_id c') (task_id c') None m1) (\<lambda>r m2.
                     case reply_ok r of
                       Inl e \<Rightarrow> (Inl e, m2)
                     | Inr ok \<Rightarrow> (Inr (if ok then Resumed else Unrecovered), m2)))"
  have b: "bind_op (save_task (iso_now s) c' m) f = (Inr Scheduled, m')"
    using assms(1) l by (simp add: recover_task_def f_def)
  have k: "k = Schedule" using b by (cases k) (auto simp: f_def elim!: bind_opE split: sum.splits if_split_asm)
  note c' = recovered_task_scheduled [OF l(4) [unfolded k]]
  have id: "workflow_id c = workflow_id t" "task_id c = task_id t" using l(1) by (simp_all add: load_task_Some)
  let ?c = "c'\<lparr>updated_at := iso_now s\<rparr>"
  obtain m1 where m1: "save_task (iso_now s) c' m = (Inr (), m1)"
    "load_task m1 (workflow_id t) (task_id t) = Inr (Some ?c)" "same_tables m m1"
    using load_after_save [OF l(1), of c' "iso_now s"] c' id by auto
  have s: "schedule_retry_for_task w c' m1 = (Inr (), m')"
    using b m1(1) by (auto simp: f_def k elim!: bind_opE intro: prod_eqI)
  let ?ws = "retry_waiting_states (from_iso w) (node_states ?c)"
  have ws: "?ws \<noteq> []"
  proof -
    obtain i st where w: "(i, st) \<in> set (node_states c')" "status (own st) = ''retry_waiting''" using c' by blast
    then have "parse_datetime (from_iso w) (next_retry_at (own st)) \<noteq> None" using c' by auto
    then obtain d where "parse_datetime (from_iso w) (next_retry_at (own st)) = Some d" by blast
    with w have "(i, st, d) \<in> set ?ws" by (simp add: waiting_states)
    then show ?thesis by auto
  qed
  have st1: "\<not> stopping m1" using m1(3) assms(2) by (simp add: same_tables_def same_timers_def)
  have lc: "load_task m1 (workflow_id c') (task_id c') = Inr (Some ?c)" using m1(2) c' id by simp
  have rw: "task_status ?c = ''retry_waiting''" using c' by simp
  obtain tm where tm: "dget (timers m') (task_id c') = Some tm" "dget (generations m') (task_id c') = Some (timer_generation tm)"
    "timer_due tm = Min ((\<lambda>(_, _, d). d) ` set ?ws)" "task_files m' = task_files m1" "stopping m' = stopping m1"
    using schedule_sets_timer [OF s lc st1 rw ws] by blast
  have lm: "load_task m' (workflow_id t) (task_id t) = Inr (Some ?c)" using m1(2) load_files [OF tm(4)] by simp
  have ids: "task_id c' = task_id t" "workflow_id c' = workflow_id t" using c' id by auto
  have le: "timer_due tm \<le> d" if "(i, st, d) \<in> set ?ws" for i st d
    unfolding tm(3) using that by (intro Min_le) force+
  have first: "\<exists>i st. (i, st, timer_due tm) \<in> set ?ws"
  proof -
    have "timer_due tm \<in> (\<lambda>(_, _, d). d) ` set ?ws" unfolding tm(3) using ws by (intro Min_in) auto
    then show ?thesis by force
  qed
  have each: "\<exists>d. parse_datetime (from_iso w) (next_retry_at (own st)) = Some d \<and> timer_due tm \<le> d"
    if "(i, st) \<in> set (node_states ?c)" "status (own st) = ''retry_waiting''" for i st
  proof -
    have "parse_datetime (from_iso w) (next_retry_at (own st)) \<noteq> None" using c' that by auto
    then obtain d where "parse_datetime (from_iso w) (next_retry_at (own st)) = Some d" by blast
    with that le show ?thesis by (auto simp: waiting_states)
  qed
  obtain i0 st0 where i0: "(i0, st0, timer_due tm) \<in> set ?ws" using first by blast
  have "\<exists>t'. load_task (retry_timer_worker w s' utc (workflow_id t) (task_id t) (timer_generation tm) m')
            (workflow_id t) (task_id t) = Inr (Some t') \<and> task_status t' \<in> {''resume_pending'', ''running''} \<and>
          (\<forall>i st. dget (node_states t') i = Some st \<longrightarrow> status (own st) = ''retry_waiting'' \<longrightarrow>
             (\<forall>d. parse_datetime (from_iso w) (next_retry_at (own st)) = Some d \<longrightarrow> utc < d))"
    if "timer_due tm \<le> utc" "owner_enabled s' (workflow_id t)" "\<not> running m' (task_id t)" "execution_delegate m' = None" for s' utc
    using tm(2,5) st1 by (intro fire_due_retry [OF lm rw _ _ that(2-4) i0 that(1)]) (simp_all add: ids)
  with lm rw tm(1,2) each ids show ?thesis by auto
qed

section \<open>Examples\<close>

definition sample_services :: services where
  "sample_services = \<lparr>owner_enabled = (\<lambda>_. True), session_live = (\<lambda>_. True), workflow_doc = (\<lambda>_. Some []),
     control_state = [(''accepting_new_tasks'', PBool True)], remote = (\<lambda>_ _ _. Inr PNone), set_order = id,
     fresh_ids = (\<lambda>k _. k), iso_now = ''now''\<rparr>"

definition manager_with :: "task \<Rightarrow> manager" where
  "manager_with t = \<lparr>task_files = [((''w'', ''t''), Stored t)], runners = [], timers = [], generations = [],
     stopping = False, execution_delegate = None, local_identity = None\<rparr>"

definition failed_node :: "string \<Rightarrow> string option \<Rightarrow> node_state" where
  "failed_node st due = update_own (\<lambda>x. x\<lparr>status := st, attempt_count := 1, next_retry_at := due\<rparr>) (new_node_state ''n'')"

definition task_with :: "string \<Rightarrow> node_state \<Rightarrow> task" where
  "task_with st n = fresh_task\<lparr>task_status := st, node_states := [(''n'', n)]\<rparr>"

definition retry_clock :: surroundings where
  "retry_clock = sample_surroundings\<lparr>from_iso := (\<lambda>_. Some (5, None))\<rparr>"

lemma sample_services_simps [simp]:
  "owner_enabled sample_services x = True" "session_live sample_services y = True" "iso_now sample_services = ''now''"
  by (simp_all add: sample_services_def)

lemma children_closed_Nil [simp]: "children_closed (Node s [])"
  by (simp add: children_closed_def)

lemma sample_path: "task_path ''w'' ''t'' = Inr (''w'', ''t'')"
  by code_simp

lemma sample_load:
  assumes "workflow_id t = ''w''" and "task_id t = ''t''"
  shows "load_task (manager_with t) ''w'' ''t'' = Inr (Some t)"
  using assms by (simp add: load_task_def sample_path file_at_def manager_with_def)

lemma sample_ids [simp]:
  "workflow_id fresh_task = ''w''" "task_id fresh_task = ''t''" "workflow_id (task_with st n) = ''w''"
  "task_id (task_with st n) = ''t''" "task_status (task_with st n) = st" "node_states (task_with st n) = [(''n'', n)]"
  "main_takeover (task_with st n) = False" "snapshot_definition (task_with st n) = None"
  by (simp_all add: task_with_def fresh_task_def)

lemma sample_manager [simp]:
  "execution_delegate (manager_with t) = None" "local_identity (manager_with t) = None" "runners (manager_with t) = []"
  "timers (manager_with t) = []" "generations (manager_with t) = []" "stopping (manager_with t) = False"
  by (simp_all add: manager_with_def)

lemma sample_definition: "\<exists>d. def_from_dict (\<lambda>k _. k) ''now'' [] = Some d"
  by (simp add: def_from_dict_def field_def read_items_def position_at_def)

lemma sample_starts:
  assumes "load_task m ''w'' ''t'' = Inr (Some t)" and "execution_delegate m = None" and "local_identity m = None"
    and "task_status t \<in> {''pending'', ''resume_pending''}" and "\<not> main_takeover t" and "snapshot_definition t = None"
    and "runners m = []"
  shows "\<exists>m'. run_task sample_services ''w'' ''t'' None m = (Inr (Started ''t'' ''w''), m')"
proof -
  obtain d where d: "def_from_dict (\<lambda>k _. k) ''now'' [] = Some d" using sample_definition by blast
  have id: "workflow_id t = ''w''" "task_id t = ''t''" using assms(1) by (simp_all add: load_task_Some)
  have "admit sample_services m ''t'' t = None"
    using assms by (auto simp: admit_def task_ownership_error_def new_task_admission_result_def running_def sample_services_def)
  moreover have "task_definition sample_services t = Inr (Some d)"
    using assms(6) d by (simp add: task_definition_def sample_services_def)
  moreover have "\<exists>m'. begin_run sample_services ''w'' ''t'' None d t m = (Inr (Started ''t'' ''w''), m')"
    by (simp add: begin_run_def Let_def save_task_def id sample_path)
  ultimately show ?thesis using assms
    by (simp add: run_task_def route_local run_here_def)
qed

lemma started_only_when_admitted_witness:
  "\<exists>m'. run_task sample_services ''w'' ''t'' None (manager_with fresh_task) = (Inr (Started ''t'' ''w''), m') \<and> running m' ''t''"
proof -
  have "task_status fresh_task = ''pending''" "\<not> main_takeover fresh_task" "snapshot_definition fresh_task = None"
    by (simp_all add: fresh_task_def)
  then obtain m' where "run_task sample_services ''w'' ''t'' None (manager_with fresh_task) = (Inr (Started ''t'' ''w''), m')"
    using sample_starts [OF sample_load [of fresh_task]] by auto
  with started_only_when_admitted [OF this] show ?thesis by auto
qed

lemma one_timer_acts_witness:
  "retry_timer_worker retry_clock sample_services 9 ''w'' ''t'' 0 (cancel_retry_timer ''t'' (manager_with fresh_task)) =
     cancel_retry_timer ''t'' (manager_with fresh_task)"
proof -
  have "fresh_manager (manager_with fresh_task)" by (simp add: fresh_manager_def)
  from one_timer_acts [OF this, of _ "[]" "cancel_retry_timer ''t'' (manager_with fresh_task)" "''t''" _ "[]" 0] show ?thesis
    by (simp add: dgetd_def)
qed

lemma stopped_stays_stopped_witness:
  "\<exists>m'. stop_task retry_clock sample_services ''w'' ''t'' None (manager_with fresh_task) = (Inr (Discarded ''t''), m') \<and>
     (\<forall>s from. fst (run_task s ''w'' ''t'' from m') \<noteq> Inr (Started ''t'' ''w''))"
proof -
  have p: "task_status fresh_task = ''pending''" by (simp add: fresh_task_def)
  have s: "stop_task retry_clock sample_services ''w'' ''t'' None (manager_with fresh_task) =
      (Inr (Discarded ''t''), (manager_with fresh_task)\<lparr>task_files := []\<rparr>)"
    by (simp add: stop_task_def routed_first_local sample_load task_ownership_error_def stop_without_runner_def p
        remove_task_def sample_path dpop_def) (simp add: manager_with_def)
  have f: "fresh_manager (manager_with fresh_task)" by (simp add: fresh_manager_def)
  from stopped_stays_stopped [OF f, of _ "[]", OF _ _ s] s show ?thesis by auto
qed

lemma node_control_applied_once_witness:
  "\<exists>r m'. control_node sample_services RetryNode ''w'' ''t'' ''n'' (PInt 1) (manager_with (task_with ''failed'' (failed_node ''failed'' None))) =
       (Inr (NodeReply r ''n'' ''retry_node''), m') \<and>
     (\<forall>s c. snd (control_node s c ''w'' ''t'' ''n'' (PInt 1) m') = m')"
proof -
  let ?n = "failed_node ''failed'' None"
  let ?t = "task_with ''failed'' ?n"
  let ?m = "manager_with ?t"
  have v: "validate_node_control ?m ''w'' ''t'' ''n'' (PInt 1) = Inr (Inr (?t, ?n))"
    by (simp add: validate_cases sample_load running_def controllable_def) (simp add: failed_node_def new_node_state_def)
  obtain st' where st': "controlled_state sample_services RetryNode ?n = Inr st'"
    using controlled_state_Inr [of ?n] by (auto simp: controllable_def failed_node_def)
  let ?u = "prepare_task_for_resume (?t\<lparr>node_states := dput ''n'' st' (node_states ?t)\<rparr>)"
  let ?c = "cancel_retry_timer ''t'' ?m"
  have l: "load_task ?c ''w'' ''t'' = Inr (Some ?t)" "workflow_id ?u = ''w''" "task_id ?u = ''t''"
    by (simp_all add: sample_load prepare_task_for_resume_def)
  obtain m2 where m2: "save_task (iso_now sample_services) ?u ?c = (Inr (), m2)"
    "load_task m2 ''w'' ''t'' = Inr (Some (?u\<lparr>updated_at := iso_now sample_services\<rparr>))" "same_tables ?c m2"
    "execution_delegate m2 = execution_delegate ?c" using load_after_save [OF l] by blast
  have "execution_delegate m2 = None" "local_identity m2 = None" "runners m2 = []"
    using m2(3,4) by (simp_all add: same_tables_def same_timers_def cancel_retry_timer_def)
  then obtain m3 where "run_task sample_services ''w'' ''t'' None m2 = (Inr (Started ''t'' ''w''), m3)"
    using sample_starts [OF m2(2)] by (auto simp: prepare_task_for_resume_def)
  then have "control_node sample_services RetryNode ''w'' ''t'' ''n'' (PInt 1) ?m =
      (Inr (NodeReply (Started ''t'' ''w'') ''n'' ''retry_node''), m3)"
    by (simp add: control_node_def routed_first_local sample_load task_ownership_error_def control_here_def v st' m2(1) [simplified]
        control_name_def Let_def)
  with node_control_applied_once [OF _ this] show ?thesis by auto
qed

lemma scheduled_retry_fires_witness:
  "\<exists>m' t'. recover_task retry_clock sample_services (task_with ''retry_waiting'' (failed_node ''retry_waiting'' (Some ''t5'')))
        (manager_with (task_with ''retry_waiting'' (failed_node ''retry_waiting'' (Some ''t5'')))) = (Inr Scheduled, m') \<and>
     load_task (retry_timer_worker retry_clock sample_services 5 ''w'' ''t'' 1 m') ''w'' ''t'' = Inr (Some t') \<and>
     task_status t' \<noteq> ''retry_waiting''"
proof -
  let ?n = "failed_node ''retry_waiting'' (Some ''t5'')"
  let ?t = "task_with ''retry_waiting'' ?n"
  let ?m = "manager_with ?t"
  obtain d where d: "task_definition sample_services ?t = Inr (Some d)"
    using sample_definition by (auto simp: task_definition_def sample_services_def)
  have n: "status (own ?n) = ''retry_waiting''" "closed_tree ?n" "parse_datetime (from_iso retry_clock) (next_retry_at (own ?n)) = Some 5"
    by (simp_all add: failed_node_def new_node_state_def parse_datetime_def retry_clock_def closed_tree_iff)
  have "recovered_states retry_clock d [(''n'', ?n)] = Inr [(''n'', ?n)]"
    using n by (simp add: recovered_states_def recover_interrupted_nodes_def recover_node_def recover_waiting_approval_nodes_def
        recover_approval_def fail_without_deadline_def closed_tree_iff recover_children_id Let_def)
  then have r: "recovered_task retry_clock d ?t = Inr (Schedule, ?t\<lparr>node_states := [(''n'', ?n)], task_status := ''retry_waiting'',
      task_completed_at := None, current_node_id := None\<rparr>)" (is "_ = Inr (Schedule, ?c)")
    using n by (simp add: recovered_task_def recovery_of_def resume_requested_def Let_def)
  obtain m1 where m1: "save_task (iso_now sample_services) ?c ?m = (Inr (), m1)"
    "load_task m1 ''w'' ''t'' = Inr (Some (?c\<lparr>updated_at := iso_now sample_services\<rparr>))" "same_tables ?m m1"
    "execution_delegate m1 = execution_delegate ?m"
    using load_after_save [OF sample_load, of ?t ?c] by auto
  let ?tm = "\<lparr>timer_workflow = ''w'', timer_due = 5, timer_generation = 1\<rparr>"
  define m2 where "m2 = (cancel_retry_timer ''t'' m1)\<lparr>timers := dput ''t'' ?tm (timers (cancel_retry_timer ''t'' m1))\<rparr>"
  have g: "generations m1 = []" "stopping m1 = False" "runners m1 = []" using m1(3) by (simp_all add: same_tables_def same_timers_def)
  have "schedule_retry_for_task retry_clock ?c m1 = (Inr (), m2)"
    using m1(2) n g by (simp add: schedule_retry_for_task_def Let_def m2_def retry_waiting_states_def List.map_filter_simps)
      (simp add: cancel_retry_timer_def dgetd_def)
  then have rec: "recover_task retry_clock sample_services ?t ?m = (Inr Scheduled, m2)"
    using d r m1(1) by (simp add: recover_task_def sample_load recoverable_statuses_def)
  have ns: "\<not> stopping ?m" by simp
  obtain c tm where tm: "dget (timers m2) ''t'' = Some tm"
    "\<forall>s' utc. timer_due tm \<le> utc \<longrightarrow> owner_enabled s' ''w'' \<longrightarrow> \<not> running m2 ''t'' \<longrightarrow> execution_delegate m2 = None \<longrightarrow>
       (\<exists>t'. load_task (retry_timer_worker retry_clock s' utc ''w'' ''t'' (timer_generation tm) m2) ''w'' ''t'' = Inr (Some t') \<and>
          task_status t' \<in> {''resume_pending'', ''running''} \<and>
          (\<forall>i st. dget (node_states t') i = Some st \<longrightarrow> status (own st) = ''retry_waiting'' \<longrightarrow>
             (\<forall>d. parse_datetime (from_iso retry_clock) (next_retry_at (own st)) = Some d \<longrightarrow> utc < d)))"
    using scheduled_retry_fires [OF rec ns] unfolding sample_ids by blast
  have "tm = ?tm" using tm(1) by (simp add: m2_def)
  moreover have "\<not> running m2 ''t''" "execution_delegate m2 = None"
    using g m1(4) by (simp_all add: m2_def running_def cancel_retry_timer_def)
  ultimately obtain t' where "load_task (retry_timer_worker retry_clock sample_services 5 ''w'' ''t'' 1 m2) ''w'' ''t'' = Inr (Some t')"
    "task_status t' \<in> {''resume_pending'', ''running''}" using tm(2) [rule_format, of 5 sample_services] by auto
  with rec show ?thesis by (intro exI [of _ m2] exI [of _ t']) auto
qed

end
