(* ===== verification/NodeExecution.thy ===== *)
theory NodeExecution
  imports TaskRecovery ExecutionPlan
begin

text \<open>
  One attempt of a node, \<open>src/workflow/engine.py\<close>: the inputs it is given, its start, and what its
  result does to the state of the node and to the variables of the task. The plugin that runs
  the node (an agent, a script, an approval, a sub-workflow) is outside: its result is an
  argument. \<open>str\<close> and \<open>json.dumps\<close> of values other than strings, the sum of floats and the
  iteration order of a set are arguments too. A usage entry that is not a dictionary raises here;
  Python's \<open>dict(values)\<close> would also take a list of pairs.
\<close>

record engine_env =
  known_type :: "string \<Rightarrow> bool"
  live_session :: "string \<Rightarrow> bool"
  session_usage :: "string \<Rightarrow> doc option"
  session_calls :: "string \<Rightarrow> doc list option"
  repr_of :: "pyval \<Rightarrow> string"
  dump_key :: "doc \<Rightarrow> string"
  float_plus :: "pyval \<Rightarrow> pyval \<Rightarrow> pyval"
  upstream_order :: "string list \<Rightarrow> string list"
  clock :: string
  workspace_path :: string
  current_time :: string
  times :: surroundings

record node_result =
  nr_summary :: string
  nr_status :: string
  nr_error :: string
  nr_session_id :: string
  nr_outputs :: "(string, string) dict"
  nr_stdout :: string
  nr_stderr :: string
  nr_token_usage :: "doc option"
  nr_token_usage_calls :: "doc list"

definition failed_result :: "string \<Rightarrow> node_result" where
  "failed_result e = \<lparr>nr_summary = [], nr_status = ''failed'', nr_error = e, nr_session_id = [], nr_outputs = [],
     nr_stdout = [], nr_stderr = [], nr_token_usage = None, nr_token_usage_calls = []\<rparr>"

definition py_str :: "engine_env \<Rightarrow> pyval \<Rightarrow> string" where
  "py_str e v = (case v of PStr s \<Rightarrow> s | _ \<Rightarrow> repr_of e v)"

section \<open>Inputs\<close>

text \<open>The nodes a node depends on: a search against the edges that marks what it enqueues.\<close>

fun fresh_sources :: "'a list \<Rightarrow> 'a list \<Rightarrow> 'a list" where
  "fresh_sources [] visited = []"
| "fresh_sources (x # xs) visited =
     (if x \<in> set visited then fresh_sources xs visited else x # fresh_sources xs (visited @ [x]))"

lemma set_fresh_sources: "set (fresh_sources xs visited) = set xs - set visited"
  by (induction xs visited rule: fresh_sources.induct) auto

lemma distinct_fresh_sources: "distinct (fresh_sources xs visited)"
  by (induction xs visited rule: fresh_sources.induct) (auto simp: set_fresh_sources)

definition targets :: "('a, 'a list) dict \<Rightarrow> 'a set" where
  "targets adj = \<Union> (set ` set (map snd adj))"

lemma finite_targets [simp]: "finite (targets adj)"
  by (simp add: targets_def)

lemma succs_targets: "set (succs adj n) \<subseteq> targets adj"
proof (cases "dget adj n")
  case (Some ys)
  then have "ys \<in> set (map snd adj)" by (force dest: dget_Some_in)
  with Some show ?thesis by (auto simp: succs_def dgetd_def targets_def)
qed (simp add: succs_def dgetd_def)

function collect_upstream :: "('a, 'a list) dict \<Rightarrow> 'a list \<Rightarrow> 'a list \<Rightarrow> 'a list" where
  "collect_upstream rev_adj [] visited = visited"
| "collect_upstream rev_adj (n # queue) visited =
     (let new = fresh_sources (succs rev_adj n) visited
      in collect_upstream rev_adj (queue @ new) (visited @ new))"
  by pat_completeness auto
termination
proof (relation "inv_image (less_than <*lex*> less_than) (\<lambda>(adj, q, V). (card (targets adj - set V), length q))", goal_cases)
  case (2 adj n queue visited new)
  show ?case
  proof (cases "new = []")
    case False
    then obtain x where "x \<in> set new" using list.set_intros(1) neq_Nil_conv by metis
    then have "x \<in> targets adj" "x \<notin> set visited"
      using 2 succs_targets [of adj n] by (auto simp: set_fresh_sources)
    with \<open>x \<in> set new\<close> have "card (targets adj - set (visited @ new)) < card (targets adj - set visited)"
      by (intro psubset_card_mono) auto
    then show ?thesis by simp
  qed simp
qed (simp add: wf_inv_image wf_lex_prod)

definition upstream_ids :: "workflow_def \<Rightarrow> string \<Rightarrow> string list" where
  "upstream_ids d nid = tl (collect_upstream (rev_adjacency (d_edges d)) [nid] [nid])"

definition add_outputs :: "(string, string) dict \<Rightarrow> (string, string) dict \<Rightarrow> (string, string) dict" where
  "add_outputs outs values = fold (\<lambda>(k, v) d. if k \<noteq> [] \<and> v \<noteq> [] then dput k v d else d) outs values"

definition enrich_parameter_values ::
    "engine_env \<Rightarrow> workflow_def \<Rightarrow> string \<Rightarrow> (string, node_state) dict \<Rightarrow> (string, string) dict \<Rightarrow> (string, string) dict" where
  "enrich_parameter_values e d nid sts base =
     fold (\<lambda>u values.
         case dget sts u of
           None \<Rightarrow> values
         | Some st \<Rightarrow> if status (own st) = ''completed'' then add_outputs (outputs (own st)) values else values)
       (upstream_order e (upstream_ids d nid)) base"

definition system_variables :: "engine_env \<Rightarrow> workflow_def \<Rightarrow> task \<Rightarrow> (string \<times> string) list" where
  "system_variables e d t =
     [(''_system.workspace_path'', workspace_path e), (''_system.workflow_id'', d_workflow_id d),
      (''_system.task_id'', task_id t), (''_system.task_name'', task_name t),
      (''_system.current_time'', current_time e), (''_system.operator'', ''system'')]"

definition inject_system_variables ::
    "engine_env \<Rightarrow> workflow_def \<Rightarrow> task \<Rightarrow> (string, string) dict \<Rightarrow> (string, string) dict" where
  "inject_system_variables e d t vals = fold (\<lambda>(k, v). dput k v) (system_variables e d t) vals"

fun join_text :: "string \<Rightarrow> string list \<Rightarrow> string" where
  "join_text sep [] = []"
| "join_text sep [x] = x"
| "join_text sep (x # y # xs) = x @ sep @ join_text sep (y # xs)"

definition newline :: char where
  "newline = CHR 0x0A"

definition get_upstream_summary :: "workflow_def \<Rightarrow> string \<Rightarrow> (string, node_state) dict \<Rightarrow> string" where
  "get_upstream_summary d nid sts =
     join_text [newline, newline]
       (List.map_filter (\<lambda>u.
          case dget sts u of
            None \<Rightarrow> None
          | Some st \<Rightarrow> if summary (own st) = [] then None
              else Some (''Output of node ['' @ u @ '']:'' @ [newline] @ summary (own st)))
        (map e_source (filter (\<lambda>e. e_target e = nid) (d_edges d))))"

text \<open>A repeated attempt gets the inputs of the first one, frozen in the state.\<close>

definition replayed :: "node_state \<Rightarrow> bool" where
  "replayed st = (0 < attempt_count (own st) \<and> next_attempt_trigger (own st) \<noteq> ''initial'')"

definition node_inputs :: "engine_env \<Rightarrow> workflow_def \<Rightarrow> task \<Rightarrow> string \<Rightarrow> node_state \<Rightarrow> doc \<times> string" where
  "node_inputs e d t nid st =
     (if replayed st then (input_snapshot (own st), upstream_summary_snapshot (own st))
      else (map (\<lambda>(k, v). (k, PStr v))
              (inject_system_variables e d t (enrich_parameter_values e d nid (node_states t) (parameter_values t))),
            get_upstream_summary d nid (node_states t)))"

definition begin_node :: "engine_env \<Rightarrow> workflow_def \<Rightarrow> task \<Rightarrow> string \<Rightarrow> node_state \<Rightarrow> node_state" where
  "begin_node e d t nid st =
     (let (inputs, up) = node_inputs e d t nid st
      in begin_node_attempt (clock e) (Some inputs) (Some up) st)"

section \<open>Token ledgers\<close>

definition is_number :: "pyval \<Rightarrow> bool" where
  "is_number v = (case v of PBool _ \<Rightarrow> True | PInt _ \<Rightarrow> True | PFloat _ \<Rightarrow> True | _ \<Rightarrow> False)"

definition py_plus :: "engine_env \<Rightarrow> pyval \<Rightarrow> pyval \<Rightarrow> exc + pyval" where
  "py_plus e a b =
     (if \<not> is_number a \<or> \<not> is_number b then Inl (Exc ''TypeError'' [])
      else (case (a, b) of
              (PFloat _, _) \<Rightarrow> Inr (float_plus e a b)
            | (_, PFloat _) \<Rightarrow> Inr (float_plus e a b)
            | _ \<Rightarrow> (case (int_of a, int_of b) of
                     (Some x, Some y) \<Rightarrow> Inr (PInt (x + y)) | _ \<Rightarrow> Inl (Exc ''TypeError'' []))))"

fun merge_values :: "engine_env \<Rightarrow> doc \<Rightarrow> doc \<Rightarrow> exc + doc" where
  "merge_values e [] target = Inr target"
| "merge_values e ((k, v) # vs) target =
     (if is_number v
      then bind_err (py_plus e (dgetd target k (PInt 0)) v) (\<lambda>s. merge_values e vs (dput k s target))
      else merge_values e vs (dput k v target))"

fun merge_models :: "engine_env \<Rightarrow> doc \<Rightarrow> doc \<Rightarrow> exc + doc" where
  "merge_models e [] merged = Inr merged"
| "merge_models e ((m, v) # ms) merged =
     (case (dgetd merged m (PDict []), v) of
        (PDict target, PDict values) \<Rightarrow>
          bind_err (merge_values e values target) (\<lambda>t. merge_models e ms (dput m (PDict t) merged))
      | _ \<Rightarrow> Inl (Exc ''AttributeError'' []))"

definition merge_token_usage :: "engine_env \<Rightarrow> doc option \<Rightarrow> doc option \<Rightarrow> exc + doc option" where
  "merge_token_usage e previous current =
     (case (previous, current) of
        (None, _) \<Rightarrow> Inr current
      | (Some [], _) \<Rightarrow> Inr current
      | (_, None) \<Rightarrow> Inr previous
      | (_, Some []) \<Rightarrow> Inr previous
      | (Some p, Some c) \<Rightarrow>
          (if list_all (\<lambda>(_, v). is_dict v) p then bind_err (merge_models e c p) (\<lambda>m. Inr (Some m))
           else Inl (Exc ''TypeError'' [])))"

definition call_key :: "engine_env \<Rightarrow> doc \<Rightarrow> string" where
  "call_key e item =
     (let c = py_str e (dgetd item ''call_id'' (PStr [])) in if c = [] then dump_key e item else c)"

fun first_calls :: "engine_env \<Rightarrow> string list \<Rightarrow> doc list \<Rightarrow> doc list" where
  "first_calls e seen [] = []"
| "first_calls e seen (x # xs) =
     (if call_key e x \<in> set seen then first_calls e seen xs
      else x # first_calls e (call_key e x # seen) xs)"

definition merge_token_usage_calls :: "engine_env \<Rightarrow> doc list \<Rightarrow> doc list \<Rightarrow> doc list" where
  "merge_token_usage_calls e previous current = first_calls e [] (previous @ current)"

section \<open>The end of an attempt\<close>

definition nonempty :: "doc option \<Rightarrow> bool" where
  "nonempty u = (case u of None \<Rightarrow> False | Some d \<Rightarrow> d \<noteq> [])"

text \<open>The usage of the session, when there is one, replaces what the result says.\<close>

definition result_usage :: "engine_env \<Rightarrow> node_result \<Rightarrow> doc option" where
  "result_usage e r =
     (if nr_session_id r \<noteq> [] \<and> nonempty (session_usage e (nr_session_id r)) then session_usage e (nr_session_id r)
      else nr_token_usage r)"

definition result_calls :: "engine_env \<Rightarrow> node_result \<Rightarrow> doc list" where
  "result_calls e r =
     (if nr_session_id r = [] then nr_token_usage_calls r
      else (case session_calls e (nr_session_id r) of None \<Rightarrow> nr_token_usage_calls r | Some cs \<Rightarrow> cs))"

text \<open>
  \<open>before\<close> is the state at the start of the attempt, \<open>st\<close> the same state as the plugin left it.
  The outputs of a completed node become variables; there are no variables (\<open>None\<close>) when the
  caller passed none.
\<close>

definition end_ledgers :: "engine_env \<Rightarrow> node_state \<Rightarrow> node_result \<Rightarrow> node_state \<Rightarrow> exc + node_state" where
  "end_ledgers e before r st =
     (if nonempty (token_usage (own before)) \<and> session_id (own before) \<noteq> nr_session_id r
      then bind_err (merge_token_usage e (token_usage (own before)) (result_usage e r)) (\<lambda>u.
        Inr (update_own (\<lambda>s. s\<lparr>token_usage := u,
          token_usage_calls := merge_token_usage_calls e (token_usage_calls (own before)) (result_calls e r)\<rparr>) st))
      else Inr (update_own (\<lambda>s. s\<lparr>
          token_usage := if nonempty (result_usage e r) then result_usage e r else token_usage s,
          token_usage_calls := if result_calls e r \<noteq> [] then result_calls e r else token_usage_calls s\<rparr>) st))"

definition end_fields :: "engine_env \<Rightarrow> node_result \<Rightarrow> node_state \<Rightarrow> node_state" where
  "end_fields e r st =
     update_own (\<lambda>s. s\<lparr>completed_at := Some (clock e),
       summary := nr_summary r,
       status := normalize_node_status (nr_status r),
       error := nr_error r,
       outputs := nr_outputs r,
       stdout := nr_stdout r,
       stderr := nr_stderr r\<rparr>) st"

definition end_mutations :: "engine_env \<Rightarrow> node_state \<Rightarrow> node_state \<Rightarrow> node_result \<Rightarrow> exc + node_state" where
  "end_mutations e before st r =
     bind_err (end_ledgers e before r (end_fields e r st)) (\<lambda>st1.
       Inr (update_own (\<lambda>s. s\<lparr>session_id := if nr_session_id r \<noteq> [] then nr_session_id r else session_id s\<rparr>) st1))"

definition finish_node :: "engine_env \<Rightarrow> node_state \<Rightarrow> node_state \<Rightarrow> node_result \<Rightarrow> exc + node_state" where
  "finish_node e before st r =
     bind_err (end_mutations e before st r) (\<lambda>st'.
       Inr (record_attempt (Some (status (own st'))) (completed_at (own st')) st'))"

definition publish_outputs ::
    "node_state \<Rightarrow> node_result \<Rightarrow> (string, string) dict option \<Rightarrow> exc + (string, string) dict option" where
  "publish_outputs st r pv =
     (if status (own st) = ''completed'' \<and> nr_outputs r \<noteq> []
      then (case pv of
              None \<Rightarrow> Inl (Exc ''TypeError'' [])
            | Some d \<Rightarrow> Inr (Some (fold (\<lambda>(k, v). dput k v) (nr_outputs r) d)))
      else Inr pv)"

definition node_type_of :: "workflow_node \<Rightarrow> string" where
  "node_type_of n = (if n_type n = [] then ''agent'' else n_type n)"

text \<open>A node of a type no plugin knows fails without an attempt.\<close>

definition unknown_type_state :: "engine_env \<Rightarrow> workflow_node \<Rightarrow> node_state \<Rightarrow> node_state" where
  "unknown_type_state e n st =
     update_own (\<lambda>s. s\<lparr>status := ''failed'', error := ''Unknown node type: '' @ node_type_of n, completed_at := Some (clock e)\<rparr>) st"

definition get_max_reject_count :: "workflow_node \<Rightarrow> exc + int" where
  "get_max_reject_count n =
     (case dgetd (n_node_params n) ''max_reject_count'' (PInt (n_max_reject_count n)) of
        PFloat PosInf \<Rightarrow> Inl (Exc ''OverflowError'' [])
      | PFloat NegInf \<Rightarrow> Inl (Exc ''OverflowError'' [])
      | v \<Rightarrow> (case int_of v of None \<Rightarrow> Inr 3 | Some i \<Rightarrow> Inr (max 0 i)))"

text \<open>Where a run from a node begins in the plan.\<close>

definition starts_at :: "string \<Rightarrow> plan_step \<Rightarrow> bool" where
  "starts_at nid st =
     (case st of NodeStep n \<Rightarrow> n = nid | BranchStep ns _ \<Rightarrow> nid \<in> set ns | _ \<Rightarrow> False)"

definition skip_to_node :: "plan_step list \<Rightarrow> string \<Rightarrow> nat" where
  "skip_to_node plan nid =
     (if \<exists>st\<in>set plan. starts_at nid st then length (takeWhile (\<lambda>st. \<not> starts_at nid st) plan) else 0)"

section \<open>Inputs are frozen\<close>

lemma begin_node_replayed:
  assumes "replayed st"
  shows "input_snapshot (own (begin_node e d t nid st)) = input_snapshot (own st)"
    and "upstream_summary_snapshot (own (begin_node e d t nid st)) = upstream_summary_snapshot (own st)"
  using assms by (auto simp: begin_node_def node_inputs_def begin_node_attempt_def replayed_def initial_attempt_trigger_def Let_def)

text \<open>
  C15. A retry runs on the inputs of the first attempt: once a retry of a node was prepared, and
  whatever is done to the node after that, the next attempt gets the inputs and the summary of
  the failed one, whatever the variables, the other nodes and the clock have become.
\<close>

theorem retry_replays_inputs:
  assumes "prepare_node_retry trigger due keep_children s = Inr s'" and "0 < attempt_count (own s)"
    and "s'' = fold (\<lambda>a x. node_step p x a) as s'"
  shows "node_inputs e d t nid s'' = (input_snapshot (own s), upstream_summary_snapshot (own s)) \<and>
    input_snapshot (own (begin_node e d t nid s'')) = input_snapshot (own s)"
proof -
  have "frozen s s'"
    using prepare_Inr [OF assms(1)] assms(2) retry_not_initial by (simp add: frozen_def)
  then have f: "frozen s s''" using frozen.run_from_init [of s s' p as] assms(3) by simp
  then have "replayed s''" by (simp add: replayed_def frozen_def initial_attempt_trigger_def)
  with f begin_node_replayed [OF this, of e d t nid] show ?thesis by (simp add: node_inputs_def frozen_def)
qed

section \<open>Where variables come from\<close>

definition arcs :: "('a, 'a list) dict \<Rightarrow> ('a \<times> 'a) set" where
  "arcs adj = {(a, b). b \<in> set (succs adj a)}"

lemma collect_closed:
  assumes "set q \<subseteq> set V" and "\<forall>a\<in>set V - set q. \<forall>b. (a, b) \<in> arcs adj \<longrightarrow> b \<in> set V"
  shows "set V \<subseteq> set (collect_upstream adj q V) \<and>
    (\<forall>a\<in>set (collect_upstream adj q V). \<forall>b. (a, b) \<in> arcs adj \<longrightarrow> b \<in> set (collect_upstream adj q V))"
  using assms
proof (induction adj q V rule: collect_upstream.induct)
  case (2 adj n queue V)
  let ?new = "fresh_sources (succs adj n) V"
  have "set (queue @ ?new) \<subseteq> set (V @ ?new)" using 2(2) by auto
  moreover have "\<forall>a\<in>set (V @ ?new) - set (queue @ ?new). \<forall>b. (a, b) \<in> arcs adj \<longrightarrow> b \<in> set (V @ ?new)"
  proof (intro ballI allI impI)
    fix a b assume a: "a \<in> set (V @ ?new) - set (queue @ ?new)" and ab: "(a, b) \<in> arcs adj"
    show "b \<in> set (V @ ?new)"
    proof (cases "a = n")
      case True
      with ab show ?thesis by (simp add: arcs_def set_fresh_sources)
    next
      case False
      with a have a': "a \<in> set V - set (n # queue)" by auto
      have "b \<in> set V" using bspec [OF 2(3) a'] ab by simp
      then show ?thesis by simp
    qed
  qed
  ultimately have "set (V @ ?new) \<subseteq> set (collect_upstream adj (queue @ ?new) (V @ ?new)) \<and>
      (\<forall>a\<in>set (collect_upstream adj (queue @ ?new) (V @ ?new)). \<forall>b. (a, b) \<in> arcs adj \<longrightarrow>
         b \<in> set (collect_upstream adj (queue @ ?new) (V @ ?new)))" by (rule 2(1) [OF refl])
  then show ?case by (simp add: Let_def)
qed simp

lemma collect_reachable:
  assumes "set V \<subseteq> S" and "\<And>a b. a \<in> S \<Longrightarrow> (a, b) \<in> arcs adj \<Longrightarrow> b \<in> S" and "set q \<subseteq> S"
  shows "set (collect_upstream adj q V) \<subseteq> S"
  using assms
proof (induction adj q V rule: collect_upstream.induct)
  case (2 adj n queue V)
  have n: "n \<in> S" using 2(4) by simp
  have "b \<in> S" if "b \<in> set (fresh_sources (succs adj n) V)" for b
    using that by (intro 2(3) [OF n]) (simp add: set_fresh_sources arcs_def)
  then have f: "set (fresh_sources (succs adj n) V) \<subseteq> S" by (rule subsetI)
  have v: "set (V @ fresh_sources (succs adj n) V) \<subseteq> S" using 2(2) f by simp
  have q: "set (queue @ fresh_sources (succs adj n) V) \<subseteq> S" using 2(4) f by simp
  have "set (collect_upstream adj (queue @ fresh_sources (succs adj n) V) (V @ fresh_sources (succs adj n) V)) \<subseteq> S"
    by (rule 2(1) [OF refl v 2(3) q])
  then show ?case by (simp only: collect_upstream.simps Let_def)
qed simp

lemma collect_distinct: "distinct V \<Longrightarrow> distinct (collect_upstream adj q V)"
  by (induction adj q V rule: collect_upstream.induct)
    (auto simp: Let_def distinct_fresh_sources set_fresh_sources)

lemma collect_prefix: "\<exists>w. collect_upstream adj q V = V @ w"
  by (induction adj q V rule: collect_upstream.induct) (auto simp: Let_def)

lemma set_collect: "set (collect_upstream adj [n] [n]) = {b. (n, b) \<in> (arcs adj)\<^sup>*}"
proof
  have "n \<in> {b. (n, b) \<in> (arcs adj)\<^sup>*}" by simp
  then show "set (collect_upstream adj [n] [n]) \<subseteq> {b. (n, b) \<in> (arcs adj)\<^sup>*}"
    by (intro collect_reachable) (auto intro: rtrancl_into_rtrancl)
  have "b \<in> set (collect_upstream adj [n] [n])" if "(n, b) \<in> (arcs adj)\<^sup>*" for b
    using that collect_closed [of "[n]" "[n]" adj] by (induction rule: rtrancl_induct) auto
  then show "{b. (n, b) \<in> (arcs adj)\<^sup>*} \<subseteq> set (collect_upstream adj [n] [n])" by auto
qed

lemma upstream_ids_set: "set (upstream_ids d nid) = {u. (nid, u) \<in> (arcs (rev_adjacency (d_edges d)))\<^sup>*} - {nid}"
proof -
  obtain w where w: "collect_upstream (rev_adjacency (d_edges d)) [nid] [nid] = nid # w"
    using collect_prefix [of "rev_adjacency (d_edges d)" "[nid]" "[nid]"] by auto
  have "distinct (nid # w)" using collect_distinct [of "[nid]" "rev_adjacency (d_edges d)" "[nid]"] w by simp
  then show ?thesis using set_collect [of "rev_adjacency (d_edges d)" nid] w by (auto simp: upstream_ids_def)
qed

lemma arcs_rev: "(b, a) \<in> arcs (rev_adjacency es) \<longleftrightarrow> (\<exists>e\<in>set es. e_source e = a \<and> e_target e = b)"
proof -
  have "a \<in> set (succs (fold (\<lambda>e. add_edge (e_target e) (e_source e)) es adj) b) \<longleftrightarrow>
      a \<in> set (succs adj b) \<or> (\<exists>e\<in>set es. e_source e = a \<and> e_target e = b)" for adj
    by (induction es arbitrary: adj) (auto simp: succs_add_edge)
  then show ?thesis by (simp add: arcs_def rev_adjacency_def)
qed

text \<open>Paths along the edges of a definition.\<close>

definition leads_to :: "workflow_def \<Rightarrow> string \<Rightarrow> string \<Rightarrow> bool" where
  "leads_to d a b = ((a, b) \<in> {(e_source e, e_target e) |e. e \<in> set (d_edges d)}\<^sup>*)"

lemma upstream_leads: "u \<in> set (upstream_ids d nid) \<longleftrightarrow> leads_to d u nid \<and> u \<noteq> nid"
proof -
  have "arcs (rev_adjacency (d_edges d)) = {(e_source e, e_target e) |e. e \<in> set (d_edges d)}\<inverse>"
    by (auto simp: arcs_rev)
  then show ?thesis by (auto simp: upstream_ids_set leads_to_def rtrancl_converse)
qed

text \<open>The completed nodes before \<open>nid\<close> that put a value under \<open>k\<close>.\<close>

definition offers :: "workflow_def \<Rightarrow> (string, node_state) dict \<Rightarrow> string \<Rightarrow> string \<Rightarrow> string \<Rightarrow> string \<Rightarrow> bool" where
  "offers d sts nid k u v =
     (leads_to d u nid \<and> u \<noteq> nid \<and>
      (\<exists>st. dget sts u = Some st \<and> status (own st) = ''completed'' \<and> (k, v) \<in> set (outputs (own st)) \<and> k \<noteq> [] \<and> v \<noteq> []))"

lemma add_outputs_get:
  "dget (add_outputs outs vals) k \<in> {dget vals k} \<union> {Some v |v. (k, v) \<in> set outs \<and> k \<noteq> [] \<and> v \<noteq> []} \<and>
    ((\<exists>v. (k, v) \<in> set outs \<and> k \<noteq> [] \<and> v \<noteq> []) \<longrightarrow>
       dget (add_outputs outs vals) k \<in> {Some v |v. (k, v) \<in> set outs \<and> k \<noteq> [] \<and> v \<noteq> []})"
proof (induction outs arbitrary: vals)
  case (Cons p outs)
  obtain a b where "p = (a, b)" by force
  then show ?case using Cons.IH [of "if a \<noteq> [] \<and> b \<noteq> [] then dput a b vals else vals"]
    by (cases "a = k"; cases "a \<noteq> [] \<and> b \<noteq> []") (auto simp: add_outputs_def)
qed (simp add: add_outputs_def)

definition gives :: "(string, node_state) dict \<Rightarrow> string \<Rightarrow> string \<Rightarrow> string set" where
  "gives sts k u = {v. \<exists>st. dget sts u = Some st \<and> status (own st) = ''completed'' \<and> (k, v) \<in> set (outputs (own st)) \<and> k \<noteq> [] \<and> v \<noteq> []}"

lemma enrich_fold:
  "dget (fold (\<lambda>u values. case dget sts u of
           None \<Rightarrow> values
         | Some st \<Rightarrow> if status (own st) = ''completed'' then add_outputs (outputs (own st)) values else values) us base) k
     \<in> (if \<exists>u\<in>set us. gives sts k u \<noteq> {} then Some ` (\<Union>u\<in>set us. gives sts k u) else {dget base k})"
proof (induction us arbitrary: base)
  case (Cons u us)
  let ?f = "\<lambda>u values. case dget sts u of
           None \<Rightarrow> values
         | Some st \<Rightarrow> if status (own st) = ''completed'' then add_outputs (outputs (own st)) values else values"
  have one: "dget (?f u base) k \<in> (if gives sts k u \<noteq> {} then Some ` gives sts k u else {dget base k})"
  proof (cases "\<exists>st. dget sts u = Some st \<and> status (own st) = ''completed''")
    case True
    then obtain st where st: "dget sts u = Some st" "status (own st) = ''completed''" by blast
    then have "gives sts k u = {v. (k, v) \<in> set (outputs (own st)) \<and> k \<noteq> [] \<and> v \<noteq> []}" by (auto simp: gives_def)
    then show ?thesis using add_outputs_get [of "outputs (own st)" base k] st by auto
  next
    case False
    then have "gives sts k u = {}" "?f u base = base" by (auto simp: gives_def split: option.splits)
    then show ?thesis by simp
  qed
  show ?case using Cons.IH [of "?f u base"] one by (auto split: if_split_asm)
qed simp

text \<open>
  C16. A node sees the outputs of the nodes before it: a variable that one value is offered for
  by the completed nodes on the paths to the node has that value, one that none of them offers
  keeps the value of the task, in whatever order the set of those nodes is iterated.
\<close>

theorem variables_come_from_upstream:
  assumes "set (upstream_order e (upstream_ids d nid)) = set (upstream_ids d nid)"
    and "\<And>u v u' v'. offers d sts nid k u v \<Longrightarrow> offers d sts nid k u' v' \<Longrightarrow> v = v'"
  shows "dget (enrich_parameter_values e d nid sts base) k =
    (if \<exists>u v. offers d sts nid k u v then Some (THE v. \<exists>u. offers d sts nid k u v) else dget base k)"
proof -
  let ?us = "upstream_order e (upstream_ids d nid)"
  have o: "(\<exists>u\<in>set ?us. v \<in> gives sts k u) \<longleftrightarrow> (\<exists>u. offers d sts nid k u v)" for v
    unfolding assms(1) by (auto simp: upstream_leads offers_def gives_def)
  have r: "dget (enrich_parameter_values e d nid sts base) k
      \<in> (if \<exists>u\<in>set ?us. gives sts k u \<noteq> {} then Some ` (\<Union>u\<in>set ?us. gives sts k u) else {dget base k})"
    unfolding enrich_parameter_values_def by (rule enrich_fold)
  show ?thesis
  proof (cases "\<exists>u v. offers d sts nid k u v")
    case True
    then obtain v where v: "\<exists>u. offers d sts nid k u v" by blast
    then obtain u where u: "offers d sts nid k u v" by blast
    have only: "v' = v" if "\<exists>u. offers d sts nid k u v'" for v' using that assms(2) [OF _ u] by auto
    have "(THE v. \<exists>u. offers d sts nid k u v) = v" using v only by (rule the_equality)
    moreover obtain w where w: "w \<in> set ?us" "v \<in> gives sts k w" using o v by auto
    moreover from w have e: "\<exists>u\<in>set ?us. gives sts k u \<noteq> {}" by auto
    have r': "dget (enrich_parameter_values e d nid sts base) k \<in> Some ` (\<Union>u\<in>set ?us. gives sts k u)"
      using r unfolding if_P [OF e] .
    have "x = v" if "x \<in> (\<Union>u\<in>set ?us. gives sts k u)" for x
      using that o [of x] only [of x] by auto
    with r' have "dget (enrich_parameter_values e d nid sts base) k = Some v" by (elim imageE) simp
    ultimately show ?thesis using True by simp
  next
    case False
    then have "\<not> (\<exists>u\<in>set ?us. gives sts k u \<noteq> {})" using o by blast
    with r False show ?thesis by simp
  qed
qed

section \<open>Ledgers\<close>

lemma first_calls_keys: "call_key e ` set (first_calls e seen xs) = call_key e ` set xs - set seen"
  by (induction e seen xs rule: first_calls.induct) auto

lemma first_calls_distinct: "distinct (map (call_key e) (first_calls e seen xs))"
  by (induction e seen xs rule: first_calls.induct) (auto simp: first_calls_keys)

lemma first_calls_id:
  "distinct (map (call_key e) xs) \<Longrightarrow> call_key e ` set xs \<inter> set seen = {} \<Longrightarrow> first_calls e seen xs = xs"
  by (induction e seen xs rule: first_calls.induct) auto

lemma first_calls_append:
  "first_calls e seen (xs @ ys) = first_calls e seen xs @ first_calls e (rev (map (call_key e) (first_calls e seen xs)) @ seen) ys"
  by (induction e seen xs rule: first_calls.induct) auto

lemma first_calls_seen: "call_key e ` set xs \<subseteq> set seen \<Longrightarrow> first_calls e seen xs = []"
  by (induction e seen xs rule: first_calls.induct) auto

lemma first_calls_cong: "set seen = set seen' \<Longrightarrow> first_calls e seen xs = first_calls e seen' xs"
proof (induction e seen xs arbitrary: seen' rule: first_calls.induct)
  case (2 e seen x xs)
  then show ?case using 2(2) [of "call_key e x # seen'"] by simp
qed simp

text \<open>
  The ledger of a node counts each model call once: merging the calls of a further session
  keeps the old ones in their order, adds exactly the new ones, never repeats a call, and
  merging the same calls again changes nothing.
\<close>

lemma calls_counted_once:
  "distinct (map (call_key e) (merge_token_usage_calls e p c)) \<and>
   call_key e ` set (merge_token_usage_calls e p c) = call_key e ` set p \<union> call_key e ` set c \<and>
   (\<exists>new. merge_token_usage_calls e p c = merge_token_usage_calls e p [] @ new) \<and>
   merge_token_usage_calls e (merge_token_usage_calls e p c) c = merge_token_usage_calls e p c"
proof -
  let ?m = "merge_token_usage_calls e p c"
  have d: "distinct (map (call_key e) ?m)" by (simp add: merge_token_usage_calls_def first_calls_distinct)
  have k: "call_key e ` set ?m = call_key e ` set p \<union> call_key e ` set c"
    by (simp add: merge_token_usage_calls_def first_calls_keys image_Un)
  have "first_calls e [] ?m = ?m" using d by (simp add: first_calls_id)
  then have "merge_token_usage_calls e ?m c = ?m @ first_calls e (rev (map (call_key e) ?m)) c"
    by (simp add: merge_token_usage_calls_def [of e ?m] first_calls_append)
  moreover have "first_calls e (rev (map (call_key e) ?m)) c = []" using k by (intro first_calls_seen) auto
  ultimately show ?thesis using d k by (auto simp: merge_token_usage_calls_def first_calls_append)
qed

text \<open>
  The order of that set is not the order of the graph: of two nodes before \<open>nid\<close> that offer
  different values the one iterated last wins.
\<close>

lemma last_iterated_wins:
  assumes "dget sts u = Some st" and "status (own st) = ''completed''" and "outputs (own st) = [(k, v)]" and "k \<noteq> []" and "v \<noteq> []"
    and "upstream_order e (upstream_ids d nid) = us @ [u]"
  shows "dget (enrich_parameter_values e d nid sts base) k = Some v"
  using assms by (simp add: enrich_parameter_values_def add_outputs_def)

section \<open>Examples\<close>

definition sample_env :: engine_env where
  "sample_env = \<lparr>known_type = (\<lambda>_. True), live_session = (\<lambda>_. False), session_usage = (\<lambda>_. None), session_calls = (\<lambda>_. None),
     repr_of = (\<lambda>_. []), dump_key = (\<lambda>_. []), float_plus = (\<lambda>a b. a), upstream_order = (\<lambda>us. us), clock = ''now'',
     workspace_path = ''/w'', current_time = ''now'',
     times = \<lparr>from_iso = (\<lambda>_. None), stamp = (\<lambda>_. ''t''), float_seconds = (\<lambda>_. Inr 0), now_nodes = [], now_approvals = [],
       utc_now = (\<lambda>_. 0), now_invalid = (\<lambda>_. []), now_failed = []\<rparr>\<rparr>"

definition sample_flow :: workflow_def where
  "sample_flow = \<lparr>d_workflow_id = ''w'', d_name = [], d_version = 1, d_created_at = [], d_updated_at = [], d_nodes = [],
     d_edges = [\<lparr>e_id = ''e'', e_source = ''a'', e_target = ''b'', e_condition = None\<rparr>], d_variables = [], d_gateways = [],
     d_execution_schemes = [], d_http_execution_policy = [], d_start_position = [], d_end_position = []\<rparr>"

lemma retry_replays_inputs_witness:
  "\<forall>t. node_inputs sample_env sample_flow t ''a''
     (keep (new_node_state ''a'') (prepare_node_retry ''manual_retry'' None True
       (update_own (\<lambda>s. s\<lparr>status := ''failed'', attempt_count := 1, input_snapshot := [(''x'', PStr ''1'')]\<rparr>) (new_node_state ''a'')))) =
   ([(''x'', PStr ''1'')], [])"
proof
  fix t
  let ?s = "update_own (\<lambda>s. s\<lparr>status := ''failed'', attempt_count := 1, input_snapshot := [(''x'', PStr ''1'')]\<rparr>) (new_node_state ''a'')"
  obtain s' where s': "prepare_node_retry ''manual_retry'' None True ?s = Inr s'"
    by (simp add: prepare_node_retry_def trigger_defs retry_replayed_def normalize_node_status_def new_node_state_def)
  show "node_inputs sample_env sample_flow t ''a'' (keep (new_node_state ''a'') (prepare_node_retry ''manual_retry'' None True ?s)) =
     ([(''x'', PStr ''1'')], [])"
    using retry_replays_inputs [OF s', of s' p "[]" sample_env sample_flow t "''a''" for p] s'
    by (simp add: new_node_state_def)
qed

lemma variables_come_from_upstream_witness:
  "dget (enrich_parameter_values sample_env sample_flow ''b''
      [(''a'', update_own (\<lambda>s. s\<lparr>status := ''completed'', outputs := [(''x'', ''1'')]\<rparr>) (new_node_state ''a''))] [(''x'', ''0'')]) ''x'' = Some ''1''"
proof -
  let ?sts = "[(''a'', update_own (\<lambda>s. s\<lparr>status := ''completed'', outputs := [(''x'', ''1'')]\<rparr>) (new_node_state ''a''))]"
  have l: "leads_to sample_flow ''a'' ''b''" by (auto simp: leads_to_def sample_flow_def)
  have o: "offers sample_flow ?sts ''b'' ''x'' u v \<longleftrightarrow> u = ''a'' \<and> v = ''1''" for u v
    using l by (auto simp: offers_def new_node_state_def)
  have one: "v = v'" if "offers sample_flow ?sts ''b'' ''x'' u v" "offers sample_flow ?sts ''b'' ''x'' u' v'" for u v u' v'
    using that by (simp add: o)
  have "dget (enrich_parameter_values sample_env sample_flow ''b'' ?sts [(''x'', ''0'')]) ''x'' =
     (if \<exists>u v. offers sample_flow ?sts ''b'' ''x'' u v then Some (THE v. \<exists>u. offers sample_flow ?sts ''b'' ''x'' u v)
      else dget [(''x'', ''0'')] ''x'')"
    by (rule variables_come_from_upstream [OF _ one]) (simp_all add: sample_env_def)
  then show ?thesis by (simp add: o)
qed

end
