(* ===== verification/NodeSequence.thy ===== *)
theory NodeSequence
  imports NodeExecution
begin

text \<open>
  The loop that runs a list of nodes one after the other, \<open>_execute_node_sequence\<close> of
  \<open>src/workflow/execution_flow.py\<close>, with the failure policy, the rejection of a result by the
  node after it and the rejection by an approver. The loop stops where the code awaits a
  plugin, so it is a machine: \<open>Tick\<close> is one turn of the loop up to the start of a plugin or the
  end, the other events are what the plugin and the parallel branches do meanwhile.

  The state object of the running attempt is the loop's own (\<open>a_state\<close>), normally also the one in
  \<open>task.node_states\<close> (\<open>a_attached\<close>). Saves of the task succeed and are one step; the clock is read
  once a step. A branch runs its own nodes: the steps of other branches (\<open>Outside\<close>) leave the
  nodes of the sequence and the node it redoes alone. The run record, log lines and pushed
  events are not modelled; messages in Chinese are given in English.
\<close>

section \<open>State\<close>

datatype outcome = Completed | Failed | RetryWaiting

record attempt =
  a_pre :: node_state
  a_begun :: node_state
  a_state :: node_state
  a_attached :: bool
  a_calls :: "string list"
  a_rejected :: "string option"

datatype phase =
    Ready
  | Executing attempt
  | Retrying string attempt node_state
  | Ended outcome
  | Raised exc

text \<open>What can be seen from outside: plugins started, nodes sent back (by whom), sessions told of a rejection.\<close>

datatype action = Started string | SentBack string string | Notified string

record flow =
  f_task :: task
  f_disk :: task
  f_ids :: "string list"
  f_pos :: nat
  f_phase :: phase
  f_log :: "action list"

definition put_state :: "string \<Rightarrow> node_state \<Rightarrow> flow \<Rightarrow> flow" where
  "put_state nid st f = f\<lparr>f_task := (f_task f)\<lparr>node_states := dput nid st (node_states (f_task f))\<rparr>\<rparr>"

definition state_of :: "flow \<Rightarrow> string \<Rightarrow> node_state option" where
  "state_of f nid = dget (node_states (f_task f)) nid"

definition save :: "engine_env \<Rightarrow> flow \<Rightarrow> flow" where
  "save e f = (let t = (f_task f)\<lparr>updated_at := clock e\<rparr> in f\<lparr>f_task := t, f_disk := t\<rparr>)"

definition ended :: "outcome \<Rightarrow> flow \<Rightarrow> flow" where
  "ended o' f = f\<lparr>f_phase := Ended o'\<rparr>"

definition raised :: "exc \<Rightarrow> flow \<Rightarrow> flow" where
  "raised x f = f\<lparr>f_phase := Raised x\<rparr>"

definition advance :: "flow \<Rightarrow> flow" where
  "advance f = f\<lparr>f_pos := Suc (f_pos f), f_phase := Ready\<rparr>"

definition again :: "flow \<Rightarrow> flow" where
  "again f = f\<lparr>f_phase := Ready\<rparr>"

lemmas flow_steps = put_state_def state_of_def save_def ended_def raised_def advance_def again_def

section \<open>Rejection feedback and its audit\<close>

text \<open>\<open>x or d\<close> of a field that may be missing.\<close>

definition or_else :: "doc \<Rightarrow> string \<Rightarrow> pyval \<Rightarrow> pyval" where
  "or_else d k v = (case dget d k of None \<Rightarrow> v | Some x \<Rightarrow> if truthy x then x else v)"

definition py_int_of :: "pyval \<Rightarrow> exc + int" where
  "py_int_of v =
     (case int_of v of
        Some i \<Rightarrow> Inr i
      | None \<Rightarrow> Inl (Exc (case v of PFloat NaN \<Rightarrow> ''ValueError'' | PFloat _ \<Rightarrow> ''OverflowError''
                          | PStr _ \<Rightarrow> ''ValueError'' | _ \<Rightarrow> ''TypeError'') []))"

definition retrying_event :: "node_state \<Rightarrow> doc option" where
  "retrying_event st =
     (if rejection_history (own st) = [] then None
      else let event = last (rejection_history (own st))
           in if eq_str (dgetd event ''resolution'' PNone) ''retrying'' then Some event else None)"

definition retry_message :: "engine_env \<Rightarrow> workflow_node \<Rightarrow> int \<Rightarrow> int \<Rightarrow> string \<Rightarrow> string" where
  "retry_message e n i m reason =
     n_first_message n @ [newline, newline] @ ''## Feedback of the validation'' @ [newline, newline] @
     ''This is retry '' @ show_int i @ ''/'' @ show_int m @ ''.'' @ [newline] @
     ''Reason of the rejection: '' @ reason @ [newline, newline] @
     ''Redo the whole task with this feedback and submit the output as required.''"

definition with_rejection_feedback :: "engine_env \<Rightarrow> workflow_node \<Rightarrow> node_state \<Rightarrow> exc + workflow_node" where
  "with_rejection_feedback e n st =
     (if n_type n \<noteq> ''agent'' then Inr n
      else (case retrying_event st of
              None \<Rightarrow> Inr n
            | Some event \<Rightarrow>
                bind_err (py_int_of (or_else event ''retry_index'' (PInt 0))) (\<lambda>i.
                bind_err (py_int_of (or_else event ''max_retries'' (PInt 0))) (\<lambda>m.
                  Inr (n\<lparr>n_first_message := retry_message e n i m (py_str e (or_else event ''reason'' (PStr [])))\<rparr>)))))"

text \<open>Iterating over a value: a list, the characters of a string, the keys of a dictionary.\<close>

definition py_items :: "pyval \<Rightarrow> exc + pyval list" where
  "py_items v =
     (case v of
        PList xs \<Rightarrow> Inr xs
      | PStr s \<Rightarrow> Inr (map (\<lambda>c. PStr [c]) s)
      | PDict d \<Rightarrow> Inr (map (\<lambda>p. PStr (fst p)) d)
      | _ \<Rightarrow> Inl (Exc ''TypeError'' []))"

definition call_ids :: "engine_env \<Rightarrow> node_state \<Rightarrow> string list" where
  "call_ids e st = map (\<lambda>item. py_str e (dgetd item ''call_id'' (PStr []))) (token_usage_calls (own st))"

definition retry_call_ids :: "engine_env \<Rightarrow> string list \<Rightarrow> doc list \<Rightarrow> string list" where
  "retry_call_ids e previous calls =
     filter (\<lambda>c. c \<noteq> [])
       (map (\<lambda>item. py_str e (or_else item ''call_id'' (PStr [])))
         (filter (\<lambda>item. py_str e (dgetd item ''call_id'' (PStr [])) \<notin> set previous) calls))"

definition set_last_event :: "doc \<Rightarrow> node_state \<Rightarrow> node_state" where
  "set_last_event event st =
     update_own (\<lambda>s. s\<lparr>rejection_history := butlast (rejection_history s) @ [event]\<rparr>) st"

definition update_rejection_retry_audit ::
    "engine_env \<Rightarrow> string list \<Rightarrow> bool \<Rightarrow> node_state \<Rightarrow> exc + node_state" where
  "update_rejection_retry_audit e previous will_retry st =
     (case retrying_event st of
        None \<Rightarrow> Inr st
      | Some event \<Rightarrow>
          bind_err (py_items (or_else event ''retry_call_ids'' (PList []))) (\<lambda>old.
            let known = map (py_str e) (filter truthy old) @ retry_call_ids e previous (token_usage_calls (own st));
                event1 = (if session_id (own st) = [] then event
                          else dput ''retry_session_id'' (PStr (session_id (own st))) event);
                event2 = dput ''retry_call_ids'' (PList (map PStr (sort (remdups known)))) event1;
                event3 = (if will_retry
                          then dput ''resolved_at'' PNone (dput ''resolution'' (PStr ''retrying'') event2)
                          else dput ''resolved_at'' (PStr (clock e)) (dput ''resolution''
                            (PStr (if normalize_node_status (status (own st)) = ''failed'' then ''failed'' else ''passed'')) event2))
            in Inr (set_last_event event3 st)))"

section \<open>A failed node\<close>

datatype verdict = WillRetry | SkippedOver | GaveUp

definition failed_verdict :: "engine_env \<Rightarrow> workflow_node \<Rightarrow> node_state \<Rightarrow> exc + (verdict \<times> node_state)" where
  "failed_verdict e n st =
     (if can_auto_retry (policy_of n) st then
        bind_err (retry_deadline (times e) (n_id n) (n_auto_retry_interval_seconds n)) (\<lambda>due.
        bind_err (policy_step (prepare_node_retry auto_retry_trigger (Some due) True st)) (\<lambda>st'.
          Inr (WillRetry, st')))
      else if should_auto_skip (policy_of n) st then
        bind_err (policy_step (apply_failure_skip (Some (clock e)) st)) (\<lambda>st'. Inr (SkippedOver, st'))
      else Inr (GaveUp, st))"

definition apply_failed_node_policy ::
    "engine_env \<Rightarrow> workflow_node \<Rightarrow> node_state \<Rightarrow> flow \<Rightarrow> (exc + verdict) \<times> flow" where
  "apply_failed_node_policy e n st f =
     (case failed_verdict e n st of
        Inl x \<Rightarrow> (Inl x, f)
      | Inr (v, st') \<Rightarrow> (Inr v, save e (put_state (n_id n) st' f)))"

definition after_failure :: "engine_env \<Rightarrow> workflow_node \<Rightarrow> node_state \<Rightarrow> flow \<Rightarrow> flow" where
  "after_failure e n st f =
     (case apply_failed_node_policy e n st f of
        (Inl x, f') \<Rightarrow> raised x f'
      | (Inr WillRetry, f') \<Rightarrow> ended RetryWaiting f'
      | (Inr SkippedOver, f') \<Rightarrow> advance f'
      | (Inr GaveUp, f') \<Rightarrow> ended Failed f')"

section \<open>Starting a plugin\<close>

text \<open>The attempt is opened and on disk before the plugin runs.\<close>

definition open_attempt ::
    "engine_env \<Rightarrow> workflow_def \<Rightarrow> string \<Rightarrow> node_state \<Rightarrow> string list \<Rightarrow> flow \<Rightarrow> attempt \<times> flow" where
  "open_attempt e d nid st calls f =
     (let a = begin_node e d (f_task f) nid st;
          f1 = save e (put_state nid a f)
      in (\<lparr>a_pre = st, a_begun = a, a_state = a, a_attached = True, a_calls = calls, a_rejected = None\<rparr>,
          f1\<lparr>f_log := f_log f1 @ [Started nid]\<rparr>))"

section \<open>After an attempt\<close>

definition max_rejection_count :: int where
  "max_rejection_count = 3"

definition over_limit :: "engine_env \<Rightarrow> workflow_node \<Rightarrow> node_state \<Rightarrow> flow \<Rightarrow> flow" where
  "over_limit e n st f =
     ended Failed (save e (put_state (n_id n) (update_own (\<lambda>s. s\<lparr>status := ''failed'',
       error := rstrip (''The approval was rejected up to its limit: '' @ error s)\<rparr>) st) f))"

definition approval_rejected :: "engine_env \<Rightarrow> workflow_node \<Rightarrow> node_state \<Rightarrow> flow \<Rightarrow> flow" where
  "approval_rejected e n st f =
     (if n_type n = ''approval'' \<and> 0 < f_pos f then
        (let st1 = update_own (\<lambda>s. s\<lparr>rejection_count := rejection_count s + 1\<rparr>) st;
             up = f_ids f ! (f_pos f - 1)
         in if rejection_count (own st1) < max_rejection_count then
              (case state_of f up of
                 None \<Rightarrow> over_limit e n st1 f
               | Some us \<Rightarrow>
                   (if session_id (own us) \<noteq> [] \<and> live_session e (session_id (own us)) then
                      (let us' = update_own (\<lambda>s. s\<lparr>status := ''running'', error := []\<rparr>) us;
                           st2 = update_own (\<lambda>s. s\<lparr>status := ''pending'', rejection_reason := error s\<rparr>) st1;
                           f' = save e (put_state (n_id n) st2 (put_state up us' f))
                       in f'\<lparr>f_pos := f_pos f - 1, f_phase := Ready, f_log := f_log f @ [Notified (session_id (own us))]\<rparr>)
                    else over_limit e n st1 f))
            else over_limit e n st1 f)
      else over_limit e n st f)"

definition by_status :: "engine_env \<Rightarrow> workflow_node \<Rightarrow> node_state \<Rightarrow> flow \<Rightarrow> flow" where
  "by_status e n st f =
     (if status (own st) = ''rejected'' then approval_rejected e n st f
      else if status (own st) = ''failed'' then after_failure e n st f
      else advance (save e f))"

definition will_auto_retry :: "workflow_node \<Rightarrow> node_state \<Rightarrow> bool" where
  "will_auto_retry n st = (status (own st) = ''failed'' \<and> can_auto_retry (policy_of n) st)"

text \<open>The node sent back has run again: the node that sent it back waits for its next turn.\<close>

definition reset_downstream :: "node_state \<Rightarrow> node_state" where
  "reset_downstream st =
     update_own (\<lambda>s. s\<lparr>status := ''pending'', rejection_reason := [], completed_at := None, session_id := [], error := []\<rparr>) st"

definition after_retry ::
    "engine_env \<Rightarrow> string \<Rightarrow> workflow_node \<Rightarrow> node_state \<Rightarrow> string list \<Rightarrow> node_state \<Rightarrow> flow \<Rightarrow> flow" where
  "after_retry e nid un down calls st f =
     (case update_rejection_retry_audit e calls (will_auto_retry un st) st of
        Inl x \<Rightarrow> raised x f
      | Inr st' \<Rightarrow>
          (let down' = reset_downstream down;
               f1 = put_state nid down' (put_state (n_id un) st' f)
           in if status (own st') = ''failed'' then
                (case apply_failed_node_policy e un st' f1 of
                   (Inl x, f2) \<Rightarrow> raised x f2
                 | (Inr WillRetry, f2) \<Rightarrow> ended RetryWaiting f2
                 | (Inr GaveUp, f2) \<Rightarrow> ended Failed f2
                 | (Inr SkippedOver, f2) \<Rightarrow>
                     advance (save e (put_state nid (update_own (\<lambda>s. s\<lparr>status := ''skipped'', is_skipped := True,
                       completed_at := Some (clock e)\<rparr>) down') f2)))
              else again (save e f1)))"

definition real_upstream :: "workflow_def \<Rightarrow> string \<Rightarrow> string list" where
  "real_upstream d nid =
     filter (\<lambda>u. u \<noteq> start_node \<and> u \<notin> set (map g_id (d_gateways d)))
       (map e_source (filter (\<lambda>e. e_target e = nid) (d_edges d)))"

definition redo_upstream ::
    "engine_env \<Rightarrow> workflow_def \<Rightarrow> workflow_node \<Rightarrow> string \<Rightarrow> node_state \<Rightarrow> flow \<Rightarrow> flow" where
  "redo_upstream e d n u st f =
     (let up = (if u \<noteq> [] then u else case real_upstream d (n_id n) of [] \<Rightarrow> [] | x # _ \<Rightarrow> x)
      in if up = [] then by_status e n st f
         else (case (state_of f up, get_node d up) of
                 (Some us, Some un) \<Rightarrow>
                   (case policy_step (prepare_node_retry validator_retry_trigger None True
                           (update_own (\<lambda>s. s\<lparr>status := ''failed''\<rparr>) us)) of
                      Inl x \<Rightarrow> raised x f
                    | Inr r \<Rightarrow>
                        (case with_rejection_feedback e un r of
                           Inl x \<Rightarrow> raised x f
                         | Inr _ \<Rightarrow>
                             (let f1 = save e (put_state up r f)
                              in if known_type e (node_type_of un) then
                                   (let (a, f2) = open_attempt e d up r (call_ids e us) f1
                                    in f2\<lparr>f_phase := Retrying up a st\<rparr>)
                                 else (let failed = unknown_type_state e un r
                                       in after_retry e (n_id n) un st (call_ids e us) failed (put_state up failed f1)))))
               | _ \<Rightarrow> ended Failed f))"

definition after_attempt ::
    "engine_env \<Rightarrow> workflow_def \<Rightarrow> workflow_node \<Rightarrow> string list \<Rightarrow> string option \<Rightarrow> node_state \<Rightarrow> flow \<Rightarrow> flow" where
  "after_attempt e d n calls rejected st f =
     (let f1 = put_state (n_id n) st f
      in case update_rejection_retry_audit e calls (will_auto_retry n st) st of
           Inl x \<Rightarrow> raised x f1
         | Inr st' \<Rightarrow>
             (let f2 = put_state (n_id n) st' f1
              in case rejected of None \<Rightarrow> by_status e n st' f2 | Some u \<Rightarrow> redo_upstream e d n u st' f2))"

section \<open>One turn of the loop\<close>

definition start_node_of_sequence :: "engine_env \<Rightarrow> workflow_def \<Rightarrow> workflow_node \<Rightarrow> flow \<Rightarrow> flow" where
  "start_node_of_sequence e d n f =
     (let nid = n_id n;
          st = update_own (\<lambda>s. s\<lparr>status := ''running''\<rparr>) (dgetd (node_states (f_task f)) nid (new_node_state nid));
          f1 = put_state nid st (f\<lparr>f_task := (f_task f)\<lparr>current_node_id := Some nid\<rparr>\<rparr>)
      in case with_rejection_feedback e n st of
           Inl x \<Rightarrow> raised x f1
         | Inr _ \<Rightarrow>
             (if known_type e (node_type_of n) then
                (let (a, f2) = open_attempt e d nid st (call_ids e st) f1 in f2\<lparr>f_phase := Executing a\<rparr>)
              else after_attempt e d n (call_ids e st) None (unknown_type_state e n st) f1))"

definition tick :: "engine_env \<Rightarrow> workflow_def \<Rightarrow> string list \<Rightarrow> flow \<Rightarrow> flow" where
  "tick e d disabled f =
     (if length (f_ids f) \<le> f_pos f then ended Completed f
      else (let nid = f_ids f ! f_pos f
            in case get_node d nid of
                 None \<Rightarrow> advance f
               | Some n \<Rightarrow>
                   (if nid \<in> set disabled then
                      advance (save e (put_state nid
                        (update_own (\<lambda>s. s\<lparr>status := ''skipped'', completed_at := Some (clock e)\<rparr>)
                          (dgetd (node_states (f_task f)) nid (new_node_state nid))) f))
                    else (case state_of f nid of
                            None \<Rightarrow> start_node_of_sequence e d n f
                          | Some st \<Rightarrow>
                              (let s = normalize_node_status (status (own st))
                               in if s \<in> {''skipped'', ''completed''} then
                                    advance (put_state nid (update_own (\<lambda>x. x\<lparr>status := s\<rparr>) st) f)
                                  else if status (own st) \<in> {''failed'', ''rejected''} then ended Failed f
                                  else if status (own st) = ''retry_waiting'' then ended RetryWaiting f
                                  else if status (own st) = ''running'' then ended Failed f
                                  else start_node_of_sequence e d n f)))))"

section \<open>What a plugin does\<close>

text \<open>The fields of its state a plugin writes; a checkpoint puts the state back into the task and saves it.\<close>

definition plugin_update :: "node_state \<Rightarrow> node_state \<Rightarrow> node_state" where
  "plugin_update w st =
     Node ((own st)\<lparr>status := status (own w), session_id := session_id (own w), error := error (own w),
       summary := summary (own w), rejection_count := rejection_count (own w),
       rejection_reason := rejection_reason (own w), input_snapshot := input_snapshot (own w)\<rparr>) (child_states w)"

definition plugin_writes :: "engine_env \<Rightarrow> string \<Rightarrow> node_state \<Rightarrow> bool \<Rightarrow> attempt \<Rightarrow> flow \<Rightarrow> attempt \<times> flow" where
  "plugin_writes e nid w checkpoint a f =
     (let st = plugin_update w (a_state a)
      in if checkpoint then (a\<lparr>a_state := st, a_attached := True\<rparr>, save e (put_state nid st f))
         else (a\<lparr>a_state := st\<rparr>, if a_attached a then put_state nid st f else f))"

definition lower_case :: "char \<Rightarrow> bool" where
  "lower_case c = (97 \<le> code c \<and> code c \<le> 122)"

definition code_char :: "char \<Rightarrow> bool" where
  "code_char c = (lower_case c \<or> (48 \<le> code c \<and> code c \<le> 57) \<or> c = CHR ''_'')"

text \<open>The error codes in a reason: \<open>re.findall\<close> of a lower-case name in square brackets.\<close>

fun find_codes :: "string \<Rightarrow> string list" where
  "find_codes [] = []"
| "find_codes (c # s) =
     (let body = takeWhile code_char s; rest = dropWhile code_char s
      in if c = CHR ''['' \<and> body \<noteq> [] \<and> lower_case (hd body) \<and> rest \<noteq> [] \<and> hd rest = CHR '']''
         then body # find_codes s else find_codes s)"

definition py_len :: "pyval \<Rightarrow> exc + int" where
  "py_len v =
     (case v of
        PList xs \<Rightarrow> Inr (int (length xs))
      | PStr s \<Rightarrow> Inr (int (length s))
      | PDict d \<Rightarrow> Inr (int (length d))
      | _ \<Rightarrow> Inl (Exc ''TypeError'' []))"

definition prior_rejections :: "node_state \<Rightarrow> exc + int" where
  "prior_rejections st =
     bind_err (map_err (\<lambda>item. py_len (or_else item ''rejection_history'' (PList []))) (iteration_history (own st))) (\<lambda>ns.
       Inr (sum_list ns))"

definition rejection_event ::
    "engine_env \<Rightarrow> flow \<Rightarrow> string \<Rightarrow> string \<Rightarrow> int \<Rightarrow> int \<Rightarrow> int \<Rightarrow> string \<Rightarrow> doc" where
  "rejection_event e f nid up sequence count max_reject reason =
     [(''rejection_id'', PStr (task_id (f_task f) @ '':'' @ nid @ '':'' @ up @ '':'' @ show_int sequence)),
      (''occurred_at'', PStr (clock e)),
      (''validator_node_id'', PStr nid),
      (''target_node_id'', PStr up),
      (''retry_index'', PInt count),
      (''max_retries'', PInt max_reject),
      (''error_codes'', PList (map PStr (case sort (remdups (find_codes reason)) of [] \<Rightarrow> [''unclassified''] | cs \<Rightarrow> cs))),
      (''reason'', PStr reason),
      (''resolution'', PStr ''retrying''),
      (''resolved_at'', PNone),
      (''retry_session_id'', PStr []),
      (''retry_call_ids'', PList [])]"

datatype reject_reply =
    Conflict string
  | NoUpstream
  | NotExecuted string
  | NotInWorkflow string
  | LimitReached string int int
  | Accepted string int int

text \<open>
  The callback of the plugin. The first part decides; an accepted rejection counts first, so a
  history that cannot be counted leaves the count and the acceptance behind when it raises.
\<close>

definition reject_target :: "workflow_def \<Rightarrow> string \<Rightarrow> string \<Rightarrow> string option" where
  "reject_target d nid target =
     (if target \<noteq> [] then Some target else case real_upstream d nid of [] \<Rightarrow> None | u # _ \<Rightarrow> Some u)"

definition reject_check ::
    "workflow_def \<Rightarrow> workflow_node \<Rightarrow> attempt \<Rightarrow> string \<Rightarrow> flow \<Rightarrow> exc + (reject_reply + (string \<times> node_state \<times> int))" where
  "reject_check d n a target f =
     (case a_rejected a of
        Some u \<Rightarrow> Inr (Inl (Conflict u))
      | None \<Rightarrow>
          (case reject_target d (n_id n) target of
             None \<Rightarrow> Inr (Inl NoUpstream)
           | Some up \<Rightarrow>
               (case state_of f up of
                  None \<Rightarrow> Inr (Inl (NotExecuted up))
                | Some us \<Rightarrow>
                    (if get_node d up = None then Inr (Inl (NotInWorkflow up))
                     else bind_err (get_max_reject_count n) (\<lambda>m.
                       if m \<le> reject_upstream_count (own us)
                       then Inr (Inl (LimitReached up (reject_upstream_count (own us)) m))
                       else Inr (Inr (up, us, m)))))))"

definition count_rejection :: "node_state \<Rightarrow> node_state" where
  "count_rejection st = update_own (\<lambda>s. s\<lparr>reject_upstream_count := reject_upstream_count s + 1\<rparr>) st"

definition send_back :: "engine_env \<Rightarrow> flow \<Rightarrow> string \<Rightarrow> string \<Rightarrow> int \<Rightarrow> int \<Rightarrow> string \<Rightarrow> node_state \<Rightarrow> node_state" where
  "send_back e f nid up prior m reason us =
     update_own (\<lambda>s. s\<lparr>rejection_history := rejection_history s @
         [rejection_event e f nid up (prior + int (length (rejection_history s)) + 1) (reject_upstream_count s) m reason],
       status := ''waiting_retry'', error := []\<rparr>) us"

definition on_reject_upstream ::
    "engine_env \<Rightarrow> workflow_def \<Rightarrow> workflow_node \<Rightarrow> string \<Rightarrow> string \<Rightarrow> attempt \<Rightarrow> flow \<Rightarrow> (exc + reject_reply) \<times> attempt \<times> flow" where
  "on_reject_upstream e d n reason target a f =
     (case reject_check d n a target f of
        Inl x \<Rightarrow> (Inl x, a, f)
      | Inr (Inl r) \<Rightarrow> (Inr r, a, f)
      | Inr (Inr (up, us, m)) \<Rightarrow>
          (let us1 = count_rejection us;
               a1 = a\<lparr>a_rejected := Some up\<rparr>;
               f1 = f\<lparr>f_log := f_log f @ [SentBack (n_id n) up]\<rparr>;
               self = (up = n_id n \<and> a_attached a)
           in case prior_rejections us of
                Inl x \<Rightarrow> (Inl x, if self then a1\<lparr>a_state := us1\<rparr> else a1, put_state up us1 f1)
              | Inr prior \<Rightarrow>
                  (let us2 = send_back e f (n_id n) up prior m reason us1
                   in (Inr (Accepted up (reject_upstream_count (own us2)) m),
                       (if self then a1\<lparr>a_state := us2\<rparr> else a1)\<lparr>a_attached := False\<rparr>,
                       put_state (n_id n) (a_pre a) (put_state up us2 f1)))))"

section \<open>The machine\<close>

datatype seq_event =
    Tick
  | PluginWrites node_state bool
  | RejectUpstream string string
  | PluginReturns node_result
  | Outside "(string \<times> node_state) list" "(string \<times> string) list" bool

definition end_attempt :: "engine_env \<Rightarrow> string \<Rightarrow> attempt \<Rightarrow> node_result \<Rightarrow> flow \<Rightarrow> (exc + node_state) \<times> flow" where
  "end_attempt e nid a r f =
     (let left = (case end_mutations e (a_begun a) (a_state a) r of
                    Inl _ \<Rightarrow> end_fields e r (a_state a) | Inr st \<Rightarrow> st);
          f1 = (if a_attached a then put_state nid left f else f)
      in case finish_node e (a_begun a) (a_state a) r of
           Inl x \<Rightarrow> (Inl x, f1)
         | Inr st \<Rightarrow>
             (case publish_outputs st r (Some (parameter_values (f_task f1))) of
                Inr (Some pv) \<Rightarrow> (Inr st, f1\<lparr>f_task := (f_task f1)\<lparr>parameter_values := pv\<rparr>\<rparr>)
              | _ \<Rightarrow> (Inr st, f1)))"

definition executing_step ::
    "workflow_def \<Rightarrow> engine_env \<Rightarrow> workflow_node \<Rightarrow> attempt \<Rightarrow> seq_event \<Rightarrow> flow \<Rightarrow> flow" where
  "executing_step d e n a ev f =
     (case ev of
        PluginWrites w cp \<Rightarrow> (let (a', f') = plugin_writes e (n_id n) w cp a f in f'\<lparr>f_phase := Executing a'\<rparr>)
      | RejectUpstream reason target \<Rightarrow>
          (let (_, a', f') = on_reject_upstream e d n reason target a f in f'\<lparr>f_phase := Executing a'\<rparr>)
      | PluginReturns r \<Rightarrow>
          (case end_attempt e (n_id n) a r f of
             (Inl x, f') \<Rightarrow> raised x f'
           | (Inr st, f') \<Rightarrow> after_attempt e d n (a_calls a) (a_rejected a) st f')
      | _ \<Rightarrow> f)"

definition retrying_step ::
    "engine_env \<Rightarrow> string \<Rightarrow> workflow_node \<Rightarrow> attempt \<Rightarrow> node_state \<Rightarrow> seq_event \<Rightarrow> flow \<Rightarrow> flow" where
  "retrying_step e nid un a down ev f =
     (case ev of
        PluginWrites w cp \<Rightarrow>
          (let (a', f') = plugin_writes e (n_id un) w cp a f in f'\<lparr>f_phase := Retrying (n_id un) a' down\<rparr>)
      | PluginReturns r \<Rightarrow>
          (case end_attempt e (n_id un) a r f of
             (Inl x, f') \<Rightarrow> raised x f'
           | (Inr st, f') \<Rightarrow> after_retry e nid un down (a_calls a) st f')
      | _ \<Rightarrow> f)"

text \<open>
  A step of the other branches and of the timers: they write node states and values of the task and
  may save it. They leave alone the nodes of this sequence and the one it is redoing. The code does
  not enforce that: the \<open>target_node_id\<close> of a rejection may name any node, so a plugin of another
  branch can send back or redo a node of this one; such runs are outside the model.
\<close>

definition own_nodes :: "flow \<Rightarrow> string set" where
  "own_nodes f = set (f_ids f) \<union> (case f_phase f of Retrying u _ _ \<Rightarrow> {u} | _ \<Rightarrow> {})"

definition outside :: "engine_env \<Rightarrow> (string \<times> node_state) list \<Rightarrow> (string \<times> string) list \<Rightarrow> bool \<Rightarrow> flow \<Rightarrow> flow" where
  "outside e sts pv saved f =
     (let f1 = fold (\<lambda>(u, st). if u \<in> own_nodes f then id else put_state u st) sts f;
          f2 = f1\<lparr>f_task := (f_task f1)\<lparr>parameter_values := fold (\<lambda>(k, v). dput k v) pv (parameter_values (f_task f1))\<rparr>\<rparr>
      in if saved then save e f2 else f2)"

definition seq_step :: "workflow_def \<Rightarrow> string list \<Rightarrow> flow \<Rightarrow> engine_env \<times> seq_event \<Rightarrow> flow" where
  "seq_step d disabled f ev =
     (let (e, x) = ev
      in case x of
           Outside sts pv saved \<Rightarrow> outside e sts pv saved f
         | _ \<Rightarrow>
             (case f_phase f of
                Ready \<Rightarrow> (case x of Tick \<Rightarrow> tick e d disabled f | _ \<Rightarrow> f)
              | Executing a \<Rightarrow>
                  (case get_node d (f_ids f ! f_pos f) of None \<Rightarrow> f | Some n \<Rightarrow> executing_step d e n a x f)
              | Retrying u a down \<Rightarrow>
                  (case get_node d u of None \<Rightarrow> f | Some un \<Rightarrow> retrying_step e (f_ids f ! f_pos f) un a down x f)
              | Ended _ \<Rightarrow> f
              | Raised _ \<Rightarrow> f))"

definition start_sequence :: "task \<Rightarrow> string list \<Rightarrow> flow" where
  "start_sequence t ids = \<lparr>f_task = t, f_disk = t, f_ids = ids, f_pos = 0, f_phase = Ready, f_log = []\<rparr>"

abbreviation run_sequence :: "workflow_def \<Rightarrow> string list \<Rightarrow> flow \<Rightarrow> (engine_env \<times> seq_event) list \<Rightarrow> flow" where
  "run_sequence d disabled f evs \<equiv> fold (\<lambda>ev f. seq_step d disabled f ev) evs f"

section \<open>The steps, case by case\<close>

lemma flow_simps [simp]:
  "f_ids (put_state u st f) = f_ids f" "f_pos (put_state u st f) = f_pos f"
  "f_phase (put_state u st f) = f_phase f" "f_log (put_state u st f) = f_log f"
  "f_ids (save e f) = f_ids f" "f_pos (save e f) = f_pos f" "f_phase (save e f) = f_phase f" "f_log (save e f) = f_log f"
  "f_ids (ended k f) = f_ids f" "f_pos (ended k f) = f_pos f" "f_phase (ended k f) = Ended k" "f_log (ended k f) = f_log f"
  "f_ids (raised x f) = f_ids f" "f_pos (raised x f) = f_pos f" "f_phase (raised x f) = Raised x" "f_log (raised x f) = f_log f"
  "f_ids (advance f) = f_ids f" "f_pos (advance f) = Suc (f_pos f)" "f_phase (advance f) = Ready" "f_log (advance f) = f_log f"
  "f_ids (again f) = f_ids f" "f_pos (again f) = f_pos f" "f_phase (again f) = Ready" "f_log (again f) = f_log f"
  by (simp_all add: flow_steps Let_def)

lemma state_of_simps [simp]:
  "state_of (put_state u st f) v = (if v = u then Some st else state_of f v)"
  "state_of (save e f) v = state_of f v"
  "state_of (ended k f) v = state_of f v"
  "state_of (raised x f) v = state_of f v"
  "state_of (advance f) v = state_of f v"
  "state_of (again f) v = state_of f v"
  "state_of (f\<lparr>f_phase := p\<rparr>) v = state_of f v"
  "state_of (f\<lparr>f_pos := i\<rparr>) v = state_of f v"
  "state_of (f\<lparr>f_log := l\<rparr>) v = state_of f v"
  "state_of (f\<lparr>f_task := (f_task f)\<lparr>current_node_id := c\<rparr>\<rparr>) v = state_of f v"
  "state_of (f\<lparr>f_task := (f_task f)\<lparr>parameter_values := pv\<rparr>\<rparr>) v = state_of f v"
  by (simp_all add: flow_steps Let_def)

lemma get_node_id: "get_node d nid = Some n \<Longrightarrow> n_id n = nid"
  by (simp add: get_node_def find_Some_iff) blast

lemma failed_verdict_state:
  assumes "failed_verdict e n st = Inr (v, st')"
  obtains "v = WillRetry" "can_auto_retry (policy_of n) st" "\<exists>due. prepare_node_retry auto_retry_trigger (Some due) True st = Inr st'"
  | "v = SkippedOver" "apply_failure_skip (Some (clock e)) st = Inr st'"
  | "v = GaveUp" "st' = st"
proof (cases "can_auto_retry (policy_of n) st")
  case True
  then have "v = WillRetry \<and> (\<exists>due. prepare_node_retry auto_retry_trigger (Some due) True st = Inr st')"
    using assms by (auto simp: failed_verdict_def policy_step_Inr bind_err_Inr_iff)
  with True that(1) show ?thesis by blast
next
  case False
  then have "(v = SkippedOver \<and> apply_failure_skip (Some (clock e)) st = Inr st') \<or> (v = GaveUp \<and> st' = st)"
    using assms by (auto simp: failed_verdict_def policy_step_Inr bind_err_Inr_iff split: if_split_asm)
  with that(2,3) show ?thesis by blast
qed

lemma after_failure_cases:
  obtains x where "after_failure e n st f = raised x f"
  | st' where "after_failure e n st f = ended RetryWaiting (save e (put_state (n_id n) st' f))"
      "failed_verdict e n st = Inr (WillRetry, st')"
  | st' where "after_failure e n st f = advance (save e (put_state (n_id n) st' f))"
      "failed_verdict e n st = Inr (SkippedOver, st')"
  | st' where "after_failure e n st f = ended Failed (save e (put_state (n_id n) st' f))"
      "failed_verdict e n st = Inr (GaveUp, st')"
proof (cases "failed_verdict e n st")
  case (Inl x)
  then have "after_failure e n st f = raised x f" by (simp add: after_failure_def apply_failed_node_policy_def)
  then show ?thesis by (rule that(1))
next
  case (Inr p)
  obtain v st' where p: "p = (v, st')" by force
  show ?thesis
    by (cases v) (use that Inr p in \<open>simp_all add: after_failure_def apply_failed_node_policy_def\<close>)
qed

text \<open>What the failure policy and the limit of rejections count.\<close>

definition counters :: "node_state \<Rightarrow> int \<times> int \<times> string \<times> int" where
  "counters st = (attempt_count (own st), automatic_retry_count (own st), next_attempt_trigger (own st), reject_upstream_count (own st))"

lemma over_limit_form:
  "\<exists>st'. over_limit e n st f = ended Failed (save e (put_state (n_id n) st' f)) \<and> counters st' = counters st"
  by (intro exI conjI, unfold over_limit_def, rule refl) (simp add: counters_def)

lemma approval_rejected_cases:
  obtains st' where "approval_rejected e n st f = ended Failed (save e (put_state (n_id n) st' f))" "counters st' = counters st"
  | us st' where "0 < f_pos f" "state_of f (f_ids f ! (f_pos f - 1)) = Some us"
      "approval_rejected e n st f = (save e (put_state (n_id n) st' (put_state (f_ids f ! (f_pos f - 1))
         (update_own (\<lambda>s. s\<lparr>status := ''running'', error := []\<rparr>) us) f)))\<lparr>f_pos := f_pos f - 1, f_phase := Ready, f_log := f_log f @ [Notified (session_id (own us))]\<rparr>"
      "counters st' = counters st"
proof (cases "n_type n = ''approval'' \<and> 0 < f_pos f")
  case False
  then have "approval_rejected e n st f = over_limit e n st f" by (auto simp: approval_rejected_def)
  with that(1) over_limit_form [of e n st f] show ?thesis by metis
next
  case True
  let ?st1 = "update_own (\<lambda>s. s\<lparr>rejection_count := rejection_count s + 1\<rparr>) st"
  let ?up = "f_ids f ! (f_pos f - 1)"
  have c: "counters ?st1 = counters st" by (simp add: counters_def)
  show ?thesis
  proof (cases "rejection_count (own ?st1) < max_rejection_count \<and>
      (\<exists>us. state_of f ?up = Some us \<and> session_id (own us) \<noteq> [] \<and> live_session e (session_id (own us)))")
    case False
    then have "approval_rejected e n st f = over_limit e n ?st1 f"
      using True by (auto simp: approval_rejected_def Let_def split: option.splits)
    with that(1) over_limit_form [of e n ?st1 f] c show ?thesis by metis
  next
    case rolled: True
    then obtain us where us: "state_of f ?up = Some us" "session_id (own us) \<noteq> []" "live_session e (session_id (own us))" by blast
    let ?st2 = "update_own (\<lambda>s. s\<lparr>status := ''pending'', rejection_reason := error s\<rparr>) ?st1"
    have "approval_rejected e n st f = (save e (put_state (n_id n) ?st2 (put_state ?up
        (update_own (\<lambda>s. s\<lparr>status := ''running'', error := []\<rparr>) us) f)))\<lparr>f_pos := f_pos f - 1, f_phase := Ready, f_log := f_log f @ [Notified (session_id (own us))]\<rparr>"
      using True rolled us by (simp add: approval_rejected_def Let_def)
    moreover have "counters ?st2 = counters st" by (simp add: counters_def)
    ultimately show ?thesis using True us(1) that(2) by blast
  qed
qed

lemma by_status_cases:
  obtains "status (own st) = ''rejected''" "by_status e n st f = approval_rejected e n st f"
  | "status (own st) = ''failed''" "by_status e n st f = after_failure e n st f"
  | "status (own st) \<notin> {''failed'', ''rejected''}" "by_status e n st f = advance (save e f)"
  by (auto simp: by_status_def)

lemma audit_counters:
  "update_rejection_retry_audit e calls w st = Inr st' \<Longrightarrow> counters st' = counters st \<and> status (own st') = status (own st)"
  by (auto simp: update_rejection_retry_audit_def counters_def set_last_event_def bind_err_Inr_iff Let_def split: option.splits)

lemma after_retry_cases:
  obtains x where "after_retry e nid un down calls st f = raised x f"
  | st' where "update_rejection_retry_audit e calls (will_auto_retry un st) st = Inr st'" "status (own st') \<noteq> ''failed''"
      "after_retry e nid un down calls st f =
         again (save e (put_state nid (reset_downstream down) (put_state (n_id un) st' f)))"
  | st' x where "after_retry e nid un down calls st f = raised x (put_state nid (reset_downstream down) (put_state (n_id un) st' f))"
      "update_rejection_retry_audit e calls (will_auto_retry un st) st = Inr st'"
  | st' v st2 where "update_rejection_retry_audit e calls (will_auto_retry un st) st = Inr st'" "status (own st') = ''failed''"
      "failed_verdict e un st' = Inr (v, st2)" "v \<noteq> SkippedOver"
      "after_retry e nid un down calls st f = ended (if v = WillRetry then RetryWaiting else Failed)
         (save e (put_state (n_id un) st2 (put_state nid (reset_downstream down) (put_state (n_id un) st' f))))"
  | st' st2 st3 where "update_rejection_retry_audit e calls (will_auto_retry un st) st = Inr st'" "status (own st') = ''failed''"
      "failed_verdict e un st' = Inr (SkippedOver, st2)" "status (own st3) = ''skipped''" "counters st3 = counters down"
      "after_retry e nid un down calls st f = advance (save e (put_state nid st3
         (save e (put_state (n_id un) st2 (put_state nid (reset_downstream down) (put_state (n_id un) st' f))))))"
proof (cases "update_rejection_retry_audit e calls (will_auto_retry un st) st")
  case (Inl x)
  then show ?thesis using that(1) by (simp add: after_retry_def)
next
  case (Inr st')
  let ?f1 = "put_state nid (reset_downstream down) (put_state (n_id un) st' f)"
  show ?thesis
  proof (cases "status (own st') = ''failed''")
    case False
    with Inr show ?thesis using that(2) by (simp add: after_retry_def Let_def)
  next
    case True
    show ?thesis
    proof (cases "failed_verdict e un st'")
      case (Inl x)
      with True Inr show ?thesis using that(3) by (simp add: after_retry_def apply_failed_node_policy_def Let_def)
    next
      case p: (Inr p)
      obtain v st2 where v: "failed_verdict e un st' = Inr (v, st2)" using p by (cases p) simp
      show ?thesis
      proof (cases "v = SkippedOver")
        case False
        then have "after_retry e nid un down calls st f =
            ended (if v = WillRetry then RetryWaiting else Failed) (save e (put_state (n_id un) st2 ?f1))"
          using v True Inr by (cases v) (simp_all add: after_retry_def apply_failed_node_policy_def Let_def)
        with that(4) Inr True v False show ?thesis by blast
      next
        case skip: True
        let ?st3 = "update_own (\<lambda>s. s\<lparr>status := ''skipped'', is_skipped := True, completed_at := Some (clock e)\<rparr>) (reset_downstream down)"
        have "after_retry e nid un down calls st f = advance (save e (put_state nid ?st3 (save e (put_state (n_id un) st2 ?f1))))"
          using v True Inr skip by (simp add: after_retry_def apply_failed_node_policy_def Let_def)
        moreover have "status (own ?st3) = ''skipped''" "counters ?st3 = counters down"
          by (simp_all add: reset_downstream_def counters_def)
        ultimately show ?thesis using that(5) Inr True v skip by blast
      qed
    qed
  qed
qed

text \<open>The state a sent-back node runs again with.\<close>

definition sent_back_state :: "node_state \<Rightarrow> exc + node_state" where
  "sent_back_state us =
     policy_step (prepare_node_retry validator_retry_trigger None True (update_own (\<lambda>s. s\<lparr>status := ''failed''\<rparr>) us))"

lemma sent_back_counters:
  assumes "sent_back_state us = Inr r"
  shows "counters r = (attempt_count (own us), 0, validator_retry_trigger, reject_upstream_count (own us))"
proof -
  from assms have "prepare_node_retry validator_retry_trigger None True (update_own (\<lambda>s. s\<lparr>status := ''failed''\<rparr>) us) = Inr r"
    by (simp add: sent_back_state_def policy_step_Inr)
  moreover have "validator_retry_trigger \<noteq> auto_retry_trigger" by (simp add: trigger_defs)
  ultimately show ?thesis
    by (auto simp: prepare_node_retry_def retry_replayed_def counters_def Let_def split: if_split_asm)
qed

definition target_of :: "workflow_def \<Rightarrow> workflow_node \<Rightarrow> string \<Rightarrow> string" where
  "target_of d n u = (if u \<noteq> [] then u else case real_upstream d (n_id n) of [] \<Rightarrow> [] | x # _ \<Rightarrow> x)"

lemma redo_upstream_cases:
  obtains "target_of d n u = []" "redo_upstream e d n u st f = by_status e n st f"
  | "redo_upstream e d n u st f = ended Failed f"
  | x where "redo_upstream e d n u st f = raised x f"
  | us un r a f2 where "target_of d n u \<noteq> []" "state_of f (target_of d n u) = Some us" "get_node d (target_of d n u) = Some un"
      "sent_back_state us = Inr r"
      "open_attempt e d (target_of d n u) r (call_ids e us) (save e (put_state (target_of d n u) r f)) = (a, f2)"
      "redo_upstream e d n u st f = f2\<lparr>f_phase := Retrying (target_of d n u) a st\<rparr>"
  | us un r where "target_of d n u \<noteq> []" "state_of f (target_of d n u) = Some us" "get_node d (target_of d n u) = Some un"
      "sent_back_state us = Inr r"
      "redo_upstream e d n u st f = after_retry e (n_id n) un st (call_ids e us) (unknown_type_state e un r)
         (put_state (target_of d n u) (unknown_type_state e un r) (save e (put_state (target_of d n u) r f)))"
proof -
  let ?up = "target_of d n u"
  show ?thesis
  proof (cases "?up = []")
    case True
    then show ?thesis using that(1) by (simp add: redo_upstream_def target_of_def Let_def)
  next
    case False
    show ?thesis
    proof (cases "\<exists>us un. state_of f ?up = Some us \<and> get_node d ?up = Some un")
      case none: False
      have "redo_upstream e d n u st f = ended Failed f"
        unfolding redo_upstream_def Let_def target_of_def [symmetric]
        using False none by (cases "state_of f ?up"; cases "get_node d ?up") auto
      then show ?thesis by (rule that(2))
    next
      case True
      then obtain us un where us: "state_of f ?up = Some us" "get_node d ?up = Some un" by blast
      note r = redo_upstream_def Let_def target_of_def [symmetric] sent_back_state_def [symmetric]
      show ?thesis
      proof (cases "sent_back_state us")
        case (Inl x)
        have "redo_upstream e d n u st f = raised x f" unfolding r using False us Inl by simp
        then show ?thesis by (rule that(3))
      next
        case (Inr s)
        show ?thesis
        proof (cases "with_rejection_feedback e un s")
          case (Inl x)
          have "redo_upstream e d n u st f = raised x f" unfolding r using False us Inr Inl by simp
          then show ?thesis by (rule that(3))
        next
          case fb: (Inr n')
          show ?thesis
          proof (cases "known_type e (node_type_of un)")
            case True
            obtain a f2 where o: "open_attempt e d ?up s (call_ids e us) (save e (put_state ?up s f)) = (a, f2)" by force
            have "redo_upstream e d n u st f = f2\<lparr>f_phase := Retrying ?up a st\<rparr>"
              unfolding r using False us Inr fb True o by simp
            with that(4) False us Inr o show ?thesis by blast
          next
            case unknown: False
            have "redo_upstream e d n u st f = after_retry e (n_id n) un st (call_ids e us) (unknown_type_state e un s)
                (put_state ?up (unknown_type_state e un s) (save e (put_state ?up s f)))"
              unfolding r using False us Inr fb unknown by simp
            with that(5) False us Inr show ?thesis by blast
          qed
        qed
      qed
    qed
  qed
qed

lemma after_attempt_cases:
  obtains x where "after_attempt e d n calls rejected st f = raised x (put_state (n_id n) st f)"
  | st' where "update_rejection_retry_audit e calls (will_auto_retry n st) st = Inr st'" "rejected = None"
      "after_attempt e d n calls rejected st f = by_status e n st' (put_state (n_id n) st' (put_state (n_id n) st f))"
  | st' u where "update_rejection_retry_audit e calls (will_auto_retry n st) st = Inr st'" "rejected = Some u"
      "after_attempt e d n calls rejected st f = redo_upstream e d n u st' (put_state (n_id n) st' (put_state (n_id n) st f))"
  by (cases "update_rejection_retry_audit e calls (will_auto_retry n st) st"; cases rejected)
    (auto simp: after_attempt_def Let_def)

definition with_status :: "string \<Rightarrow> node_state \<Rightarrow> node_state" where
  "with_status x st = update_own (\<lambda>s. s\<lparr>status := x\<rparr>) st"

lemma with_status_simps [simp]: "status (own (with_status x st)) = x" "counters (with_status x st) = counters st"
  by (simp_all add: with_status_def counters_def)

text \<open>The task as the loop is about to run \<open>n\<close>.\<close>

definition entered :: "workflow_node \<Rightarrow> flow \<Rightarrow> flow" where
  "entered n f = f\<lparr>f_task := (f_task f)\<lparr>current_node_id := Some (n_id n)\<rparr>\<rparr>"

definition entry_state :: "workflow_node \<Rightarrow> flow \<Rightarrow> node_state" where
  "entry_state n f = (case state_of f (n_id n) of None \<Rightarrow> new_node_state (n_id n) | Some st \<Rightarrow> st)"

lemma entry_state_dgetd: "entry_state n f = dgetd (node_states (f_task f)) (n_id n) (new_node_state (n_id n))"
  by (simp add: entry_state_def dgetd_def state_of_def)

lemma entered_simps [simp]:
  "state_of (entered n f) v = state_of f v" "f_ids (entered n f) = f_ids f" "f_pos (entered n f) = f_pos f"
  "f_log (entered n f) = f_log f" "f_phase (entered n f) = f_phase f"
  by (simp_all add: entered_def)

lemma start_cases:
  fixes n :: workflow_node and f :: flow
  defines "st \<equiv> with_status ''running'' (entry_state n f)"
  obtains x where "start_node_of_sequence e d n f = raised x (put_state (n_id n) st (entered n f))"
  | a f2 where "open_attempt e d (n_id n) st (call_ids e st) (put_state (n_id n) st (entered n f)) = (a, f2)"
      "start_node_of_sequence e d n f = f2\<lparr>f_phase := Executing a\<rparr>"
  | "start_node_of_sequence e d n f =
       after_attempt e d n (call_ids e st) None (unknown_type_state e n st) (put_state (n_id n) st (entered n f))"
proof -
  have s: "start_node_of_sequence e d n f =
     (case with_rejection_feedback e n st of
        Inl x \<Rightarrow> raised x (put_state (n_id n) st (entered n f))
      | Inr _ \<Rightarrow>
          (if known_type e (node_type_of n) then
             (let (a, f2) = open_attempt e d (n_id n) st (call_ids e st) (put_state (n_id n) st (entered n f)) in f2\<lparr>f_phase := Executing a\<rparr>)
           else after_attempt e d n (call_ids e st) None (unknown_type_state e n st) (put_state (n_id n) st (entered n f))))"
    unfolding start_node_of_sequence_def st_def entered_def entry_state_dgetd with_status_def Let_def by (rule refl)
  obtain a f2 where o: "open_attempt e d (n_id n) st (call_ids e st) (put_state (n_id n) st (entered n f)) = (a, f2)" by force
  show ?thesis
    by (cases "with_rejection_feedback e n st"; cases "known_type e (node_type_of n)") (use that s o in auto)
qed

text \<open>The states in which the loop does not start a node.\<close>

definition inert :: "node_state \<Rightarrow> bool" where
  "inert st = (normalize_node_status (status (own st)) \<in> {''skipped'', ''completed''} \<or>
     status (own st) \<in> {''failed'', ''rejected'', ''retry_waiting'', ''running''})"

lemma tick_cases:
  fixes f :: flow
  defines "nid \<equiv> f_ids f ! f_pos f"
  obtains "length (f_ids f) \<le> f_pos f" "tick e d disabled f = ended Completed f"
  | "f_pos f < length (f_ids f)" "get_node d nid = None" "tick e d disabled f = advance f"
  | n st where "f_pos f < length (f_ids f)" "get_node d nid = Some n" "status (own st) = ''skipped''" "counters st = counters (entry_state n f)"
      "tick e d disabled f = advance (save e (put_state nid st f))"
  | n st where "f_pos f < length (f_ids f)" "get_node d nid = Some n" "state_of f nid = Some st"
      "normalize_node_status (status (own st)) \<in> {''skipped'', ''completed''}"
      "tick e d disabled f = advance (put_state nid (with_status (normalize_node_status (status (own st))) st) f)"
  | n st k where "f_pos f < length (f_ids f)" "get_node d nid = Some n" "state_of f nid = Some st" "inert st" "k \<noteq> Completed"
      "tick e d disabled f = ended k f"
  | n where "f_pos f < length (f_ids f)" "get_node d nid = Some n" "\<forall>st. state_of f nid = Some st \<longrightarrow> \<not> inert st"
      "tick e d disabled f = start_node_of_sequence e d n f"
proof (cases "f_pos f < length (f_ids f)")
  case False
  then show ?thesis using that(1) by (simp add: tick_def)
next
  case pos: True
  show ?thesis
  proof (cases "get_node d nid")
    case None
    then show ?thesis using that(2) pos by (simp add: tick_def nid_def)
  next
    case n: (Some n)
    have id: "n_id n = nid" using get_node_id [OF n] .
    show ?thesis
    proof (cases "nid \<in> set disabled")
      case True
      let ?st = "update_own (\<lambda>s. s\<lparr>status := ''skipped'', completed_at := Some (clock e)\<rparr>) (entry_state n f)"
      have "tick e d disabled f = advance (save e (put_state nid ?st f))"
        using pos n True by (simp add: tick_def nid_def [symmetric] entry_state_dgetd id Let_def)
      moreover have "status (own ?st) = ''skipped''" "counters ?st = counters (entry_state n f)" by (simp_all add: counters_def)
      ultimately show ?thesis using that(3) pos n by blast
    next
      case enabled: False
      show ?thesis
      proof (cases "state_of f nid")
        case None
        then have "tick e d disabled f = start_node_of_sequence e d n f"
          using pos n enabled by (simp add: tick_def nid_def [symmetric])
        with that(6) pos n None show ?thesis by simp
      next
        case st: (Some st)
        consider "normalize_node_status (status (own st)) \<in> {''skipped'', ''completed''}"
          | "normalize_node_status (status (own st)) \<notin> {''skipped'', ''completed''}" "status (own st) \<in> {''failed'', ''rejected'', ''retry_waiting'', ''running''}"
          | "\<not> inert st" by (auto simp: inert_def)
        then show ?thesis
        proof cases
          case 1
          then have "tick e d disabled f = advance (put_state nid (with_status (normalize_node_status (status (own st))) st) f)"
            using pos n enabled st by (simp add: tick_def nid_def [symmetric] with_status_def Let_def)
          with that(4) pos n st 1 show ?thesis by blast
        next
          case 2
          then have "tick e d disabled f = ended (if status (own st) = ''retry_waiting'' then RetryWaiting else Failed) f"
            using pos n enabled st by (auto simp: tick_def nid_def [symmetric] Let_def)
          moreover have "inert st" using 2 by (simp add: inert_def)
          ultimately show ?thesis
            using that(5) [OF pos n st, of "if status (own st) = ''retry_waiting'' then RetryWaiting else Failed"] by simp
        next
          case 3
          then have "tick e d disabled f = start_node_of_sequence e d n f"
            using pos n enabled st by (simp add: tick_def nid_def [symmetric] inert_def Let_def)
          with that(6) pos n st 3 show ?thesis by simp
        qed
      qed
    qed
  qed
qed

lemma plugin_update_counters [simp]: "counters (plugin_update w st) = counters st"
  by (simp add: plugin_update_def counters_def)

lemma plugin_writes_form:
  assumes "plugin_writes e nid w cp a f = (a', f')"
  shows "counters (a_state a') = counters (a_state a)" "a_rejected a' = a_rejected a" "a_begun a' = a_begun a" "a_calls a' = a_calls a"
    "f_ids f' = f_ids f" "f_pos f' = f_pos f" "f_log f' = f_log f" "v \<noteq> nid \<Longrightarrow> state_of f' v = state_of f v"
    "a_attached a' \<Longrightarrow> (a_attached a \<Longrightarrow> state_of f nid = Some (a_state a)) \<Longrightarrow> state_of f' nid = Some (a_state a')"
    "\<not> a_attached a' \<Longrightarrow> \<not> a_attached a \<and> f' = f" "a_attached a \<Longrightarrow> a_attached a'"
  using assms by (auto simp: plugin_writes_def Let_def split: if_split_asm)

lemma reject_check_Inr:
  assumes "reject_check d n a target f = Inr (Inr (up, us, m))"
  shows "a_rejected a = None" "state_of f up = Some us" "get_node d up \<noteq> None" "get_max_reject_count n = Inr m"
    "reject_upstream_count (own us) < m"
  using assms by (auto simp: reject_check_def bind_err_Inr_iff not_le split: option.split_asm if_split_asm)

lemma on_reject_cases:
  obtains r where "on_reject_upstream e d n reason target a f = (r, a, f)"
  | r up us us' m a' f' where "on_reject_upstream e d n reason target a f = (r, a', f')"
      "a_rejected a = None" "state_of f up = Some us" "get_node d up \<noteq> None" "get_max_reject_count n = Inr m"
      "reject_upstream_count (own us) < m"
      "counters us' = (attempt_count (own us), automatic_retry_count (own us), next_attempt_trigger (own us), reject_upstream_count (own us) + 1)"
      "a_rejected a' = Some up" "a_begun a' = a_begun a" "a_calls a' = a_calls a" "a_pre a' = a_pre a"
      "a_state a' = (if up = n_id n \<and> a_attached a then us' else a_state a)"
      "(f' = put_state up us' (f\<lparr>f_log := f_log f @ [SentBack (n_id n) up]\<rparr>) \<and> a_attached a' = a_attached a) \<or>
       (f' = put_state (n_id n) (a_pre a) (put_state up us' (f\<lparr>f_log := f_log f @ [SentBack (n_id n) up]\<rparr>)) \<and> \<not> a_attached a')"
proof (cases "reject_check d n a target f")
  case (Inl x)
  then show ?thesis using that(1) by (simp add: on_reject_upstream_def)
next
  case (Inr q)
  show ?thesis
  proof (cases q)
    case (Inl r)
    then show ?thesis using that(1) Inr by (simp add: on_reject_upstream_def)
  next
    case q: (Inr p)
    obtain up us m where p: "reject_check d n a target f = Inr (Inr (up, us, m))" using Inr q by (cases p) auto
    note c = reject_check_Inr [OF p]
    show ?thesis
    proof (cases "prior_rejections us")
      case (Inl x)
      let ?us1 = "count_rejection us"
      let ?a1 = "a\<lparr>a_rejected := Some up\<rparr>"
      let ?a2 = "if up = n_id n \<and> a_attached a then ?a1\<lparr>a_state := ?us1\<rparr> else ?a1"
      have "on_reject_upstream e d n reason target a f =
          (Inl x, ?a2, put_state up ?us1 (f\<lparr>f_log := f_log f @ [SentBack (n_id n) up]\<rparr>))"
        using p Inl by (simp add: on_reject_upstream_def Let_def)
      from that(2) [OF this c, of ?us1] show ?thesis by (simp add: counters_def count_rejection_def)
    next
      case pr: (Inr prior)
      let ?us2 = "send_back e f (n_id n) up prior m reason (count_rejection us)"
      let ?a1 = "a\<lparr>a_rejected := Some up\<rparr>"
      let ?a2 = "(if up = n_id n \<and> a_attached a then ?a1\<lparr>a_state := ?us2\<rparr> else ?a1)\<lparr>a_attached := False\<rparr>"
      have "on_reject_upstream e d n reason target a f =
          (Inr (Accepted up (reject_upstream_count (own ?us2)) m), ?a2,
           put_state (n_id n) (a_pre a) (put_state up ?us2 (f\<lparr>f_log := f_log f @ [SentBack (n_id n) up]\<rparr>)))"
        using p pr by (simp add: on_reject_upstream_def Let_def)
      from that(2) [OF this c, of ?us2] show ?thesis by (simp add: counters_def count_rejection_def send_back_def)
    qed
  qed
qed

lemma end_ledgers_counters: "end_ledgers e b r st = Inr st' \<Longrightarrow> counters st' = counters st \<and> status (own st') = status (own st)"
  by (auto simp: end_ledgers_def counters_def bind_err_Inr_iff split: if_split_asm)

lemma end_fields_counters: "counters (end_fields e r st) = counters st" "status (own (end_fields e r st)) = normalize_node_status (nr_status r)"
  by (simp_all add: end_fields_def counters_def)

lemma end_mutations_counters:
  assumes "end_mutations e b st r = Inr st'"
  shows "counters st' = counters st \<and> status (own st') = normalize_node_status (nr_status r)"
proof -
  obtain st1 where st1: "end_ledgers e b r (end_fields e r st) = Inr st1"
    and st': "st' = update_own (\<lambda>s. s\<lparr>session_id := if nr_session_id r \<noteq> [] then nr_session_id r else session_id s\<rparr>) st1"
    using assms by (auto simp: end_mutations_def bind_err_Inr_iff)
  have "counters st' = counters st1 \<and> status (own st') = status (own st1)" by (simp add: st' counters_def)
  with end_ledgers_counters [OF st1] end_fields_counters show ?thesis by simp
qed

lemma normalize_twice: "normalize_node_status (normalize_node_status x) = normalize_node_status x"
  by (simp add: normalize_node_status_def)

lemma record_counters: "counters (record_attempt x c st) = counters st"
  by (simp add: record_attempt_def counters_def Let_def)

lemma end_attempt_form:
  assumes "end_attempt e nid a r f = (res, f')"
  shows "f_ids f' = f_ids f" "f_pos f' = f_pos f" "f_log f' = f_log f" "v \<noteq> nid \<Longrightarrow> state_of f' v = state_of f v"
    "\<exists>left. counters left = counters (a_state a) \<and> state_of f' nid = (if a_attached a then Some left else state_of f nid)"
    "res = Inr st \<Longrightarrow> counters st = counters (a_state a)"
    "res = Inr st \<Longrightarrow> nr_status r \<noteq> [] \<Longrightarrow> status (own st) = normalize_node_status (nr_status r)"
proof -
  define left where "left = (case end_mutations e (a_begun a) (a_state a) r of Inl _ \<Rightarrow> end_fields e r (a_state a) | Inr st \<Rightarrow> st)"
  define f1 where "f1 = (if a_attached a then put_state nid left f else f)"
  have left: "counters left = counters (a_state a)"
    using end_mutations_counters end_fields_counters by (auto simp: left_def split: sum.split)
  have f1: "f_ids f1 = f_ids f" "f_pos f1 = f_pos f" "f_log f1 = f_log f" "\<And>v. v \<noteq> nid \<Longrightarrow> state_of f1 v = state_of f v"
    "state_of f1 nid = (if a_attached a then Some left else state_of f nid)"
    by (auto simp: f1_def)
  have e: "end_attempt e nid a r f =
      (case finish_node e (a_begun a) (a_state a) r of
         Inl x \<Rightarrow> (Inl x, f1)
       | Inr st \<Rightarrow>
           (case publish_outputs st r (Some (parameter_values (f_task f1))) of
              Inr (Some pv) \<Rightarrow> (Inr st, f1\<lparr>f_task := (f_task f1)\<lparr>parameter_values := pv\<rparr>\<rparr>)
            | _ \<Rightarrow> (Inr st, f1)))"
    unfolding end_attempt_def left_def f1_def Let_def by (rule refl)
  obtain g where g: "f' = f1 \<or> f' = f1\<lparr>f_task := (f_task f1)\<lparr>parameter_values := g\<rparr>\<rparr>"
    using assms unfolding e by (auto split: sum.split_asm option.split_asm)
  have same: "f_ids f' = f_ids f1" "f_pos f' = f_pos f1" "f_log f' = f_log f1" "\<And>v. state_of f' v = state_of f1 v"
    using g by auto
  show "f_ids f' = f_ids f" "f_pos f' = f_pos f" "f_log f' = f_log f" "v \<noteq> nid \<Longrightarrow> state_of f' v = state_of f v"
    "\<exists>left. counters left = counters (a_state a) \<and> state_of f' nid = (if a_attached a then Some left else state_of f nid)"
    using same f1 left by auto
  have en: "finish_node e (a_begun a) (a_state a) r = Inr st" if "res = Inr st" for st
    using assms that unfolding e by (auto split: sum.split_asm option.split_asm)
  have st: "counters st = counters (a_state a) \<and> (nr_status r \<noteq> [] \<longrightarrow> status (own st) = normalize_node_status (nr_status r))"
    if ok: "res = Inr st"
  proof -
    obtain st1 where st1: "end_mutations e (a_begun a) (a_state a) r = Inr st1"
      and st: "st = record_attempt (Some (status (own st1))) (completed_at (own st1)) st1"
      using en [OF ok] by (auto simp: finish_node_def bind_err_Inr_iff)
    have "status (own st) = normalize_node_status (status (own st1))" if "status (own st1) \<noteq> []"
      using that by (simp add: st record_attempt_def str_default_def Let_def)
    moreover have "normalize_node_status (nr_status r) \<noteq> []" if "nr_status r \<noteq> []"
      using that by (simp add: normalize_node_status_def)
    ultimately show ?thesis using end_mutations_counters [OF st1] by (simp add: st record_counters normalize_twice)
  qed
  show "res = Inr st \<Longrightarrow> counters st = counters (a_state a)" using st by blast
  show "res = Inr st \<Longrightarrow> nr_status r \<noteq> [] \<Longrightarrow> status (own st) = normalize_node_status (nr_status r)" using st by blast
qed

lemma open_attempt_form:
  assumes "open_attempt e d nid st calls f = (a, f')"
  shows "f_ids f' = f_ids f" "f_pos f' = f_pos f" "f_log f' = f_log f @ [Started nid]"
    "state_of f' v = (if v = nid then Some (a_state a) else state_of f v)" "a_rejected a = None" "a_attached a"
    "a_state a = begin_node e d (f_task f) nid st" "f_disk f' = f_task f'"
  using assms by (auto simp: open_attempt_def Let_def) (simp_all add: save_def put_state_def Let_def)

lemma begin_counters:
  "counters (begin_node e d t nid st) =
     (attempt_count (own st) + 1, automatic_retry_count (own st), next_attempt_trigger (own st), reject_upstream_count (own st))"
  "status (own (begin_node e d t nid st)) = ''running''"
  by (auto simp: begin_node_def begin_node_attempt_def counters_def Let_def split: prod.split)

lemma outside_form:
  "f_ids (outside e sts pv b f) = f_ids f" "f_pos (outside e sts pv b f) = f_pos f" "f_log (outside e sts pv b f) = f_log f"
  "f_phase (outside e sts pv b f) = f_phase f"
  "u \<in> own_nodes f \<Longrightarrow> state_of (outside e sts pv b f) u = state_of f u"
proof -
  define f1 where "f1 = fold (\<lambda>(u, st). if u \<in> own_nodes f then id else put_state u st) sts f"
  have g: "f_ids (fold (\<lambda>(u, st). if u \<in> own_nodes f then id else put_state u st) sts h) = f_ids h \<and>
      f_pos (fold (\<lambda>(u, st). if u \<in> own_nodes f then id else put_state u st) sts h) = f_pos h \<and>
      f_log (fold (\<lambda>(u, st). if u \<in> own_nodes f then id else put_state u st) sts h) = f_log h \<and>
      f_phase (fold (\<lambda>(u, st). if u \<in> own_nodes f then id else put_state u st) sts h) = f_phase h \<and>
      (\<forall>u\<in>own_nodes f. state_of (fold (\<lambda>(u, st). if u \<in> own_nodes f then id else put_state u st) sts h) u = state_of h u)" for h
    by (induction sts arbitrary: h) auto
  note g = g [of f, folded f1_def]
  let ?f2 = "f1\<lparr>f_task := (f_task f1)\<lparr>parameter_values := fold (\<lambda>(k, v). dput k v) pv (parameter_values (f_task f1))\<rparr>\<rparr>"
  have o: "outside e sts pv b f = (if b then save e ?f2 else ?f2)"
    by (simp add: outside_def f1_def Let_def)
  show "f_ids (outside e sts pv b f) = f_ids f" "f_pos (outside e sts pv b f) = f_pos f" "f_log (outside e sts pv b f) = f_log f"
    "f_phase (outside e sts pv b f) = f_phase f" "u \<in> own_nodes f \<Longrightarrow> state_of (outside e sts pv b f) u = state_of f u"
    using g by (auto simp: o)
qed

end
