(* ===== verification/SequenceRuns.thy ===== *)
theory SequenceRuns
  imports NodeSequence
begin

text \<open>
  What holds of every run of a node sequence: settled nodes are not run again, and a sequence that
  completes has settled all its nodes.
\<close>

section \<open>Nothing is done twice\<close>

definition sent_back :: "string \<Rightarrow> action list \<Rightarrow> bool" where
  "sent_back u l = (\<exists>v. SentBack v u \<in> set l)"

lemma sent_back_simps [simp]:
  "\<not> sent_back u []" "sent_back u (l @ l') = (sent_back u l \<or> sent_back u l')" "sent_back u (Started w # l) = sent_back u l"
  "sent_back u (SentBack v w # l) = (w = u \<or> sent_back u l)" "sent_back u (Notified y # l) = sent_back u l"
  by (auto simp: sent_back_def)

definition settled_for :: "string \<Rightarrow> flow \<Rightarrow> bool" where
  "settled_for u f = (\<exists>st. state_of f u = Some st \<and> inert st)"

definition untouched :: "string \<Rightarrow> flow \<Rightarrow> bool" where
  "untouched u f = (settled_for u f \<and> Started u \<notin> set (f_log f) \<and> \<not> sent_back u (f_log f))"

definition elsewhere :: "string \<Rightarrow> flow \<Rightarrow> bool" where
  "elsewhere u f =
     (case f_phase f of
        Executing a \<Rightarrow> f_ids f ! f_pos f \<noteq> u \<and> a_rejected a \<noteq> Some u \<and> a_rejected a \<noteq> Some []
      | Retrying w _ _ \<Rightarrow> f_ids f ! f_pos f \<noteq> u \<and> w \<noteq> u
      | _ \<Rightarrow> True)"

lemma untouched_simps [simp]:
  "w \<noteq> u \<Longrightarrow> untouched u (put_state w st f) = untouched u f"
  "untouched u (save e f) = untouched u f" "untouched u (ended k f) = untouched u f" "untouched u (raised x f) = untouched u f"
  "untouched u (advance f) = untouched u f" "untouched u (again f) = untouched u f"
  "untouched u (entered n f) = untouched u f" "untouched u (f\<lparr>f_phase := p\<rparr>) = untouched u f" "untouched u (f\<lparr>f_pos := i\<rparr>) = untouched u f"
  by (simp_all add: untouched_def settled_for_def)

lemma elsewhere_simps [simp]:
  "elsewhere u (ended k f)" "elsewhere u (raised x f)" "elsewhere u (advance f)" "elsewhere u (again f)"
  "f_phase f = Ready \<Longrightarrow> elsewhere u f"
  by (simp_all add: elsewhere_def)

definition aside :: "string \<Rightarrow> flow \<Rightarrow> bool" where
  "aside u f = (untouched u f \<and> elsewhere u f)"

lemma aside_after_failure: "untouched u f \<Longrightarrow> n_id n \<noteq> u \<Longrightarrow> aside u (after_failure e n st f)"
  by (rule after_failure_cases [of e n st f]) (simp_all add: aside_def)

lemma aside_approval: "untouched u f \<Longrightarrow> n_id n \<noteq> u \<Longrightarrow> aside u (approval_rejected e n st f)"
proof (rule approval_rejected_cases [of e n st f], goal_cases)
  case (2 us st')
  let ?up = "f_ids f ! (f_pos f - 1)"
  have "untouched u (put_state ?up (update_own (\<lambda>s. s\<lparr>status := ''running'', error := []\<rparr>) us) f)"
    using 2(1) by (cases "?up = u") (auto simp: untouched_def settled_for_def inert_def)
  with 2(2,5) show ?case by (simp add: aside_def elsewhere_def untouched_def settled_for_def)
qed (simp add: aside_def)

lemma aside_by_status: "untouched u f \<Longrightarrow> n_id n \<noteq> u \<Longrightarrow> aside u (by_status e n st f)"
  by (rule by_status_cases [of st e n f]) (simp_all add: aside_approval aside_after_failure, simp add: aside_def)

lemma aside_after_retry:
  "untouched u f \<Longrightarrow> nid \<noteq> u \<Longrightarrow> n_id un \<noteq> u \<Longrightarrow> aside u (after_retry e nid un down calls st f)"
  by (rule after_retry_cases [of e nid un down calls st f]) (simp_all add: aside_def)

lemma untouched_opened:
  "open_attempt e d w st calls f = (a, f') \<Longrightarrow> untouched u f \<Longrightarrow> w \<noteq> u \<Longrightarrow> untouched u f'"
  using open_attempt_form [of e d w st calls f a f'] by (auto simp: untouched_def settled_for_def)

lemma aside_redo:
  assumes "untouched u f" and "n_id n \<noteq> u" and "w \<noteq> u" and "w \<noteq> []" and "f_ids f ! f_pos f \<noteq> u"
  shows "aside u (redo_upstream e d n w st f)"
proof -
  have w: "target_of d n w = w" using assms(4) by (simp add: target_of_def)
  show ?thesis
  proof (rule redo_upstream_cases [of d n w e st f], goal_cases)
    case (4 us un r a f2)
    note o = 4(5) [unfolded w]
    have "untouched u f2" using untouched_opened [OF o] assms(1,3) by simp
    moreover have "f_ids f2 = f_ids f" "f_pos f2 = f_pos f" using open_attempt_form(1,2) [OF o] by simp_all
    ultimately show ?case using 4(6) assms(3,5) by (simp add: aside_def elsewhere_def w)
  next
    case (5 us un r)
    have "n_id un \<noteq> u" using get_node_id [OF 5(3)] assms(3) w by simp
    with 5(5) assms show ?case by (simp add: aside_after_retry w)
  qed (use assms w in \<open>simp_all add: aside_def\<close>)
qed

lemma aside_after_attempt:
  assumes "untouched u f" and "n_id n \<noteq> u" and "rejected \<noteq> Some u" and "rejected \<noteq> Some []" and "f_ids f ! f_pos f \<noteq> u"
  shows "aside u (after_attempt e d n calls rejected st f)"
proof (rule after_attempt_cases [of e d n calls rejected st f], goal_cases)
  case (2 st')
  then show ?case using assms by (simp add: aside_by_status)
next
  case (3 st' w)
  then show ?case using assms by (simp add: aside_redo)
qed (use assms in \<open>simp add: aside_def\<close>)

lemma aside_start:
  assumes "untouched u f" and "n_id n \<noteq> u" and "f_ids f ! f_pos f = n_id n"
  shows "aside u (start_node_of_sequence e d n f)"
proof (rule start_cases [of e d n f], goal_cases)
  case (2 a f2)
  then show ?case using untouched_opened [OF 2(1)] open_attempt_form [OF 2(1)] assms by (simp add: aside_def elsewhere_def)
next
  case 3
  then show ?case using assms by (simp add: aside_after_attempt)
qed (use assms in \<open>simp add: aside_def\<close>)

lemma aside_tick:
  assumes "untouched u f" and "f_phase f = Ready"
  shows "aside u (tick e d disabled f)"
proof (rule tick_cases [of f e d disabled], goal_cases)
  case (3 n st)
  then show ?case using assms
    by (cases "f_ids f ! f_pos f = u") (auto simp: aside_def untouched_def settled_for_def inert_def normalize_node_status_def)
next
  case (4 n st)
  then show ?case using assms
    by (cases "f_ids f ! f_pos f = u") (auto simp: aside_def untouched_def settled_for_def inert_def normalize_twice)
next
  case (6 n)
  then have "n_id n \<noteq> u" using get_node_id [of d "f_ids f ! f_pos f" n] assms(1) by (auto simp: untouched_def settled_for_def)
  with 6 assms get_node_id [of d "f_ids f ! f_pos f" n] show ?case by (simp add: aside_start)
qed (use assms in \<open>simp_all add: aside_def\<close>)

text \<open>What each part of a step adds to the log.\<close>

lemma log_after_failure [simp]: "f_log (after_failure e n st f) = f_log f"
  by (rule after_failure_cases [of e n st f]) simp_all

lemma log_approval: "f_log (approval_rejected e n st f) \<in> {f_log f} \<union> {f_log f @ [Notified v] |v. True}"
  by (rule approval_rejected_cases [of e n st f]) auto

lemma log_by_status: "f_log (by_status e n st f) \<in> {f_log f} \<union> {f_log f @ [Notified v] |v. True}"
  by (rule by_status_cases [of st e n f]) (use log_approval [of e n st f] in auto)

lemma log_after_retry [simp]: "f_log (after_retry e nid un down calls st f) = f_log f"
  by (rule after_retry_cases [of e nid un down calls st f]) simp_all

lemma log_redo:
  "f_log (redo_upstream e d n w st f) \<in> {f_log f, f_log f @ [Started (target_of d n w)]} \<union> {f_log f @ [Notified v] |v. True}"
proof (rule redo_upstream_cases [of d n w e st f], goal_cases)
  case 1
  then show ?case using log_by_status [of e n st f] by auto
next
  case (4 us un r a f2)
  then show ?case using open_attempt_form(3) [OF 4(5)] by simp
qed simp_all

lemma log_after_attempt:
  "\<exists>l. f_log (after_attempt e d n calls rejected st f) = f_log f @ l \<and>
     (l = [] \<or> (\<exists>v. l = [Notified v]) \<or> (\<exists>u. rejected = Some u \<and> l = [Started (target_of d n u)]))"
proof (rule after_attempt_cases [of e d n calls rejected st f], goal_cases)
  case (2 st')
  then show ?case using log_by_status [of e n st' "put_state (n_id n) st' (put_state (n_id n) st f)"] by auto
next
  case (3 st' u)
  then show ?case using log_redo [of e d n u st' "put_state (n_id n) st' (put_state (n_id n) st f)"] by auto
qed simp_all

lemma log_unknown_start:
  "f_log (after_attempt e d n calls None (unknown_type_state e n st) f) = f_log f"
proof (rule after_attempt_cases [of e d n calls None "unknown_type_state e n st" f], goal_cases)
  case (2 st')
  have "status (own st') = ''failed''" using audit_counters [OF 2(1)] by (simp add: unknown_type_state_def)
  then show ?case using 2(3) by (simp add: by_status_def)
qed simp_all

lemma log_start: "f_log (start_node_of_sequence e d n f) \<in> {f_log f, f_log f @ [Started (n_id n)]}"
proof (rule start_cases [of e d n f], goal_cases)
  case (2 a f2)
  then show ?case using open_attempt_form(3) [OF 2(1)] by simp
qed (simp_all add: log_unknown_start)

lemma log_tick: "f_log (tick e d disabled f) \<in> {f_log f, f_log f @ [Started (f_ids f ! f_pos f)]}"
proof (rule tick_cases [of f e d disabled], goal_cases)
  case (6 n)
  then show ?case using log_start [of e d n f] get_node_id [OF 6(2)] by simp
qed simp_all

text \<open>The steps of a plugin as cases: what it did, and the flow it did it to.\<close>

lemma executing_cases:
  obtains "executing_step d e n a x f = f"
  | w cp a' f' where "plugin_writes e (n_id n) w cp a f = (a', f')" "executing_step d e n a x f = f'\<lparr>f_phase := Executing a'\<rparr>"
  | reason target r a' f' where "on_reject_upstream e d n reason target a f = (r, a', f')"
      "executing_step d e n a x f = f'\<lparr>f_phase := Executing a'\<rparr>"
  | r y f' where "x = PluginReturns r" "end_attempt e (n_id n) a r f = (Inl y, f')" "executing_step d e n a x f = raised y f'"
  | r st f' where "x = PluginReturns r" "end_attempt e (n_id n) a r f = (Inr st, f')"
      "executing_step d e n a x f = after_attempt e d n (a_calls a) (a_rejected a) st f'"
proof (cases x)
  case (PluginWrites w cp)
  obtain a' f' where "plugin_writes e (n_id n) w cp a f = (a', f')" by force
  with that(2) PluginWrites show ?thesis by (simp add: executing_step_def)
next
  case (RejectUpstream reason target)
  obtain r a' f' where "on_reject_upstream e d n reason target a f = (r, a', f')" by (metis prod.collapse)
  with that(3) RejectUpstream show ?thesis by (simp add: executing_step_def)
next
  case (PluginReturns r)
  obtain z f' where z: "end_attempt e (n_id n) a r f = (z, f')" by force
  show ?thesis
    by (cases z) (use that(4,5) PluginReturns z in \<open>simp_all add: executing_step_def\<close>)
qed (use that(1) in \<open>simp_all add: executing_step_def\<close>)

lemma retrying_cases:
  obtains "retrying_step e nid un a down x f = f"
  | w cp a' f' where "plugin_writes e (n_id un) w cp a f = (a', f')" "retrying_step e nid un a down x f = f'\<lparr>f_phase := Retrying (n_id un) a' down\<rparr>"
  | r y f' where "x = PluginReturns r" "end_attempt e (n_id un) a r f = (Inl y, f')" "retrying_step e nid un a down x f = raised y f'"
  | r st f' where "x = PluginReturns r" "end_attempt e (n_id un) a r f = (Inr st, f')"
      "retrying_step e nid un a down x f = after_retry e nid un down (a_calls a) st f'"
proof (cases x)
  case (PluginWrites w cp)
  obtain a' f' where "plugin_writes e (n_id un) w cp a f = (a', f')" by force
  with that(2) PluginWrites show ?thesis by (simp add: retrying_step_def)
next
  case (PluginReturns r)
  obtain z f' where z: "end_attempt e (n_id un) a r f = (z, f')" by force
  show ?thesis
    by (cases z) (use that(3,4) PluginReturns z in \<open>simp_all add: retrying_step_def\<close>)
qed (use that(1) in \<open>simp_all add: retrying_step_def\<close>)

text \<open>A step of the machine: it does nothing, another branch moves, or one of the three phases does.\<close>

lemma seq_step_cases:
  obtains "seq_step d disabled f (e, x) = f"
  | sts pv b where "x = Outside sts pv b" "seq_step d disabled f (e, x) = outside e sts pv b f"
  | "f_phase f = Ready" "seq_step d disabled f (e, x) = tick e d disabled f"
  | a n where "f_phase f = Executing a" "get_node d (f_ids f ! f_pos f) = Some n" "n_id n = f_ids f ! f_pos f"
      "seq_step d disabled f (e, x) = executing_step d e n a x f"
  | u a down un where "f_phase f = Retrying u a down" "get_node d u = Some un" "n_id un = u"
      "seq_step d disabled f (e, x) = retrying_step e (f_ids f ! f_pos f) un a down x f"
proof (cases "\<exists>sts pv b. x = Outside sts pv b")
  case True
  then show ?thesis using that(2) by (auto simp: seq_step_def)
next
  case False
  then have s: "seq_step d disabled f (e, x) =
      (case f_phase f of
         Ready \<Rightarrow> (case x of Tick \<Rightarrow> tick e d disabled f | _ \<Rightarrow> f)
       | Executing a \<Rightarrow> (case get_node d (f_ids f ! f_pos f) of None \<Rightarrow> f | Some n \<Rightarrow> executing_step d e n a x f)
       | Retrying u a down \<Rightarrow> (case get_node d u of None \<Rightarrow> f | Some un \<Rightarrow> retrying_step e (f_ids f ! f_pos f) un a down x f)
       | Ended _ \<Rightarrow> f | Raised _ \<Rightarrow> f)"
    by (cases x; cases "f_phase f") (simp_all add: seq_step_def split: option.split)
  show ?thesis
  proof (cases "f_phase f")
    case Ready
    then show ?thesis using s that(1,3) by (cases x) simp_all
  next
    case (Executing a)
    then show ?thesis using s that(1,4) get_node_id by (cases "get_node d (f_ids f ! f_pos f)") simp_all
  next
    case (Retrying u a down)
    then show ?thesis using s that(1,5) get_node_id by (cases "get_node d u") simp_all
  qed (use s that(1) in simp_all)
qed

lemma log_executing:
  "\<exists>l. f_log (executing_step d e n a x f) = f_log f @ l"
proof (rule executing_cases [of d e n a x f], goal_cases)
  case (2 w cp a' f')
  then show ?case using plugin_writes_form(7) [OF 2(1)] by simp
next
  case (3 reason target r a' f')
  show ?case using 3 by (cases rule: on_reject_cases [of e d n reason target a f]) auto
next
  case (4 r y f')
  then show ?case using end_attempt_form(3) [OF 4(2)] by simp
next
  case (5 r st f')
  then show ?case
    using end_attempt_form(3) [OF 5(2)] log_after_attempt [of e d n "a_calls a" "a_rejected a" st f'] by auto
qed simp

lemma log_retrying [simp]: "f_log (retrying_step e nid un a down x f) = f_log f"
proof (rule retrying_cases [of e nid un a down x f], goal_cases)
  case (2 w cp a' f')
  then show ?case using plugin_writes_form(7) [OF 2(1)] by simp
next
  case (3 r y f')
  then show ?case using end_attempt_form(3) [OF 3(2)] by simp
next
  case (4 r st f')
  then show ?case using end_attempt_form(3) [OF 4(2)] by simp
qed simp

lemma log_grows: "\<exists>l. f_log (seq_step d disabled f (e, x)) = f_log f @ l"
proof (rule seq_step_cases [of d disabled f e x], goal_cases)
  case 3
  then show ?case using log_tick [of e d disabled f] by auto
next
  case (4 a n)
  then show ?case using log_executing [of d e n a x f] by simp
qed (simp_all add: outside_form)

lemma log_grows_run: "\<exists>l. f_log (run_sequence d disabled f evs) = f_log f @ l"
proof (induction evs arbitrary: f)
  case (Cons ev evs)
  obtain e x where "ev = (e, x)" by force
  then show ?case using Cons.IH [of "seq_step d disabled f ev"] log_grows [of d disabled f e x] by auto
qed simp

lemma aside_executing:
  assumes "untouched u f" and "f_ids f ! f_pos f = n_id n" and "n_id n \<noteq> u" and "a_rejected a \<noteq> Some u" and "a_rejected a \<noteq> Some []"
    and "get_node d [] = None" and "f_phase f = Executing a"
  shows "sent_back u (f_log (executing_step d e n a x f)) \<or> aside u (executing_step d e n a x f)"
proof (rule executing_cases [of d e n a x f], goal_cases)
  case 1
  then show ?case using assms by (simp add: aside_def elsewhere_def)
next
  case (2 w cp a' f')
  note p = plugin_writes_form [OF 2(1)]
  have "untouched u f'" using assms(1,3) p(7) p(8) [of u] by (simp add: untouched_def settled_for_def)
  then show ?case using 2(2) assms p(2,5,6) by (simp add: aside_def elsewhere_def)
next
  case (3 reason target r a' f')
  show ?case
  proof (cases rule: on_reject_cases [of e d n reason target a f])
    case (1 r')
    then show ?thesis using 3 assms by (simp add: aside_def elsewhere_def)
  next
    case (2 r' up us us' m b g)
    have g: "a' = b" "f' = g" using 3(1) 2(1) by simp_all
    have up: "up \<noteq> []" using 2(4) assms(6) by auto
    have log: "f_log g = f_log f @ [SentBack (n_id n) up]" "f_ids g = f_ids f" "f_pos g = f_pos f" using 2(13) by auto
    show ?thesis
    proof (cases "up = u")
      case True
      then show ?thesis using 3(2) g log(1) by simp
    next
      case False
      have "state_of g u = state_of f u" using 2(13) False assms(3) by auto
      then have "untouched u g" using assms(1) False log(1) by (auto simp: untouched_def settled_for_def)
      then show ?thesis using 3(2) g log False up 2(8) assms(2,3) by (simp add: aside_def elsewhere_def)
    qed
  qed
next
  case (4 r y f')
  note ea = end_attempt_form [OF 4(2)]
  have "untouched u f'" using assms(1,3) ea(3) ea(4) [of u] by (simp add: untouched_def settled_for_def)
  then show ?case using 4(3) by (simp add: aside_def)
next
  case (5 r st f')
  note ea = end_attempt_form [OF 5(2)]
  have "untouched u f'" using assms(1,3) ea(3) ea(4) [of u] by (simp add: untouched_def settled_for_def)
  then show ?case using 5(3) assms ea(1,2) by (simp add: aside_after_attempt)
qed

lemma aside_retrying:
  assumes "untouched u f" and "nid = f_ids f ! f_pos f" and "nid \<noteq> u" and "n_id un \<noteq> u" and "f_phase f = Retrying (n_id un) a down"
  shows "aside u (retrying_step e nid un a down x f)"
proof (rule retrying_cases [of e nid un a down x f], goal_cases)
  case 1
  then show ?case using assms by (simp add: aside_def elsewhere_def)
next
  case (2 w cp a' f')
  note p = plugin_writes_form [OF 2(1)]
  have "untouched u f'" using assms(1,4) p(7) p(8) [of u] by (simp add: untouched_def settled_for_def)
  then show ?case using 2(2) assms p(5,6) by (simp add: aside_def elsewhere_def)
next
  case (3 r y f')
  note ea = end_attempt_form [OF 3(2)]
  have "untouched u f'" using assms(1,4) ea(3) ea(4) [of u] by (simp add: untouched_def settled_for_def)
  then show ?case using 3(3) by (simp add: aside_def)
next
  case (4 r st f')
  note ea = end_attempt_form [OF 4(2)]
  have "untouched u f'" using assms(1,4) ea(3) ea(4) [of u] by (simp add: untouched_def settled_for_def)
  then show ?case using 4(3) assms by (simp add: aside_after_retry)
qed

lemma aside_step:
  assumes "aside u f" and "u \<in> set (f_ids f)" and "get_node d [] = None"
  shows "sent_back u (f_log (seq_step d disabled f (e, x))) \<or> aside u (seq_step d disabled f (e, x))"
proof (rule seq_step_cases [of d disabled f e x], goal_cases)
  case (2 sts pv b)
  have "u \<in> own_nodes f" using assms(2) by (simp add: own_nodes_def)
  then have "untouched u (outside e sts pv b f)"
    using assms(1) by (simp add: aside_def untouched_def settled_for_def outside_form)
  then show ?case using 2(2) assms(1) by (cases "f_phase f") (simp_all add: aside_def elsewhere_def outside_form)
next
  case 3
  have "aside u (tick e d disabled f)" using assms(1) 3(1) by (intro aside_tick) (simp_all add: aside_def)
  with 3(2) show ?case by simp
next
  case (4 a n)
  then show ?case using assms(1,3) aside_executing [of u f n a d e x] by (simp add: aside_def elsewhere_def)
next
  case (5 w a down un)
  then show ?case using assms(1) aside_retrying [of u f "f_ids f ! f_pos f" un a down e x] by (simp add: aside_def elsewhere_def)
qed (use assms in simp)

lemma ids_after_failure [simp]: "f_ids (after_failure e n st f) = f_ids f"
  by (rule after_failure_cases [of e n st f]) simp_all

lemma ids_approval [simp]: "f_ids (approval_rejected e n st f) = f_ids f"
  by (rule approval_rejected_cases [of e n st f]) simp_all

lemma ids_by_status [simp]: "f_ids (by_status e n st f) = f_ids f"
  by (rule by_status_cases [of st e n f]) simp_all

lemma ids_after_retry [simp]: "f_ids (after_retry e nid un down calls st f) = f_ids f"
  by (rule after_retry_cases [of e nid un down calls st f]) simp_all

lemma ids_redo [simp]: "f_ids (redo_upstream e d n w st f) = f_ids f"
proof (rule redo_upstream_cases [of d n w e st f], goal_cases)
  case (4 us un r a f2)
  then show ?case using open_attempt_form(1) [OF 4(5)] by simp
qed simp_all

lemma ids_after_attempt [simp]: "f_ids (after_attempt e d n calls rejected st f) = f_ids f"
  by (rule after_attempt_cases [of e d n calls rejected st f]) simp_all

lemma ids_start [simp]: "f_ids (start_node_of_sequence e d n f) = f_ids f"
proof (rule start_cases [of e d n f], goal_cases)
  case (2 a f2)
  then show ?case using open_attempt_form(1) [OF 2(1)] by simp
qed simp_all

lemma ids_tick [simp]: "f_ids (tick e d disabled f) = f_ids f"
  by (rule tick_cases [of f e d disabled]) simp_all

lemma ids_executing [simp]: "f_ids (executing_step d e n a x f) = f_ids f"
proof (rule executing_cases [of d e n a x f], goal_cases)
  case (2 w cp a' f')
  then show ?case using plugin_writes_form(5) [OF 2(1)] by simp
next
  case (3 reason target r a' f')
  show ?case using 3 by (cases rule: on_reject_cases [of e d n reason target a f]) auto
next
  case (4 r y f')
  then show ?case using end_attempt_form(1) [OF 4(2)] by simp
next
  case (5 r st f')
  then show ?case using end_attempt_form(1) [OF 5(2)] by simp
qed simp

lemma ids_retrying [simp]: "f_ids (retrying_step e nid un a down x f) = f_ids f"
proof (rule retrying_cases [of e nid un a down x f], goal_cases)
  case (2 w cp a' f')
  then show ?case using plugin_writes_form(5) [OF 2(1)] by simp
next
  case (3 r y f')
  then show ?case using end_attempt_form(1) [OF 3(2)] by simp
next
  case (4 r st f')
  then show ?case using end_attempt_form(1) [OF 4(2)] by simp
qed simp

lemma step_ids [simp]: "f_ids (seq_step d disabled f ev) = f_ids f"
proof -
  obtain e x where "ev = (e, x)" by force
  then show ?thesis by (cases rule: seq_step_cases [of d disabled f e x]) (simp_all add: outside_form)
qed

lemma run_ids [simp]: "f_ids (run_sequence d disabled f evs) = f_ids f"
  by (induction evs arbitrary: f) simp_all

lemma aside_run:
  assumes "aside u f" and "u \<in> set (f_ids f)" and "get_node d [] = None" and "\<not> sent_back u (f_log (run_sequence d disabled f evs))"
  shows "aside u (run_sequence d disabled f evs)"
  using assms(1,2,4)
proof (induction evs arbitrary: f)
  case (Cons ev evs)
  obtain e x where ev: "ev = (e, x)" by force
  have "\<not> sent_back u (f_log (seq_step d disabled f ev))"
    using Cons.prems(3) log_grows_run [where f = "seq_step d disabled f ev" and evs = evs and d = d and disabled = disabled] by auto
  then have "aside u (seq_step d disabled f ev)" using aside_step [OF Cons.prems(1,2) assms(3), of disabled e x] by (simp add: ev)
  with Cons.IH Cons.prems(2,3) show ?case by simp
qed simp

text \<open>
  C8. A run of a node sequence redoes nothing: a node of it that is finished, failed, waiting for
  a retry or running when the sequence starts is never started, whatever the plugins of the other
  nodes do and return, however other branches interleave, however often the approvals reject,
  unless a node after it sends it back.
\<close>

theorem settled_nodes_not_rerun:
  assumes "u \<in> set ids" and "dget (node_states t) u = Some st" and "inert st" and "get_node d [] = None"
    and "\<not> sent_back u (f_log (run_sequence d disabled (start_sequence t ids) evs))"
  shows "Started u \<notin> set (f_log (run_sequence d disabled (start_sequence t ids) evs))"
proof -
  have "aside u (start_sequence t ids)"
    using assms(2,3) by (auto simp: aside_def elsewhere_def untouched_def settled_for_def start_sequence_def state_of_def)
  moreover have "u \<in> set (f_ids (start_sequence t ids))" using assms(1) by (simp add: start_sequence_def)
  ultimately have "aside u (run_sequence d disabled (start_sequence t ids) evs)" using assms(4,5) by (rule aside_run)
  then show ?thesis by (simp add: aside_def untouched_def)
qed

section \<open>Completion\<close>

definition node_settled :: "node_state \<Rightarrow> bool" where
  "node_settled st = (normalize_node_status (status (own st)) \<in> {''skipped'', ''completed''})"

definition node_done :: "workflow_def \<Rightarrow> flow \<Rightarrow> string \<Rightarrow> bool" where
  "node_done d f u = (get_node d u = None \<or> (\<exists>st. state_of f u = Some st \<and> node_settled st))"

text \<open>The first \<open>k\<close> nodes are done, but perhaps for one that is being redone.\<close>

definition done_before :: "workflow_def \<Rightarrow> nat \<Rightarrow> string option \<Rightarrow> flow \<Rightarrow> bool" where
  "done_before d k u f = (\<forall>j<k. node_done d f (f_ids f ! j) \<or> u = Some (f_ids f ! j))"

definition on_course :: "workflow_def \<Rightarrow> flow \<Rightarrow> bool" where
  "on_course d f =
     (distinct (f_ids f) \<and>
      (case f_phase f of
         Ready \<Rightarrow> f_pos f \<le> length (f_ids f) \<and> done_before d (f_pos f) None f
       | Executing a \<Rightarrow> f_pos f < length (f_ids f) \<and> done_before d (f_pos f) (a_rejected a) f \<and> a_rejected a \<noteq> Some [] \<and>
           (a_rejected a \<noteq> None \<longrightarrow> (\<exists>u. sent_back u (f_log f)))
       | Retrying u a down \<Rightarrow> f_pos f < length (f_ids f) \<and> done_before d (f_pos f) (Some u) f \<and>
           (\<exists>u. sent_back u (f_log f))
       | Ended Completed \<Rightarrow> done_before d (length (f_ids f)) None f
       | _ \<Rightarrow> True))"

lemma done_before_put:
  "done_before d k x f \<Longrightarrow> (\<forall>j<k. f_ids f ! j \<noteq> u) \<or> node_settled st \<or> x = Some u \<Longrightarrow> done_before d k x (put_state u st f)"
  by (auto simp: done_before_def node_done_def)

lemma done_before_simps [simp]:
  "done_before d k x (save e f) = done_before d k x f" "done_before d k x (ended o' f) = done_before d k x f"
  "done_before d k x (raised y f) = done_before d k x f" "done_before d k x (advance f) = done_before d k x f"
  "done_before d k x (again f) = done_before d k x f" "done_before d k x (entered n f) = done_before d k x f"
  "done_before d k x (f\<lparr>f_phase := p\<rparr>) = done_before d k x f" "done_before d k x (f\<lparr>f_log := l\<rparr>) = done_before d k x f" "done_before d k x (f\<lparr>f_pos := i\<rparr>) = done_before d k x f"
  by (simp_all add: done_before_def node_done_def)

lemma done_before_mono: "done_before d k x f \<Longrightarrow> i \<le> k \<Longrightarrow> done_before d i x f"
  by (simp add: done_before_def)

lemma done_before_Suc: "done_before d (Suc k) None f \<longleftrightarrow> done_before d k None f \<and> node_done d f (f_ids f ! k)"
  by (auto simp: done_before_def less_Suc_eq)

lemma done_before_redone:
  "done_before d k (Some u) f \<Longrightarrow> node_done d f u \<Longrightarrow> done_before d k None f"
  by (auto simp: done_before_def)

lemma done_before_some: "done_before d k None f \<Longrightarrow> done_before d k x f"
  by (auto simp: done_before_def)

text \<open>The loop is at the node \<open>nid\<close>, and what came before is done.\<close>

definition at_node :: "workflow_def \<Rightarrow> string \<Rightarrow> string option \<Rightarrow> flow \<Rightarrow> bool" where
  "at_node d nid x f = (distinct (f_ids f) \<and> f_pos f < length (f_ids f) \<and> f_ids f ! f_pos f = nid \<and> done_before d (f_pos f) x f)"

lemma at_node_simps [simp]:
  "at_node d nid x (save e f) = at_node d nid x f" "at_node d nid x (entered n f) = at_node d nid x f"
  "at_node d nid x (f\<lparr>f_phase := p\<rparr>) = at_node d nid x f"
  by (simp_all add: at_node_def)

lemma earlier_not_current: "distinct ids \<Longrightarrow> k < length ids \<Longrightarrow> j < k \<Longrightarrow> ids ! j \<noteq> ids ! k"
  by (simp add: nth_eq_iff_index_eq)

lemma at_node_put_self: "at_node d nid x f \<Longrightarrow> at_node d nid x (put_state nid st f)"
  by (auto simp: at_node_def earlier_not_current intro!: done_before_put)

lemma at_node_put_exception: "at_node d nid (Some u) f \<Longrightarrow> at_node d nid (Some u) (put_state u st f)"
  by (auto simp: at_node_def intro!: done_before_put)

lemma at_node_put_settled: "at_node d nid x f \<Longrightarrow> node_settled st \<Longrightarrow> at_node d nid x (put_state u st f)"
  by (auto simp: at_node_def intro!: done_before_put)

lemma at_node_redone: "at_node d nid (Some u) f \<Longrightarrow> node_settled st \<Longrightarrow> at_node d nid None (put_state u st f)"
  by (auto simp: at_node_def done_before_def node_done_def)

lemma on_course_stop: "distinct (f_ids f) \<Longrightarrow> k \<noteq> Completed \<Longrightarrow> on_course d (ended k f)" "distinct (f_ids f) \<Longrightarrow> on_course d (raised y f)"
  by (cases k) (simp_all add: on_course_def)

lemma on_course_advance: "at_node d nid None f \<Longrightarrow> node_done d f nid \<Longrightarrow> on_course d (advance f)"
  by (auto simp: on_course_def at_node_def done_before_Suc)

lemma on_course_again: "at_node d nid None f \<Longrightarrow> on_course d (again f)"
  by (auto simp: on_course_def at_node_def)

lemma skip_settles: "apply_failure_skip c st = Inr st' \<Longrightarrow> node_settled st'"
  by (auto simp: apply_failure_skip_def node_settled_def normalize_node_status_def split: if_split_asm)

lemma on_course_after_failure:
  assumes "at_node d (n_id n) None f"
  shows "on_course d (after_failure e n st f)"
proof (rule after_failure_cases [of e n st f], goal_cases)
  case (3 st')
  then have "node_settled st'" using failed_verdict_state [OF 3(2)] skip_settles by (metis verdict.distinct(1,5))
  then show ?case using 3(1) at_node_put_self [OF assms]
    by (auto intro!: on_course_advance simp: node_done_def)
qed (use assms in \<open>auto simp: at_node_def intro!: on_course_stop\<close>)

lemma on_course_approval:
  assumes "at_node d (n_id n) None f"
  shows "on_course d (approval_rejected e n st f)"
proof (rule approval_rejected_cases [of e n st f], goal_cases)
  case (2 us st')
  let ?k = "f_pos f - 1"
  have d: "distinct (f_ids f)" "f_pos f < length (f_ids f)" "f_ids f ! f_pos f = n_id n" "done_before d (f_pos f) None f"
    using assms by (simp_all add: at_node_def)
  have "done_before d ?k None f" using d(4) by (rule done_before_mono) simp
  then have "done_before d ?k None (put_state (f_ids f ! ?k) (update_own (\<lambda>s. s\<lparr>status := ''running'', error := []\<rparr>) us) f)"
    by (rule done_before_put) (use d 2(1) in \<open>auto simp: nth_eq_iff_index_eq\<close>)
  then have "done_before d ?k None (put_state (n_id n) st' (put_state (f_ids f ! ?k) (update_own (\<lambda>s. s\<lparr>status := ''running'', error := []\<rparr>) us) f))"
    by (rule done_before_put) (use d 2(1) in \<open>auto simp: nth_eq_iff_index_eq simp flip: d(3)\<close>)
  then show ?case using 2(3) d by (simp add: on_course_def)
qed (use assms in \<open>auto simp: at_node_def intro!: on_course_stop\<close>)

lemma on_course_by_status:
  assumes "at_node d (n_id n) None f" and "status (own st) \<notin> {''failed'', ''rejected''} \<longrightarrow> node_done d f (n_id n)"
  shows "on_course d (by_status e n st f)"
proof (rule by_status_cases [of st e n f], goal_cases)
  case 3
  then show ?case using assms by (auto intro!: on_course_advance simp: node_done_def)
qed (use assms(1) on_course_after_failure on_course_approval in auto)

lemma on_course_after_retry:
  assumes "at_node d nid (Some (n_id un)) f" and "status (own st) = ''failed'' \<or> node_settled st"
  shows "on_course d (after_retry e nid un down calls st f)"
proof (rule after_retry_cases [of e nid un down calls st f], goal_cases)
  case (2 st')
  have "node_settled st'" using 2(1,2) assms(2) audit_counters [OF 2(1)] by (auto simp: node_settled_def)
  then have "at_node d nid None (put_state nid (reset_downstream down) (put_state (n_id un) st' f))"
    by (intro at_node_put_self at_node_redone [OF assms(1)])
  then show ?case using 2(3) on_course_again by simp
next
  case (5 st' st2 st3)
  have "node_settled st2" using failed_verdict_state [OF 5(3)] skip_settles by (metis verdict.distinct(1,5))
  then have a: "at_node d nid None (put_state (n_id un) st2 (put_state nid (reset_downstream down) (put_state (n_id un) st' f)))"
    by (intro at_node_redone at_node_put_self at_node_put_exception assms(1))
  have "node_settled st3" using 5(4) by (simp add: node_settled_def normalize_node_status_def)
  then show ?case using 5(6) at_node_put_self [of d nid None "save e (put_state (n_id un) st2 (put_state nid (reset_downstream down) (put_state (n_id un) st' f)))" st3] a by (auto intro!: on_course_advance simp: node_done_def)
next
  case (4 st' v st2)
  then show ?case using assms(1) by (auto simp: at_node_def intro!: on_course_stop)
qed (use assms(1) in \<open>auto simp: at_node_def intro!: on_course_stop\<close>)

lemma on_course_redo:
  assumes "at_node d (n_id n) (Some u) f" and "u \<noteq> []" and "\<exists>w. sent_back w (f_log f)"
  shows "on_course d (redo_upstream e d n u st f)"
proof -
  have u: "target_of d n u = u" using assms(2) by (simp add: target_of_def)
  have d: "distinct (f_ids f)" using assms(1) by (simp add: at_node_def)
  show ?thesis
  proof (rule redo_upstream_cases [of d n u e st f], goal_cases)
    case (4 us un r a f2)
    note o = open_attempt_form [OF 4(5) [unfolded u]]
    have "at_node d (n_id n) (Some u) (put_state u (a_state a) f)" using assms(1) by (rule at_node_put_exception)
    then have "done_before d (f_pos f2) (Some u) f2" using o(1,2,4) by (auto simp: at_node_def done_before_def node_done_def)
    then show ?case using 4(6) o(1-3) assms(1,3) by (auto simp: on_course_def u at_node_def)
  next
    case (5 us un r)
    have un: "n_id un = u" using get_node_id [OF 5(3)] u by simp
    have "at_node d (n_id n) (Some (n_id un)) (put_state u (unknown_type_state e un r) (save e (put_state u r f)))"
      using assms(1) by (simp add: un at_node_put_exception)
    then have "on_course d (after_retry e (n_id n) un st (call_ids e us) (unknown_type_state e un r)
        (put_state u (unknown_type_state e un r) (save e (put_state u r f))))"
      by (rule on_course_after_retry) (simp add: unknown_type_state_def)
    then show ?case using 5(5) by (simp add: u)
  qed (use assms d u in \<open>auto intro!: on_course_stop\<close>)
qed

lemma at_node_cong:
  assumes "at_node d nid x f" and "f_ids f' = f_ids f" and "f_pos f' = f_pos f" and "\<And>v. v \<noteq> nid \<Longrightarrow> state_of f' v = state_of f v"
  shows "at_node d nid x f'"
proof -
  have "f_ids f ! j \<noteq> nid" if "j < f_pos f" for j
    using earlier_not_current [of "f_ids f" "f_pos f" j] that assms(1) by (auto simp: at_node_def)
  with assms show ?thesis by (auto simp: at_node_def done_before_def node_done_def)
qed

text \<open>What a plugin may return: one of the four results, a rejection only where no node was sent back.\<close>

definition plain_result :: "flow \<Rightarrow> string \<Rightarrow> bool" where
  "plain_result f s =
     (normalize_node_status s \<in> {''completed'', ''skipped'', ''failed''} \<or>
      normalize_node_status s = ''rejected'' \<and> (\<forall>u. \<not> sent_back u (f_log f)))"

lemma on_course_after_attempt:
  assumes "at_node d (n_id n) rejected f" and "rejected \<noteq> Some []" and "rejected \<noteq> None \<longrightarrow> (\<exists>w. sent_back w (f_log f))"
    and "status (own st) \<in> {''failed'', ''rejected''} \<or> node_settled st"
  shows "on_course d (after_attempt e d n calls rejected st f)"
proof (rule after_attempt_cases [of e d n calls rejected st f], goal_cases)
  case (1 x)
  then show ?case using assms(1) by (auto simp: at_node_def intro!: on_course_stop)
next
  case (2 st')
  have "at_node d (n_id n) None (put_state (n_id n) st' (put_state (n_id n) st f))"
    using assms(1) 2(2) by (intro at_node_put_self) simp
  moreover have "status (own st') = status (own st)" using audit_counters [OF 2(1)] by simp
  ultimately show ?case using 2(3) assms(4)
    by (auto intro!: on_course_by_status simp: node_done_def node_settled_def)
next
  case (3 st' u)
  have "at_node d (n_id n) (Some u) (put_state (n_id n) st' (put_state (n_id n) st f))"
    using assms(1) 3(2) by (intro at_node_put_self) simp
  then show ?case using 3(2,3) assms(2,3) by (auto intro!: on_course_redo)
qed

lemma on_course_start:
  assumes "at_node d (n_id n) None f"
  shows "on_course d (start_node_of_sequence e d n f)"
proof -
  let ?st = "with_status ''running'' (entry_state n f)"
  have a: "at_node d (n_id n) None (put_state (n_id n) ?st (entered n f))"
    using assms by (intro at_node_put_self) simp
  show ?thesis
  proof (rule start_cases [of e d n f], goal_cases)
    case (1 x)
    then show ?case using a by (auto simp: at_node_def intro!: on_course_stop)
  next
    case (2 g f2)
    note o = open_attempt_form [OF 2(1)]
    have "at_node d (n_id n) None f2" using o(1,2,4) by (intro at_node_cong [OF a]) auto
    then show ?case using 2(2) o(5) by (auto simp: on_course_def at_node_def)
  next
    case 3
    have "on_course d (after_attempt e d n (call_ids e ?st) None (unknown_type_state e n ?st) (put_state (n_id n) ?st (entered n f)))"
      using a by (rule on_course_after_attempt) (simp_all add: unknown_type_state_def)
    then show ?case by (simp add: 3)
  qed
qed

lemma on_course_tick:
  assumes "on_course d f" and "f_phase f = Ready"
  shows "on_course d (tick e d disabled f)"
proof -
  let ?nid = "f_ids f ! f_pos f"
  have f: "distinct (f_ids f)" "f_pos f \<le> length (f_ids f)" "done_before d (f_pos f) None f"
    using assms by (simp_all add: on_course_def)
  have a: "at_node d ?nid None f" if "f_pos f < length (f_ids f)" using f that by (simp add: at_node_def)
  show ?thesis
  proof (rule tick_cases [of f e d disabled], goal_cases)
    case 1
    then have "f_pos f = length (f_ids f)" using f(2) by simp
    then show ?case using 1(2) f by (simp add: on_course_def)
  next
    case 2
    then show ?case using a by (auto intro!: on_course_advance simp: node_done_def)
  next
    case (3 n st)
    then have "at_node d ?nid None (put_state ?nid st f)" using a by (intro at_node_put_self) simp
    then show ?case using 3(3,5) by (auto intro!: on_course_advance simp: node_done_def node_settled_def normalize_node_status_def)
  next
    case (4 n st)
    let ?st = "with_status (normalize_node_status (status (own st))) st"
    have "at_node d ?nid None (put_state ?nid ?st f)" using a 4(1) by (intro at_node_put_self) simp
    then show ?case using 4(4,5) by (auto intro!: on_course_advance simp: node_done_def node_settled_def normalize_node_status_def)
  next
    case (5 n st k)
    then show ?case using f(1) on_course_stop(1) by simp
  next
    case (6 n)
    then have "at_node d (n_id n) None f" using a get_node_id [OF 6(2)] by simp
    then show ?case using 6(4) by (simp add: on_course_start)
  qed
qed

lemma on_course_executing:
  assumes "at_node d (n_id n) (a_rejected a) f" and "a_rejected a \<noteq> Some []"
    and "a_rejected a \<noteq> None \<longrightarrow> (\<exists>w. sent_back w (f_log f))" and "get_node d [] = None" and "f_phase f = Executing a"
    and "\<forall>r. x = PluginReturns r \<longrightarrow> plain_result f (nr_status r)"
  shows "on_course d (executing_step d e n a x f)"
proof (rule executing_cases [of d e n a x f], goal_cases)
  case 1
  then show ?case using assms by (auto simp: on_course_def at_node_def)
next
  case (2 w cp a' f')
  note p = plugin_writes_form [OF 2(1)]
  have "at_node d (n_id n) (a_rejected a) f'" using p(5,6,8) by (intro at_node_cong [OF assms(1)])
  then show ?case using 2(2) assms(2,3) p(2,7) by (auto simp: on_course_def at_node_def)
next
  case (3 reason target r a' f')
  show ?case
  proof (cases rule: on_reject_cases [of e d n reason target a f])
    case (1 r')
    then show ?thesis using 3 assms by (auto simp: on_course_def at_node_def)
  next
    case (2 r' up us us' m b g)
    have g: "a' = b" "f' = g" using 3(1) 2(1) by simp_all
    have up: "up \<noteq> []" using 2(4) assms(4) by auto
    have "at_node d (n_id n) (Some up) (f\<lparr>f_log := f_log f @ [SentBack (n_id n) up]\<rparr>)"
      using assms(1) 2(2) by (auto simp: at_node_def done_before_def node_done_def)
    then have "at_node d (n_id n) (Some up) g"
      using 2(13) by (auto intro: at_node_put_self at_node_put_exception)
    moreover have "sent_back up (f_log g)" using 2(13) by auto
    ultimately show ?thesis using 3(2) g up 2(8) by (auto simp: on_course_def at_node_def)
  qed
next
  case (4 r y f')
  then show ?case using assms(1) end_attempt_form(1) [OF 4(2)] by (auto simp: at_node_def intro!: on_course_stop)
next
  case (5 r st f')
  note ea = end_attempt_form [OF 5(2)]
  have a: "at_node d (n_id n) (a_rejected a) f'" using ea(1,2,4) by (intro at_node_cong [OF assms(1)])
  have r: "plain_result f (nr_status r)" using assms(6) 5(1) by simp
  then have "nr_status r \<noteq> []" by (auto simp: plain_result_def normalize_node_status_def)
  then have "status (own st) = normalize_node_status (nr_status r)" using ea(7) by simp
  then have "status (own st) \<in> {''failed'', ''rejected''} \<or> node_settled st"
    using r by (auto simp: plain_result_def node_settled_def normalize_twice)
  then show ?case using 5(3) a assms(2,3) ea(3) by (auto intro!: on_course_after_attempt)
qed

lemma on_course_retrying:
  assumes "at_node d nid (Some (n_id un)) f" and "\<exists>w. sent_back w (f_log f)" and "f_phase f = Retrying (n_id un) a down"
    and "\<forall>r. x = PluginReturns r \<longrightarrow> plain_result f (nr_status r)"
  shows "on_course d (retrying_step e nid un a down x f)"
proof (rule retrying_cases [of e nid un a down x f], goal_cases)
  case 1
  then show ?case using assms by (auto simp: on_course_def at_node_def)
next
  case (2 w cp a' f')
  note p = plugin_writes_form [OF 2(1)]
  have "done_before d (f_pos f) (Some (n_id un)) f'"
    using assms(1) p(5,6,8) by (auto simp: at_node_def done_before_def node_done_def)
  then show ?case using 2(2) assms(1,2) p(5-7) by (auto simp: on_course_def at_node_def)
next
  case (3 r y f')
  then show ?case using assms(1) end_attempt_form(1) [OF 3(2)] by (auto simp: at_node_def intro!: on_course_stop)
next
  case (4 r st f')
  note ea = end_attempt_form [OF 4(2)]
  have a: "at_node d nid (Some (n_id un)) f'"
    using assms(1) ea(1,2,4) by (auto simp: at_node_def done_before_def node_done_def)
  have r: "plain_result f (nr_status r)" using assms(4) 4(1) by simp
  then have "nr_status r \<noteq> []" by (auto simp: plain_result_def normalize_node_status_def)
  then have "status (own st) = normalize_node_status (nr_status r)" using ea(7) by simp
  then have "status (own st) = ''failed'' \<or> node_settled st"
    using r assms(2) by (auto simp: plain_result_def node_settled_def normalize_twice)
  then show ?case using 4(3) a by (simp add: on_course_after_retry)
qed

lemma on_course_step:
  assumes "on_course d f" and "get_node d [] = None" and "\<forall>r. x = PluginReturns r \<longrightarrow> plain_result f (nr_status r)"
  shows "on_course d (seq_step d disabled f (e, x))"
proof (rule seq_step_cases [of d disabled f e x], goal_cases)
  case (2 sts pv b)
  have d: "done_before d k x (outside e sts pv b f)" if "done_before d k x f" "k \<le> length (f_ids f)" for k x
    using that outside_form(5) [of _ f e sts pv b] by (fastforce simp: done_before_def node_done_def outside_form(1) own_nodes_def)
  show ?case using 2(2) assms(1) d by (auto simp: on_course_def outside_form split: phase.splits outcome.splits)
next
  case 3
  then show ?case using on_course_tick [OF assms(1)] by simp
next
  case (4 a n)
  have "at_node d (n_id n) (a_rejected a) f" using assms(1) 4(1,3) by (simp add: on_course_def at_node_def)
  moreover have "a_rejected a \<noteq> Some []" "a_rejected a \<noteq> None \<longrightarrow> (\<exists>w. sent_back w (f_log f))"
    using assms(1) 4(1) by (simp_all add: on_course_def)
  ultimately show ?case using 4(4) on_course_executing [OF _ _ _ assms(2) 4(1) assms(3)] by simp
next
  case (5 u a down un)
  have "at_node d (f_ids f ! f_pos f) (Some (n_id un)) f" using assms(1) 5(1,3) by (simp add: on_course_def at_node_def)
  moreover have "\<exists>w. sent_back w (f_log f)" using assms(1) 5(1) by (simp add: on_course_def)
  ultimately show ?case using 5 on_course_retrying [OF _ _ _ assms(3)] by simp
qed (use assms(1) in simp)

definition results :: "(engine_env \<times> seq_event) list \<Rightarrow> string set" where
  "results evs = {normalize_node_status (nr_status r) |r. PluginReturns r \<in> snd ` set evs}"

lemma on_course_run:
  assumes "on_course d f" and "get_node d [] = None" and "results evs \<subseteq> {''completed'', ''skipped'', ''failed'', ''rejected''}"
    and "''rejected'' \<in> results evs \<longrightarrow> (\<forall>u. \<not> sent_back u (f_log (run_sequence d disabled f evs)))"
  shows "on_course d (run_sequence d disabled f evs)"
  using assms(1,3,4)
proof (induction evs arbitrary: f)
  case (Cons ev evs)
  obtain e x where ev: "ev = (e, x)" by force
  let ?g = "seq_step d disabled f ev"
  obtain l1 where l1: "f_log ?g = f_log f @ l1" using log_grows [of d disabled f e x] by (auto simp: ev)
  obtain l2 where l2: "f_log (run_sequence d disabled ?g evs) = f_log ?g @ l2"
    using log_grows_run [where f = ?g and evs = evs and d = d and disabled = disabled] by blast
  have "plain_result f (nr_status r)" if "x = PluginReturns r" for r
  proof -
    have r: "normalize_node_status (nr_status r) \<in> results (ev # evs)" using that by (auto simp: results_def ev)
    with Cons.prems(2) have "normalize_node_status (nr_status r) \<in> {''completed'', ''skipped'', ''failed'', ''rejected''}" by blast
    moreover have "\<not> sent_back u (f_log f)" if "normalize_node_status (nr_status r) = ''rejected''" for u
      using Cons.prems(3) r that l1 l2 by auto
    ultimately show ?thesis by (auto simp: plain_result_def)
  qed
  then have g: "on_course d ?g" using on_course_step [OF Cons.prems(1) assms(2), of x disabled e] by (simp add: ev)
  have "results evs \<subseteq> results (ev # evs)" by (auto simp: results_def)
  then show ?case using Cons.IH [OF g] Cons.prems(2,3) by auto
qed simp

text \<open>
  C9. A sequence that completes is complete: when the loop returns \<open>completed\<close> and the plugins
  reported only the statuses \<open>completed\<close>, \<open>skipped\<close>, \<open>failed\<close> and \<open>rejected\<close>, every node of the
  sequence that the workflow has is completed or skipped, retries after a rejection by a later
  node included. This needs that no approval rejects in a run in which a node is sent back: an
  approval that was sent back and then rejects is passed over, and the sequence can complete with
  a rejected node (see \<open>rejected_approval_passed\<close>).
\<close>

theorem completed_sequence_settled:
  assumes "distinct ids" and "get_node d [] = None" and "results evs \<subseteq> {''completed'', ''skipped'', ''failed'', ''rejected''}"
    and "''rejected'' \<in> results evs \<longrightarrow> (\<forall>u. \<not> sent_back u (f_log (run_sequence d disabled (start_sequence t ids) evs)))"
    and "f_phase (run_sequence d disabled (start_sequence t ids) evs) = Ended Completed"
    and "u \<in> set ids" and "get_node d u \<noteq> None"
  shows "\<exists>st. state_of (run_sequence d disabled (start_sequence t ids) evs) u = Some st \<and>
    normalize_node_status (status (own st)) \<in> {''skipped'', ''completed''}"
proof -
  let ?f = "run_sequence d disabled (start_sequence t ids) evs"
  have "on_course d (start_sequence t ids)"
    using assms(1) by (simp add: on_course_def start_sequence_def done_before_def)
  then have "on_course d ?f" using assms(2-4) by (rule on_course_run)
  then have c: "done_before d (length ids) None ?f" using assms(5) by (simp add: on_course_def start_sequence_def)
  obtain j where "j < length ids" "ids ! j = u" using assms(6) by (auto simp: in_set_conv_nth)
  with c have "node_done d ?f u" by (auto simp: done_before_def start_sequence_def)
  then show ?thesis using assms(7) by (simp add: node_done_def node_settled_def)
qed

end
