(* ===== verification/SequenceLedger.thy ===== *)
theory SequenceLedger
  imports SequenceRuns
begin

text \<open>
  The accounts of a node sequence: how often plugins start, and the refinement of the counters of
  a node (attempts, retries, rejections) by an abstract ledger.
\<close>

section \<open>How often plugins start\<close>

definition starts :: "action list \<Rightarrow> nat" where
  "starts l = length (filter (\<lambda>a. case a of Started _ \<Rightarrow> True | _ \<Rightarrow> False) l)"

definition setbacks :: "action list \<Rightarrow> nat" where
  "setbacks l = length (filter (\<lambda>a. case a of Started _ \<Rightarrow> False | _ \<Rightarrow> True) l)"

lemma starts_simps [simp]:
  "starts [] = 0" "starts (l @ l') = starts l + starts l'" "starts (Started u # l) = Suc (starts l)"
  "starts (SentBack v u # l) = starts l" "starts (Notified u # l) = starts l"
  "setbacks [] = 0" "setbacks (l @ l') = setbacks l + setbacks l'" "setbacks (Started u # l) = setbacks l"
  "setbacks (SentBack v u # l) = Suc (setbacks l)" "setbacks (Notified u # l) = Suc (setbacks l)"
  by (simp_all add: starts_def setbacks_def)

text \<open>Each start is paid by a node of the sequence, each setback pays for two more.\<close>

definition paid :: "nat \<Rightarrow> flow \<Rightarrow> bool" where
  "paid k f = (starts (f_log f) \<le> k + 2 * setbacks (f_log f))"

definition thrifty :: "flow \<Rightarrow> bool" where
  "thrifty f =
     (f_pos f \<le> length (f_ids f) \<and>
      (case f_phase f of
         Ready \<Rightarrow> paid (f_pos f) f
       | Executing a \<Rightarrow> f_pos f < length (f_ids f) \<and>
           (if a_rejected a = None then starts (f_log f) \<le> Suc (f_pos f) + 2 * setbacks (f_log f)
            else Suc (starts (f_log f)) \<le> f_pos f + 2 * setbacks (f_log f))
       | Retrying u a down \<Rightarrow> f_pos f < length (f_ids f) \<and> paid (f_pos f) f
       | _ \<Rightarrow> paid (length (f_ids f)) f))"

lemma paid_simps [simp]:
  "paid k (put_state u st f) = paid k f" "paid k (save e f) = paid k f" "paid k (ended o' f) = paid k f" "paid k (raised y f) = paid k f"
  "paid k (advance f) = paid k f" "paid k (again f) = paid k f" "paid k (entered n f) = paid k f" "paid k (f\<lparr>f_phase := p\<rparr>) = paid k f"
  by (simp_all add: paid_def)

definition paid_at :: "nat \<Rightarrow> flow \<Rightarrow> bool" where
  "paid_at k f = (f_pos f < length (f_ids f) \<and> paid (f_pos f + k) f)"

lemma paid_at_simps [simp]:
  "paid_at k (put_state u st f) = paid_at k f" "paid_at k (save e f) = paid_at k f" "paid_at k (entered n f) = paid_at k f"
  by (simp_all add: paid_at_def)

lemma thrifty_stop: "paid_at (Suc 0) f \<Longrightarrow> thrifty (ended o' f)" "paid_at (Suc 0) f \<Longrightarrow> thrifty (raised y f)"
  by (simp_all add: thrifty_def paid_at_def paid_def)

lemma thrifty_advance: "paid_at (Suc 0) f \<Longrightarrow> thrifty (advance f)"
  by (simp add: thrifty_def paid_at_def)

lemma paid_at_weaken: "paid_at 0 f \<Longrightarrow> paid_at (Suc 0) f"
  by (simp add: paid_at_def paid_def)

lemma thrifty_after_failure: "paid_at (Suc 0) f \<Longrightarrow> thrifty (after_failure e n st f)"
  by (rule after_failure_cases [of e n st f]) (simp_all add: thrifty_stop thrifty_advance)

lemma thrifty_approval: "paid_at (Suc 0) f \<Longrightarrow> thrifty (approval_rejected e n st f)"
proof (rule approval_rejected_cases [of e n st f], goal_cases)
  case (2 us st')
  then show ?case by (auto simp: thrifty_def paid_at_def paid_def)
qed (simp add: thrifty_stop)

lemma thrifty_by_status: "paid_at (Suc 0) f \<Longrightarrow> thrifty (by_status e n st f)"
  by (rule by_status_cases [of st e n f]) (simp_all add: thrifty_after_failure thrifty_approval thrifty_advance)

lemma thrifty_after_retry: "paid_at 0 f \<Longrightarrow> thrifty (after_retry e nid un down calls st f)"
proof (rule after_retry_cases [of e nid un down calls st f], goal_cases)
  case (2 st')
  then show ?case by (simp add: thrifty_def paid_at_def)
qed (simp_all add: thrifty_stop thrifty_advance paid_at_weaken)

text \<open>Before the node that was sent back runs again one start is still to be paid.\<close>

lemma thrifty_redo:
  assumes "f_pos f < length (f_ids f)" and "Suc (starts (f_log f)) \<le> f_pos f + 2 * setbacks (f_log f)"
  shows "thrifty (redo_upstream e d n u st f)"
proof -
  have p: "paid_at 0 f" "paid_at (Suc 0) f" using assms by (simp_all add: paid_at_def paid_def)
  show ?thesis
  proof (rule redo_upstream_cases [of d n u e st f], goal_cases)
    case 1
    then show ?case using p by (simp add: thrifty_by_status)
  next
    case (4 us un r a f2)
    note o = open_attempt_form [OF 4(5)]
    then show ?case using 4(6) assms by (simp add: thrifty_def paid_def)
  next
    case (5 us un r)
    then show ?case using p by (simp add: thrifty_after_retry)
  qed (use p in \<open>simp_all add: thrifty_stop\<close>)
qed

lemma thrifty_after_attempt:
  assumes "f_pos f < length (f_ids f)"
    and "if rejected = None then starts (f_log f) \<le> Suc (f_pos f) + 2 * setbacks (f_log f)
         else Suc (starts (f_log f)) \<le> f_pos f + 2 * setbacks (f_log f)"
  shows "thrifty (after_attempt e d n calls rejected st f)"
proof -
  have p: "paid_at (Suc 0) f" using assms by (auto simp: paid_at_def paid_def split: if_split_asm)
  show ?thesis
  proof (rule after_attempt_cases [of e d n calls rejected st f], goal_cases)
    case (3 st' u)
    then show ?case using assms by (simp add: thrifty_redo)
  qed (use p in \<open>simp_all add: thrifty_stop thrifty_by_status\<close>)
qed

lemma thrifty_start: "paid_at 0 f \<Longrightarrow> thrifty (start_node_of_sequence e d n f)"
proof (rule start_cases [of e d n f], goal_cases)
  case 1
  then show ?case by (simp add: thrifty_stop paid_at_weaken)
next
  case (2 a f2)
  note o = open_attempt_form [OF 2(2)]
  show ?case using 2(1,3) o by (simp add: thrifty_def paid_at_def paid_def)
next
  case 3
  then show ?case by (simp add: thrifty_after_attempt paid_at_def paid_def)
qed

lemma thrifty_tick:
  assumes "thrifty f" and "f_phase f = Ready"
  shows "thrifty (tick e d disabled f)"
proof -
  have p: "f_pos f \<le> length (f_ids f)" "paid (f_pos f) f" using assms by (simp_all add: thrifty_def)
  then have a: "paid_at 0 f" if "f_pos f < length (f_ids f)" using that by (simp add: paid_at_def)
  show ?thesis
  proof (rule tick_cases [of f e d disabled], goal_cases)
    case 1
    then show ?case using p by (simp add: thrifty_def)
  next
    case (5 n st k)
    then show ?case using a by (simp add: thrifty_stop paid_at_weaken)
  next
    case (6 n)
    then show ?case using a by (simp add: thrifty_start)
  qed (use a in \<open>simp_all add: thrifty_advance paid_at_weaken\<close>)
qed

lemma thrifty_executing:
  assumes "thrifty f" and "f_phase f = Executing a"
  shows "thrifty (executing_step d e n a x f)"
proof (rule executing_cases [of d e n a x f], goal_cases)
  case (2 w cp a' f')
  note p = plugin_writes_form [OF 2(1)]
  show ?case using 2(2) assms p(2,5,6,7) by (auto simp: thrifty_def split: if_split_asm)
next
  case (3 reason target r a' f')
  show ?case
    using 3 assms by (cases rule: on_reject_cases [of e d n reason target a f]) (auto simp: thrifty_def)
next
  case (4 r y f')
  note ea = end_attempt_form [OF 4(2)]
  have "paid_at (Suc 0) f'" using assms ea(1-3) by (auto simp: thrifty_def paid_at_def paid_def split: if_split_asm)
  then show ?case using 4(3) thrifty_stop by simp
next
  case (5 r st f')
  note ea = end_attempt_form [OF 5(2)]
  have "thrifty (after_attempt e d n (a_calls a) (a_rejected a) st f')"
    by (rule thrifty_after_attempt) (use assms ea(1-3) in \<open>auto simp: thrifty_def split: if_split_asm\<close>)
  then show ?case using 5(3) by simp
qed (use assms in simp)

lemma thrifty_retrying:
  assumes "thrifty f" and "f_phase f = Retrying u a down"
  shows "thrifty (retrying_step e nid un a down x f)"
proof (rule retrying_cases [of e nid un a down x f], goal_cases)
  case (2 w cp a' f')
  note p = plugin_writes_form [OF 2(1)]
  show ?case using 2(2) assms p(5,6,7) by (simp add: thrifty_def paid_def)
next
  case (3 r y f')
  note ea = end_attempt_form [OF 3(2)]
  have "paid_at 0 f'" using assms ea(1-3) by (simp add: thrifty_def paid_at_def paid_def)
  then show ?case using 3(3) thrifty_stop paid_at_weaken by simp
next
  case (4 r st f')
  note ea = end_attempt_form [OF 4(2)]
  have "paid_at 0 f'" using assms ea(1-3) by (simp add: thrifty_def paid_at_def paid_def)
  then show ?case using 4(3) by (simp add: thrifty_after_retry)
qed (use assms in simp)

lemma thrifty_step: "thrifty f \<Longrightarrow> thrifty (seq_step d disabled f ev)"
proof -
  assume f: "thrifty f"
  obtain e x where ev: "ev = (e, x)" by force
  show ?thesis
    unfolding ev
  proof (rule seq_step_cases [of d disabled f e x], goal_cases)
    case (2 sts pv b)
    then show ?case using f by (cases "f_phase f") (auto simp: thrifty_def outside_form paid_def split: if_split_asm)
  qed (use f in \<open>simp_all add: thrifty_tick thrifty_executing thrifty_retrying\<close>)
qed

interpretation node_sequence: machine "\<lambda>f. f_pos f = 0 \<and> f_phase f = Ready \<and> f_log f = []" "seq_step d disabled" thrifty for d disabled
  by unfold_locales (simp add: thrifty_def paid_def, rule thrifty_step)

text \<open>
  C12. The loop over a sequence is paid for: in every run the number of plugin starts is at most the
  length of the sequence plus two for each time a node was sent back or an approval rejected,
  whatever plugins return and other branches do.
\<close>

theorem sequence_starts_bounded:
  "starts (f_log (run_sequence d disabled (start_sequence t ids) evs)) \<le>
     length ids + 2 * setbacks (f_log (run_sequence d disabled (start_sequence t ids) evs))"
proof -
  let ?f = "run_sequence d disabled (start_sequence t ids) evs"
  have "thrifty ?f" by (rule node_sequence.run_from_init) (simp add: start_sequence_def)
  moreover have "f_ids ?f = ids" by (simp add: start_sequence_def)
  ultimately show ?thesis by (cases "f_phase ?f") (auto simp: thrifty_def paid_def split: if_split_asm)
qed

section \<open>The ledger of a node\<close>

text \<open>
  The abstract life of a node as far as its counters go: attempts, automatic retries of the
  current chain of failures, the trigger of the next attempt, and how often it was sent back. An
  automatic retry needs budget, a sending back a free place below the limit. The last number
  counts the rejections that are still open: a sending back opens one, and only against an open one
  may the chain of failures begin anew with its budget unused.
\<close>

type_synonym ledger = "int \<times> int \<times> string \<times> int"

inductive ledger_run :: "int \<Rightarrow> int \<Rightarrow> string \<Rightarrow> ledger \<Rightarrow> action list \<Rightarrow> ledger \<Rightarrow> nat \<Rightarrow> bool"
  for b :: int and m :: int and u :: string and c0 :: ledger where
  still: "ledger_run b m u c0 [] c0 0"
| opened: "ledger_run b m u c0 l (a, r, t, s) q \<Longrightarrow> ledger_run b m u c0 (l @ [Started u]) (a + 1, r, t, s) q"
| again_later: "ledger_run b m u c0 l (a, r, t, s) q \<Longrightarrow> r < b \<Longrightarrow> ledger_run b m u c0 l (a, r + 1, auto_retry_trigger, s) q"
| sent: "ledger_run b m u c0 l (a, r, t, s) q \<Longrightarrow> s < m \<Longrightarrow> ledger_run b m u c0 (l @ [SentBack v u]) (a, r, t, s + 1) (Suc q)"
| redone: "ledger_run b m u c0 l (a, r, t, s) (Suc q) \<Longrightarrow> ledger_run b m u c0 l (a, 0, validator_retry_trigger, s) q"

definition about :: "string \<Rightarrow> action list \<Rightarrow> action list" where
  "about u l = filter (\<lambda>x. case x of Started w \<Rightarrow> w = u | SentBack v w \<Rightarrow> w = u | Notified y \<Rightarrow> False) l"

lemma about_simps [simp]:
  "about u [] = []" "about u (l @ l') = about u l @ about u l'"
  "about u (Started w # l) = (if w = u then Started w # about u l else about u l)"
  "about u (SentBack v w # l) = (if w = u then SentBack v w # about u l else about u l)"
  "about u (Notified y # l) = about u l"
  by (simp_all add: about_def)

definition stored :: "flow \<Rightarrow> string \<Rightarrow> node_state" where
  "stored f u = (case state_of f u of None \<Rightarrow> new_node_state u | Some st \<Rightarrow> st)"

lemma stored_simps [simp]:
  "stored (put_state w st f) u = (if u = w then st else stored f u)" "stored (save e f) u = stored f u"
  "stored (ended k f) u = stored f u" "stored (raised y f) u = stored f u" "stored (advance f) u = stored f u"
  "stored (again f) u = stored f u" "stored (entered n f) u = stored f u"
  "stored (f\<lparr>f_phase := p\<rparr>) u = stored f u" "stored (f\<lparr>f_pos := i\<rparr>) u = stored f u" "stored (f\<lparr>f_log := l\<rparr>) u = stored f u"
  by (simp_all add: stored_def)

lemma stored_entry: "entry_state n f = stored f (n_id n)"
  by (simp add: entry_state_def stored_def)

lemma state_of_stored: "state_of f u = Some st \<Longrightarrow> stored f u = st"
  by (simp add: stored_def)

text \<open>\<open>c\<close> is what the books say of \<open>u\<close>, with at least \<open>k\<close> rejections open.\<close>

definition booked :: "int \<Rightarrow> int \<Rightarrow> string \<Rightarrow> ledger \<Rightarrow> nat \<Rightarrow> flow \<Rightarrow> ledger \<Rightarrow> bool" where
  "booked b m u c0 k f c = (\<exists>q\<ge>k. ledger_run b m u c0 (about u (f_log f)) c q)"

lemma booked_simps [simp]:
  "booked b m u c0 k (put_state w st f) c = booked b m u c0 k f c" "booked b m u c0 k (save e f) c = booked b m u c0 k f c"
  "booked b m u c0 k (ended y f) c = booked b m u c0 k f c" "booked b m u c0 k (raised x f) c = booked b m u c0 k f c"
  "booked b m u c0 k (advance f) c = booked b m u c0 k f c" "booked b m u c0 k (again f) c = booked b m u c0 k f c"
  "booked b m u c0 k (entered n f) c = booked b m u c0 k f c" "booked b m u c0 k (f\<lparr>f_phase := p\<rparr>) c = booked b m u c0 k f c"
  by (simp_all add: booked_def)

lemma booked_log: "f_log g = f_log f \<Longrightarrow> booked b m u c0 k g c = booked b m u c0 k f c"
  by (simp add: booked_def)

lemma booked_any: "booked b m u c0 k f c \<Longrightarrow> booked b m u c0 0 f c"
  by (auto simp: booked_def)

lemma booked_again_later:
  "booked b m u c0 k f (a, r, t, s) \<Longrightarrow> r < b \<Longrightarrow> booked b m u c0 k f (a, r + 1, auto_retry_trigger, s)"
  by (auto simp: booked_def intro: ledger_run.again_later)

lemma booked_redone: "booked b m u c0 (Suc k) f (a, r, t, s) \<Longrightarrow> booked b m u c0 k f (a, 0, validator_retry_trigger, s)"
proof -
  assume "booked b m u c0 (Suc k) f (a, r, t, s)"
  then obtain q where q: "Suc k \<le> q" "ledger_run b m u c0 (about u (f_log f)) (a, r, t, s) q" by (auto simp: booked_def)
  then obtain q' where q': "q = Suc q'" "k \<le> q'" by (cases q) simp_all
  have "ledger_run b m u c0 (about u (f_log f)) (a, 0, validator_retry_trigger, s) q'"
    by (rule ledger_run.redone) (use q(2) q'(1) in simp)
  with q'(2) show ?thesis unfolding booked_def by blast
qed

lemma booked_sent:
  "booked b m u c0 k f (a, r, t, s) \<Longrightarrow> s < m \<Longrightarrow> f_log g = f_log f @ [SentBack v u] \<Longrightarrow> booked b m u c0 (Suc k) g (a, r, t, s + 1)"
  unfolding booked_def by (auto intro: ledger_run.sent)

lemma booked_started:
  "booked b m u c0 k f (a, r, t, s) \<Longrightarrow> f_log g = f_log f @ [Started u] \<Longrightarrow> booked b m u c0 k g (a + 1, r, t, s)"
  unfolding booked_def by (auto intro: ledger_run.opened)

definition coherent :: "string \<Rightarrow> flow \<Rightarrow> bool" where
  "coherent u f =
     (case f_phase f of
        Executing a \<Rightarrow> (a_rejected a = None \<longrightarrow> a_attached a) \<and>
          (\<forall>w. a_rejected a = Some w \<longrightarrow> w \<noteq> [] \<and> SentBack (f_ids f ! f_pos f) w \<in> set (f_log f)) \<and>
          (f_ids f ! f_pos f = u \<longrightarrow> a_attached a \<longrightarrow> state_of f u \<noteq> None \<and> counters (a_state a) = counters (stored f u))
      | Retrying w a down \<Rightarrow> a_attached a \<and> \<not> (w = u \<and> f_ids f ! f_pos f = u) \<and>
          (w = u \<longrightarrow> state_of f u \<noteq> None \<and> counters (a_state a) = counters (stored f u)) \<and>
          (f_ids f ! f_pos f = u \<longrightarrow> counters down = counters (stored f u))
      | _ \<Rightarrow> True)"

definition current :: "flow \<Rightarrow> string \<Rightarrow> ledger" where
  "current f u =
     (case f_phase f of
        Executing a \<Rightarrow> if f_ids f ! f_pos f = u then counters (a_state a) else counters (stored f u)
      | _ \<Rightarrow> counters (stored f u))"

text \<open>While the attempt runs that rejected \<open>u\<close>, its rejection is open.\<close>

definition owed :: "flow \<Rightarrow> string \<Rightarrow> nat" where
  "owed f u = (case f_phase f of Executing a \<Rightarrow> if a_rejected a = Some u then 1 else 0 | _ \<Rightarrow> 0)"

definition in_order :: "int \<Rightarrow> int \<Rightarrow> string \<Rightarrow> ledger \<Rightarrow> flow \<Rightarrow> bool" where
  "in_order b m u c0 f =
     (case f_phase f of Raised _ \<Rightarrow> True
      | _ \<Rightarrow> SentBack u u \<in> set (f_log f) \<or> (booked b m u c0 (owed f u) f (current f u) \<and> coherent u f))"

lemma in_order_simps [simp]:
  "in_order b m u c0 (raised y f)"
  "booked b m u c0 0 f (counters (stored f u)) \<Longrightarrow> in_order b m u c0 (ended k f)"
  "booked b m u c0 0 f (counters (stored f u)) \<Longrightarrow> in_order b m u c0 (advance f)"
  "booked b m u c0 0 f (counters (stored f u)) \<Longrightarrow> in_order b m u c0 (again f)"
  by (simp_all add: in_order_def coherent_def current_def owed_def)

lemma verdict_counters:
  assumes "failed_verdict e n st = Inr (v, st')"
  shows "counters st' = counters st \<or>
    (\<exists>a r t s. counters st = (a, r, t, s) \<and> r < retry_budget (policy_of n) \<and> counters st' = (a, r + 1, auto_retry_trigger, s))"
proof (rule failed_verdict_state [OF assms], goal_cases)
  case 1
  then obtain due where due: "prepare_node_retry auto_retry_trigger (Some due) True st = Inr st'" by blast
  have f: "normalize_node_status (status (own st)) = ''failed''" "0 < automatic_retries_remaining (policy_of n) st"
    using 1(2) by (simp_all add: can_auto_retry_def)
  then have "status (own st) = ''failed''" by (simp add: normalize_node_status_def split: if_split_asm)
  then have "counters st' = (attempt_count (own st), automatic_retry_count (own st) + 1, auto_retry_trigger, reject_upstream_count (own st))"
    using due by (auto simp: prepare_node_retry_def retry_replayed_def counters_def Let_def split: if_split_asm)
  moreover have "automatic_retry_count (own st) < retry_budget (policy_of n)"
    using f(2) by (auto simp: automatic_retries_remaining_def retry_budget_def Let_def split: pyval.splits)
  ultimately show ?case by (simp add: counters_def)
next
  case 2
  then show ?case by (auto simp: apply_failure_skip_def counters_def split: if_split_asm)
next
  case 3
  then show ?case by simp
qed

lemma booked_verdict:
  assumes "failed_verdict e n st = Inr (v, st')" and "booked (retry_budget (policy_of n)) m u c0 0 f (counters st)"
  shows "booked (retry_budget (policy_of n)) m u c0 0 f (counters st')"
  using verdict_counters [OF assms(1)] assms(2) by (auto intro: booked_again_later)

text \<open>The node \<open>u\<close>, its budget and the limit of all nodes that may send it back.\<close>

definition terms :: "workflow_def \<Rightarrow> string \<Rightarrow> int \<Rightarrow> int \<Rightarrow> bool" where
  "terms d u b m =
     (get_node d [] = None \<and> (\<forall>n. get_node d u = Some n \<longrightarrow> b = retry_budget (policy_of n)) \<and>
      (\<forall>n\<in>set (d_nodes d). \<forall>k. get_max_reject_count n = Inr k \<longrightarrow> k \<le> m))"

lemma in_order_after_failure:
  assumes "booked b m u c0 0 f (counters (stored f u))" and "n_id n = u \<longrightarrow> counters st = counters (stored f u) \<and> b = retry_budget (policy_of n)"
  shows "in_order b m u c0 (after_failure e n st f)"
proof -
  have b: "booked b m u c0 0 f (counters (stored (put_state (n_id n) st' f) u))" if "failed_verdict e n st = Inr (v, st')" for v st'
    using booked_verdict [OF that, of m u c0 f] assms by (cases "n_id n = u") simp_all
  show ?thesis by (rule after_failure_cases [of e n st f]) (simp_all add: b del: stored_simps(1))
qed

lemma in_order_approval:
  assumes "booked b m u c0 0 f (counters (stored f u))" and "n_id n = u \<longrightarrow> counters st = counters (stored f u)"
  shows "in_order b m u c0 (approval_rejected e n st f)"
proof (rule approval_rejected_cases [of e n st f], goal_cases)
  case (2 us st')
  have "counters (update_own (\<lambda>s. s\<lparr>status := ''running'', error := []\<rparr>) us) = counters us" by (simp add: counters_def)
  moreover have "f_ids f ! (f_pos f - 1) = u \<Longrightarrow> stored f u = us" using 2(2) state_of_stored by blast
  ultimately show ?case using 2 assms by (auto simp: in_order_def coherent_def current_def owed_def booked_def)
qed (use assms in \<open>cases "n_id n = u"; simp\<close>)

lemma in_order_by_status:
  assumes "booked b m u c0 0 f (counters (stored f u))" and "n_id n = u \<longrightarrow> counters st = counters (stored f u) \<and> b = retry_budget (policy_of n)"
  shows "in_order b m u c0 (by_status e n st f)"
  by (rule by_status_cases [of st e n f]) (use assms in \<open>auto simp: in_order_after_failure in_order_approval\<close>)

lemma reset_counters [simp]: "counters (reset_downstream st) = counters st"
  by (simp add: reset_downstream_def counters_def)

lemma in_order_after_retry:
  assumes "booked b m u c0 0 f (counters (stored f u))" and "nid = u \<longrightarrow> counters down = counters (stored f u)"
    and "n_id un = u \<longrightarrow> counters st = counters (stored f u) \<and> b = retry_budget (policy_of un)" and "\<not> (nid = u \<and> n_id un = u)"
  shows "in_order b m u c0 (after_retry e nid un down calls st f)"
proof -
  consider "nid \<noteq> u" "n_id un \<noteq> u" | "nid = u" "n_id un \<noteq> u" | "nid \<noteq> u" "n_id un = u" using assms(4) by blast
  then show ?thesis
  proof cases
    case 1
    show ?thesis by (rule after_retry_cases [of e nid un down calls st f]) (use assms(1) 1 in simp_all)
  next
    case 2
    show ?thesis by (rule after_retry_cases [of e nid un down calls st f]) (use assms(1,2) 2 in simp_all)
  next
    case 3
    have b: "booked b m u c0 0 f (counters st2)" if "failed_verdict e un st' = Inr (v, st2)" "counters st' = counters st" for v st' st2
      using booked_verdict [OF that(1), of m u c0 f] assms(1,3) 3 that by simp
    show ?thesis
    proof (rule after_retry_cases [of e nid un down calls st f], goal_cases)
      case (2 st')
      then show ?case using audit_counters [OF 2(1)] assms(1,3) 3 by simp
    next
      case (4 st' v st2)
      then show ?case using audit_counters [OF 4(1)] b [OF 4(3)] 3 by simp
    next
      case (5 st' st2 st3)
      then show ?case using audit_counters [OF 5(1)] b [OF 5(3)] 3 by simp
    qed simp_all
  qed
qed

lemma terms_budget: "terms d u b m \<Longrightarrow> get_node d u = Some n \<Longrightarrow> b = retry_budget (policy_of n)"
  by (simp add: terms_def)

lemma booked_opened:
  assumes "open_attempt e d w st calls f = (a, f')" and "booked b m u c0 0 f (if w = u then counters st else counters (stored f u))"
  shows "booked b m u c0 0 f' (if w = u then counters (a_state a) else counters (stored f' u))"
proof -
  note o = open_attempt_form [OF assms(1)]
  have s: "stored f' u = (if w = u then a_state a else stored f u)" using o(4) by (auto simp: stored_def)
  show ?thesis
  proof (cases "w = u")
    case True
    obtain x r t y where c: "counters st = (x, r, t, y)" by (metis prod.collapse)
    have "counters (a_state a) = (x + 1, r, t, y)" using c by (simp add: o(7) begin_counters(1)) (simp add: counters_def)
    then show ?thesis using assms(2) True c o(3) by (simp add: booked_started)
  next
    case False
    then show ?thesis using assms(2) o(3) s by (simp add: booked_def)
  qed
qed

lemma in_order_redo:
  assumes "booked b m u c0 (if w = u then 1 else 0) f (counters (stored f u))" and "terms d u b m" and "get_node d (n_id n) = Some n"
    and "n_id n = u \<longrightarrow> counters st = counters (stored f u)" and "w \<noteq> []" and "\<not> (w = u \<and> n_id n = u)" and "f_ids f ! f_pos f = n_id n"
  shows "in_order b m u c0 (redo_upstream e d n w st f)"
proof -
  have w: "target_of d n w = w" using assms(5) by (simp add: target_of_def)
  have r: "booked b m u c0 0 f (if w = u then counters r else counters (stored f u))"
    if us: "state_of f w = Some us" "sent_back_state us = Inr r" for us r
  proof (cases "w = u")
    case True
    have "counters (stored f u) = (attempt_count (own us), automatic_retry_count (own us), next_attempt_trigger (own us), reject_upstream_count (own us))"
      using us(1) True by (simp add: state_of_stored counters_def)
    then show ?thesis using assms(1) sent_back_counters [OF us(2)] True by (simp add: booked_redone)
  qed (use assms(1) in simp)
  note any = booked_any [OF assms(1)]
  show ?thesis
  proof (rule redo_upstream_cases [of d n w e st f], goal_cases)
    case 1
    then show ?case using w assms(5) by simp
  next
    case (4 us un r' a f2)
    note o = open_attempt_form [OF 4(5) [unfolded w]]
    have "booked b m u c0 0 f2 (if w = u then counters (a_state a) else counters (stored f2 u))"
      using r [OF 4(2) [unfolded w] 4(4)] by (intro booked_opened [OF 4(5) [unfolded w]]) (simp split: if_split_asm)
    moreover have "stored f2 u = (if w = u then a_state a else stored f u)" "state_of f2 w \<noteq> None"
      using o(4) by (auto simp: stored_def)
    ultimately show ?case using 4(6) o(1,2,6) assms(4,6,7) w
      by (auto simp: in_order_def coherent_def current_def owed_def split: if_split_asm)
  next
    case (5 us un r')
    have un: "n_id un = w" using get_node_id [OF 5(3)] w by simp
    let ?u = "unknown_type_state e un r'"
    have c: "counters ?u = counters r'" by (simp add: unknown_type_state_def counters_def)
    let ?g = "put_state w ?u (save e (put_state w r' f))"
    have "in_order b m u c0 (after_retry e (n_id n) un st (call_ids e us) ?u ?g)"
    proof (rule in_order_after_retry)
      show "booked b m u c0 0 ?g (counters (stored ?g u))" using r [OF 5(2) [unfolded w] 5(4)] c by (simp split: if_split_asm)
      show "n_id n = u \<longrightarrow> counters st = counters (stored ?g u)" using assms(4,6) by auto
      show "n_id un = u \<longrightarrow> counters ?u = counters (stored ?g u) \<and> b = retry_budget (policy_of un)"
        using un terms_budget [OF assms(2)] 5(3) w by auto
      show "\<not> (n_id n = u \<and> n_id un = u)" using assms(6) un by auto
    qed
    then show ?case using 5(5) w by simp
  qed (use any in simp_all)
qed

lemma in_order_after_attempt:
  assumes "booked b m u c0 (if rejected = Some u then 1 else 0) f (if n_id n = u then counters st else counters (stored f u))" and "terms d u b m" and "get_node d (n_id n) = Some n"
    and "\<forall>w. rejected = Some w \<longrightarrow> w \<noteq> [] \<and> \<not> (w = u \<and> n_id n = u)" and "f_ids f ! f_pos f = n_id n"
  shows "in_order b m u c0 (after_attempt e d n calls rejected st f)"
proof (rule after_attempt_cases [of e d n calls rejected st f], goal_cases)
  case (2 st')
  let ?g = "put_state (n_id n) st' (put_state (n_id n) st f)"
  have "booked b m u c0 0 ?g (counters (stored ?g u))" using booked_any [OF assms(1)] audit_counters [OF 2(1)] by (cases "n_id n = u") simp_all
  then show ?case using 2(3) terms_budget [OF assms(2)] assms(3) by (auto intro!: in_order_by_status)
next
  case (3 st' w)
  let ?g = "put_state (n_id n) st' (put_state (n_id n) st f)"
  have "booked b m u c0 (if w = u then 1 else 0) ?g (counters (stored ?g u))" using assms(1) audit_counters [OF 3(1)] 3(2) by (cases "n_id n = u") simp_all
  then show ?case using 3(2,3) assms(2-5) by (auto intro!: in_order_redo)
qed simp

lemma in_order_start:
  assumes "booked b m u c0 0 f (counters (stored f u))" and "terms d u b m" and "get_node d (n_id n) = Some n" and "f_ids f ! f_pos f = n_id n"
  shows "in_order b m u c0 (start_node_of_sequence e d n f)"
proof -
  let ?st = "with_status ''running'' (entry_state n f)"
  let ?g = "put_state (n_id n) ?st (entered n f)"
  have c: "counters ?st = counters (stored f (n_id n))" by (simp add: stored_entry)
  have g: "booked b m u c0 0 ?g (if n_id n = u then counters ?st else counters (stored ?g u))" using assms(1) c by (cases "n_id n = u") simp_all
  show ?thesis
  proof (rule start_cases [of e d n f], goal_cases)
    case (2 a f2)
    note o = open_attempt_form [OF 2(1)]
    have "booked b m u c0 0 f2 (if n_id n = u then counters (a_state a) else counters (stored f2 u))"
      using g by (rule booked_opened [OF 2(1)])
    moreover have "stored f2 u = (if n_id n = u then a_state a else stored f u)" "state_of f2 (n_id n) \<noteq> None"
      using o(4) by (auto simp: stored_def)
    ultimately show ?case using 2(2) o(1,2,5,6) assms(4)
      by (auto simp: in_order_def coherent_def current_def owed_def split: if_split_asm)
  next
    case 3
    have "in_order b m u c0 (after_attempt e d n (call_ids e ?st) None (unknown_type_state e n ?st) ?g)"
      using g assms(2-4) by (intro in_order_after_attempt) (simp_all add: unknown_type_state_def counters_def split: if_split_asm)
    then show ?case by (simp add: 3)
  qed simp
qed

lemma in_order_tick:
  assumes "in_order b m u c0 f" and "f_phase f = Ready" and "terms d u b m"
  shows "in_order b m u c0 (tick e d disabled f)"
proof (cases "SentBack u u \<in> set (f_log f)")
  case True
  then have "SentBack u u \<in> set (f_log (tick e d disabled f))" using log_tick [of e d disabled f] by auto
  then show ?thesis by (simp add: in_order_def split: phase.split)
next
  case False
  then have b: "booked b m u c0 0 f (counters (stored f u))" using assms(1,2) by (simp add: in_order_def current_def owed_def)
  show ?thesis
  proof (rule tick_cases [of f e d disabled], goal_cases)
    case (3 n st)
    then show ?case using b get_node_id [OF 3(2)] by (cases "f_ids f ! f_pos f = u") (simp_all add: stored_entry)
  next
    case (4 n st)
    then show ?case using b state_of_stored [OF 4(3)] by (cases "f_ids f ! f_pos f = u") simp_all
  next
    case (6 n)
    then show ?case using b assms(3) get_node_id [OF 6(2)] by (simp add: in_order_start)
  qed (use b in simp_all)
qed

lemma get_node_in: "get_node d u = Some n \<Longrightarrow> n \<in> set (d_nodes d)"
  by (auto simp: get_node_def find_Some_iff) (metis nth_mem rev_nth length_rev set_rev)

lemma in_order_executing:
  assumes "booked b m u c0 (owed f u) f (current f u)" and "coherent u f" and "f_phase f = Executing a" and "SentBack u u \<notin> set (f_log f)"
    and "terms d u b m" and "get_node d (n_id n) = Some n" and "f_ids f ! f_pos f = n_id n"
  shows "in_order b m u c0 (executing_step d e n a x f)"
proof -
  let ?k = "if a_rejected a = Some u then 1 else 0 :: nat"
  have b: "booked b m u c0 ?k f (if n_id n = u then counters (a_state a) else counters (stored f u))"
    using assms(1,3,7) by (simp add: current_def owed_def split: if_split_asm)
  note any = booked_any [OF b]
  have k: "a_rejected a = None \<Longrightarrow> a_attached a" "\<And>w. a_rejected a = Some w \<Longrightarrow> w \<noteq> [] \<and> SentBack (n_id n) w \<in> set (f_log f)"
    "n_id n = u \<Longrightarrow> a_attached a \<Longrightarrow> state_of f u \<noteq> None \<and> counters (a_state a) = counters (stored f u)"
    using assms(2,3,7) by (simp_all add: coherent_def)
  show ?thesis
  proof (rule executing_cases [of d e n a x f], goal_cases)
    case 1
    then show ?case using assms by (simp add: in_order_def)
  next
    case (2 w cp a' f')
    note p = plugin_writes_form [OF 2(1)]
    have at': "state_of f' u \<noteq> None \<and> counters (a_state a') = counters (stored f' u)" if "n_id n = u" "a_attached a'"
      using 2(1) that k(3) by (auto simp: plugin_writes_def stored_def Let_def split: if_split_asm)
    have "stored f' u = stored f u" if "n_id n \<noteq> u" using p(8) [of u] that by (auto simp: stored_def)
    then have "booked b m u c0 ?k f' (if n_id n = u then counters (a_state a') else counters (stored f' u))"
      using b p(1,7) by (cases "n_id n = u") (simp_all add: booked_def)
    then show ?case using 2(2) p(2,5-7,11) k(1,2) at' assms(7)
      by (auto simp: in_order_def current_def owed_def coherent_def split: if_split_asm)
  next
    case (3 reason target r a' f')
    show ?case
    proof (cases rule: on_reject_cases [of e d n reason target a f])
      case (1 r')
      have "f\<lparr>f_phase := Executing a\<rparr> = f" using assms(3) by simp
      then have "executing_step d e n a x f = f" using 3 1 by simp
      then show ?thesis using assms by (simp add: in_order_def)
    next
      case (2 r' up us us' mm a2 g)
      have g: "a' = a2" "f' = g" using 3(1) 2(1) by simp_all
      have up: "up \<noteq> []" using 2(4) assms(5) by (auto simp: terms_def)
      have log: "f_log g = f_log f @ [SentBack (n_id n) up]" "f_ids g = f_ids f" "f_pos g = f_pos f" using 2(13) by auto
      have sg: "stored g v = (if v = n_id n \<and> \<not> a_attached a2 \<and> g \<noteq> put_state up us' (f\<lparr>f_log := f_log f @ [SentBack (n_id n) up]\<rparr>) then a_pre a
          else if v = up then us' else stored f v)" if "v \<noteq> n_id n \<or> a_attached a2" for v
        using 2(13) that by auto
      show ?thesis
      proof (cases "up = u \<and> n_id n = u")
        case True
        then have "SentBack u u \<in> set (f_log (f'\<lparr>f_phase := Executing a'\<rparr>))" using log g by simp
        then show ?thesis using 3(2) by (simp add: in_order_def)
      next
        case False
        have lim: "mm \<le> m" using assms(5) get_node_in [OF assms(6)] 2(5) by (simp add: terms_def)
        have cur: "booked b m u c0 (if up = u then 1 else 0) g (if n_id n = u then counters (a_state a2) else counters (stored g u))"
        proof (cases "up = u")
          case True
          with False have n: "n_id n \<noteq> u" by auto
          have "booked b m u c0 0 f (attempt_count (own us), automatic_retry_count (own us), next_attempt_trigger (own us), reject_upstream_count (own us))"
            using any n state_of_stored [OF 2(3)] True by (simp add: counters_def)
          then have "booked b m u c0 (Suc 0) g (counters us')"
            using 2(6,7) lim log(1) True by (auto intro!: booked_sent)
          then show ?thesis using n True sg [of u] by simp
        next
          case False
          have "stored g u = stored f u" if "n_id n \<noteq> u" using 2(13) that False by auto
          then show ?thesis using any log(1) 2(12) False by (auto simp: booked_def)
        qed
        have coh: "n_id n = u \<longrightarrow> a_attached a2 \<longrightarrow> state_of g u \<noteq> None \<and> counters (a_state a2) = counters (stored g u)"
          using 2(12,13) False k(3) by auto
        show ?thesis using 3(2) g log cur coh up 2(8) assms(7)
          by (auto simp: in_order_def current_def owed_def coherent_def split: if_split_asm)
      qed
    qed
  next
    case (4 r y f')
    then show ?case by simp
  next
    case (5 r st f')
    note ea = end_attempt_form [OF 5(2)]
    have "stored f' u = stored f u" if "n_id n \<noteq> u" using ea(4) [of u] that by (auto simp: stored_def)
    then have "booked b m u c0 ?k f' (if n_id n = u then counters st else counters (stored f' u))"
      using b ea(3,6) by (auto simp: booked_def split: if_split_asm)
    moreover have "\<forall>w. a_rejected a = Some w \<longrightarrow> w \<noteq> [] \<and> \<not> (w = u \<and> n_id n = u)" using k(2) assms(4) by auto
    ultimately show ?case using 5(3) assms(5-7) ea(1,2) by (auto intro!: in_order_after_attempt)
  qed
qed

lemma in_order_retrying:
  assumes "booked b m u c0 0 f (counters (stored f u))" and "coherent u f" and "f_phase f = Retrying (n_id un) a down"
    and "terms d u b m" and "get_node d (n_id un) = Some un"
  shows "in_order b m u c0 (retrying_step e (f_ids f ! f_pos f) un a down x f)"
proof -
  let ?nid = "f_ids f ! f_pos f"
  have k: "a_attached a" "\<not> (n_id un = u \<and> ?nid = u)" "n_id un = u \<Longrightarrow> state_of f u \<noteq> None \<and> counters (a_state a) = counters (stored f u)"
    "?nid = u \<Longrightarrow> counters down = counters (stored f u)"
    using assms(2,3) by (simp_all add: coherent_def)
  show ?thesis
  proof (rule retrying_cases [of e ?nid un a down x f], goal_cases)
    case 1
    then show ?case using assms by (simp add: in_order_def current_def owed_def)
  next
    case (2 w cp a' f')
    note p = plugin_writes_form [OF 2(1)]
    have s: "stored f' u = stored f u" if "n_id un \<noteq> u" using p(8) [of u] that by (auto simp: stored_def)
    have at': "state_of f' u \<noteq> None \<and> counters (a_state a') = counters (stored f' u)" if "n_id un = u"
      using 2(1) that k(1) by (auto simp: plugin_writes_def stored_def Let_def split: if_split_asm)
    have c: "counters (stored f' u) = counters (stored f u)"
      using s at' k(3) p(1) by (cases "n_id un = u") auto
    then show ?case using 2(2) p(5-7,11) k at' assms(1)
      by (auto simp: in_order_def current_def owed_def coherent_def booked_def)
  next
    case (3 r y f')
    then show ?case by simp
  next
    case (4 r st f')
    note ea = end_attempt_form [OF 4(2)]
    obtain left where left: "counters left = counters (a_state a)" "state_of f' (n_id un) = Some left" using ea(5) k(1) by auto
    have c: "counters (stored f' u) = counters (stored f u)"
      using ea(4) [of u] left k(3) by (cases "n_id un = u") (auto simp: stored_def)
    have st: "n_id un = u \<longrightarrow> counters st = counters (stored f' u)" using ea(6) k(3) c by simp
    show ?case using 4(3) assms(1,5) terms_budget [OF assms(4)] c st k(2,4) ea(3)
      by (auto simp: booked_def intro!: in_order_after_retry)
  qed
qed

lemma in_order_step:
  assumes "in_order b m u c0 f" and "terms d u b m" and "u \<in> set (f_ids f)"
  shows "in_order b m u c0 (seq_step d disabled f (e, x))"
proof (cases "SentBack u u \<in> set (f_log f)")
  case True
  then have "SentBack u u \<in> set (f_log (seq_step d disabled f (e, x)))" using log_grows [of d disabled f e x] by auto
  then show ?thesis by (simp add: in_order_def split: phase.split)
next
  case False
  show ?thesis
  proof (rule seq_step_cases [of d disabled f e x], goal_cases)
    case (2 sts pv bb)
    have "state_of (outside e sts pv bb f) u = state_of f u" using assms(3) by (intro outside_form) (simp add: own_nodes_def)
    then have "stored (outside e sts pv bb f) u = stored f u" by (simp add: stored_def)
    with \<open>state_of (outside e sts pv bb f) u = state_of f u\<close> show ?case using 2(2) assms(1)
      by (cases "f_phase f") (auto simp: in_order_def coherent_def current_def owed_def booked_def outside_form(1-4))
  next
    case 3
    then show ?case using in_order_tick [OF assms(1)] assms(2) by simp
  next
    case (4 a n)
    then have bc: "booked b m u c0 (owed f u) f (current f u)" "coherent u f" using assms(1) False by (simp_all add: in_order_def)
    have n: "get_node d (n_id n) = Some n" "f_ids f ! f_pos f = n_id n" using 4(2,3) by simp_all
    have "in_order b m u c0 (executing_step d e n a x f)" by (rule in_order_executing [OF bc 4(1) False assms(2) n])
    then show ?case unfolding 4(4) .
  next
    case (5 w a down un)
    then have bc: "booked b m u c0 0 f (counters (stored f u))" "coherent u f" using assms(1) False by (simp_all add: in_order_def current_def owed_def)
    have n: "f_phase f = Retrying (n_id un) a down" "get_node d (n_id un) = Some un" using 5(1-3) by simp_all
    have "in_order b m u c0 (retrying_step e (f_ids f ! f_pos f) un a down x f)" by (rule in_order_retrying [OF bc n(1) assms(2) n(2)])
    then show ?case unfolding 5(4) .
  qed (use assms(1) in simp)
qed

lemma in_order_run:
  assumes "in_order b m u c0 f" and "terms d u b m" and "u \<in> set (f_ids f)"
  shows "in_order b m u c0 (run_sequence d disabled f evs)"
  using assms(1,3)
proof (induction evs arbitrary: f)
  case (Cons ev evs)
  obtain e x where ev: "ev = (e, x)" by force
  have "in_order b m u c0 (seq_step d disabled f ev)"
    unfolding ev by (rule in_order_step [OF Cons.prems(1) assms(2) Cons.prems(2)])
  with Cons.IH Cons.prems(2) show ?case by simp
qed simp

lemma ledger_bounds:
  "ledger_run b m u (a0, r0, t0, s0) l c q \<Longrightarrow>
     (case c of (a, r, t, s) \<Rightarrow> a = a0 + int (length (filter (\<lambda>x. x = Started u) l)) \<and> r \<le> max (max r0 b) 0 \<and>
       s = s0 + int (length l) - int (length (filter (\<lambda>x. x = Started u) l)) \<and> s \<le> max s0 m)"
  by (induction rule: ledger_run.induct) auto

text \<open>As long as nobody sends \<open>u\<close> back its retries are only ever counted up.\<close>

lemma ledger_without_rejection:
  "ledger_run b m u (a0, r0, t0, s0) l c q \<Longrightarrow> \<forall>v. SentBack v u \<notin> set l \<Longrightarrow>
     q = 0 \<and> (case c of (a, r, t, s) \<Rightarrow> r0 \<le> r \<and> (t = t0 \<and> r = r0 \<or> t = auto_retry_trigger \<and> r0 < r))"
  by (induction rule: ledger_run.induct) auto

lemma ledger_of_run:
  assumes "u \<in> set ids" and "get_node d u = Some n" and "get_node d [] = None"
    and "\<forall>n\<in>set (d_nodes d). \<forall>k. get_max_reject_count n = Inr k \<longrightarrow> k \<le> m"
    and "f = run_sequence d disabled (start_sequence t ids) evs"
    and "SentBack u u \<notin> set (f_log f)" and "\<forall>y. f_phase f \<noteq> Raised y"
  shows "\<exists>q. ledger_run (retry_budget (policy_of n)) m u (counters (dgetd (node_states t) u (new_node_state u)))
    (about u (f_log f)) (current f u) q"
proof -
  have s: "stored (start_sequence t ids) u = dgetd (node_states t) u (new_node_state u)"
    by (simp add: stored_def state_of_def start_sequence_def dgetd_def)
  have "terms d u (retry_budget (policy_of n)) m" using assms(2-4) by (simp add: terms_def)
  moreover have "in_order (retry_budget (policy_of n)) m u (counters (dgetd (node_states t) u (new_node_state u))) (start_sequence t ids)"
    unfolding in_order_def booked_def current_def owed_def coherent_def s [symmetric]
    by (simp add: start_sequence_def) (blast intro: ledger_run.still)
  moreover have "u \<in> set (f_ids (start_sequence t ids))" using assms(1) by (simp add: start_sequence_def)
  ultimately have "in_order (retry_budget (policy_of n)) m u (counters (dgetd (node_states t) u (new_node_state u))) f"
    unfolding assms(5) by (intro in_order_run)
  then show ?thesis using assms(6,7) by (cases "f_phase f") (auto simp: in_order_def booked_def)
qed

text \<open>
  A node that sends back itself: when its new attempt has ended, the loop writes the state of the
  attempt before it over it, and the new attempt is in no count. The theorems below except it.
\<close>

lemma self_rejection_loses_attempt:
  assumes "update_rejection_retry_audit e calls (will_auto_retry un st) st = Inr st'" and "status (own st') \<noteq> ''failed''"
    and "n_id un = nid"
  shows "counters (stored (after_retry e nid un down calls st f) nid) = counters down"
  using assms by (simp add: after_retry_def)

text \<open>
  C10. The loop refines the ledger: in every run that neither raised nor let the node send itself
  back, the counters of a node of the sequence change only by the abstract operations: one attempt
  opened for each start of its plugin; an automatic retry only while the retries of this chain of
  failures are below the budget of the node; one place less below the limit for each time it is
  sent back; and a new chain of failures, with its budget unused, only against a rejection not yet
  used up.
  Excepted are a run that left the sequence with an exception, and a node that sends back itself:
  the loop overwrites its new attempt with the old one (see \<open>self_rejection_loses_attempt\<close>).
\<close>

theorem sequence_refines_ledger:
  assumes "u \<in> set ids" and "get_node d u = Some n" and "get_node d [] = None"
    and "\<forall>n\<in>set (d_nodes d). \<forall>k. get_max_reject_count n = Inr k \<longrightarrow> k \<le> m"
    and "f = run_sequence d disabled (start_sequence t ids) evs"
    and "SentBack u u \<notin> set (f_log f)" and "\<forall>y. f_phase f \<noteq> Raised y"
  shows "\<exists>q. ledger_run (retry_budget (policy_of n)) m u (counters (dgetd (node_states t) u (new_node_state u)))
    (about u (f_log f)) (current f u) q"
  by (rule ledger_of_run) (use assms in simp_all)

text \<open>
  C11. Attempts, retries and rejections of a node of a sequence are bounded and accounted for, in
  every run that neither raised nor let the node send itself back: its attempt count grows by one
  for each start of its plugin, its automatic retries stay within the configured budget, and it is
  sent back at most as often as the largest \<open>max_reject_count\<close> of the workflow leaves room for. As
  long as nobody sends it back the count of its retries never falls: either it and the trigger of
  the next attempt are what they were, or it has grown and the trigger says so, so that the budget
  limits all its automatic retries of the run. A node that sends back itself is excepted, since the
  loop then loses the count of one attempt.
\<close>

theorem attempts_accounted:
  assumes "u \<in> set ids" and "get_node d u = Some n" and "get_node d [] = None"
    and "\<forall>n\<in>set (d_nodes d). \<forall>k. get_max_reject_count n = Inr k \<longrightarrow> k \<le> m"
    and "f = run_sequence d disabled (start_sequence t ids) evs"
    and "SentBack u u \<notin> set (f_log f)" and "\<forall>y. f_phase f \<noteq> Raised y"
    and "dgetd (node_states t) u (new_node_state u) = st0" and "current f u = (a, r, trigger, s)"
  shows "a = attempt_count (own st0) + int (length (filter (\<lambda>x. x = Started u) (f_log f))) \<and>
    r \<le> max (max (automatic_retry_count (own st0)) (retry_budget (policy_of n))) 0 \<and>
    int (length (filter (\<lambda>x. \<exists>v. x = SentBack v u) (f_log f))) \<le> max 0 (m - reject_upstream_count (own st0)) \<and>
    (\<not> sent_back u (f_log f) \<longrightarrow>
       trigger = next_attempt_trigger (own st0) \<and> r = automatic_retry_count (own st0) \<or>
       trigger = auto_retry_trigger \<and> automatic_retry_count (own st0) < r)"
proof -
  obtain a0 r0 t0 s0 where c: "counters st0 = (a0, r0, t0, s0)" by (metis prod.collapse)
  obtain q where "ledger_run (retry_budget (policy_of n)) m u (a0, r0, t0, s0) (about u (f_log f)) (a, r, trigger, s) q"
    using ledger_of_run [OF assms(1-7)] assms(8,9) c by auto
  note b = ledger_bounds [OF this, simplified prod.case] ledger_without_rejection [OF this, simplified prod.case]
  have f: "length (filter (\<lambda>x. x = Started u) (about u l)) = length (filter (\<lambda>x. x = Started u) l)"
    "length (about u l) = length (filter (\<lambda>x. x = Started u) l) + length (filter (\<lambda>x. \<exists>v. x = SentBack v u) l)" for l
  proof (induction l)
    case (Cons x l)
    { case 1 show ?case using Cons.IH(1) by (cases x) (auto simp: about_def) }
    { case 2 show ?case using Cons.IH(2) by (cases x) (auto simp: about_def) }
  qed simp_all
  have c0: "a0 = attempt_count (own st0)" "r0 = automatic_retry_count (own st0)" "t0 = next_attempt_trigger (own st0)"
    "s0 = reject_upstream_count (own st0)"
    using c by (simp_all add: counters_def)
  have "\<not> sent_back u (f_log f) \<Longrightarrow> \<forall>v. SentBack v u \<notin> set (about u (f_log f))" by (auto simp: sent_back_def about_def)
  with b f [of "f_log f"] c0 show ?thesis by auto
qed

end
