(* ===== verification/SequenceDisk.thy ===== *)
theory SequenceDisk
  imports SequenceLedger
begin

text \<open>
  What a crash finds on disk while a sequence runs, what the rejections get wrong, and an example of
  each property of the sequences.
\<close>

section \<open>A crash forgets no attempt\<close>

definition on_disk :: "flow \<Rightarrow> string \<Rightarrow> node_state" where
  "on_disk f u = dgetd (node_states (f_disk f)) u (new_node_state u)"

definition attempts :: "node_state \<Rightarrow> int" where
  "attempts st = attempt_count (own st)"

lemma on_disk_simps [simp]:
  "on_disk (put_state w st f) u = on_disk f u" "on_disk (save e f) u = stored f u" "on_disk (ended k f) u = on_disk f u"
  "on_disk (raised y f) u = on_disk f u" "on_disk (advance f) u = on_disk f u" "on_disk (again f) u = on_disk f u"
  "on_disk (entered n f) u = on_disk f u" "on_disk (f\<lparr>f_phase := p\<rparr>) u = on_disk f u" "on_disk (f\<lparr>f_pos := i\<rparr>) u = on_disk f u"
  "on_disk (f\<lparr>f_log := l\<rparr>) u = on_disk f u"
  "on_disk (f\<lparr>f_task := t\<rparr>) u = on_disk f u"
  by (simp_all add: on_disk_def flow_steps entered_def stored_def dgetd_def Let_def)

lemma attempts_simps [simp]:
  "attempts (update_own (\<lambda>s. s\<lparr>status := x, error := y\<rparr>) st) = attempts st"
  "attempts (reset_downstream st) = attempts st" "attempts (with_status x st) = attempts st"
  by (simp_all add: attempts_def reset_downstream_def with_status_def)

lemma attempts_counters: "counters st = counters st' \<Longrightarrow> attempts st = attempts st'"
  by (simp add: counters_def attempts_def)

text \<open>Task and disk agree that \<open>u\<close> was attempted \<open>k\<close> times.\<close>

definition agree :: "string \<Rightarrow> int \<Rightarrow> flow \<Rightarrow> bool" where
  "agree u k f = (attempts (stored f u) = k \<and> attempts (on_disk f u) = k)"

lemma agree_simps [simp]:
  "agree u k (ended j f) = agree u k f" "agree u k (raised y f) = agree u k f" "agree u k (advance f) = agree u k f"
  "agree u k (again f) = agree u k f" "agree u k (entered n f) = agree u k f"
  "agree u k (f\<lparr>f_phase := p\<rparr>) = agree u k f" "agree u k (f\<lparr>f_pos := i\<rparr>) = agree u k f" "agree u k (f\<lparr>f_log := l\<rparr>) = agree u k f"
  by (simp_all add: agree_def)

lemma agree_put: "agree u k f \<Longrightarrow> w = u \<longrightarrow> attempts st = k \<Longrightarrow> agree u k (put_state w st f)"
  by (simp add: agree_def)

lemma agree_save: "agree u k f \<Longrightarrow> agree u k (save e f)"
  by (simp add: agree_def)

lemmas agree_intros = agree_put agree_save

lemma agree_after_failure:
  assumes "agree u k f" and "n_id n = u \<longrightarrow> attempts st = k"
  shows "agree u k (after_failure e n st f)"
proof -
  have v: "attempts st' = attempts st" if "failed_verdict e n st = Inr (v, st')" for v st'
    using verdict_counters [OF that] by (auto simp: counters_def attempts_def)
  show ?thesis
    by (rule after_failure_cases [of e n st f]) (use assms v in \<open>auto intro!: agree_intros\<close>)
qed

lemma agree_approval:
  assumes "agree u k f" and "n_id n = u \<longrightarrow> attempts st = k"
  shows "agree u k (approval_rejected e n st f)"
proof (rule approval_rejected_cases [of e n st f], goal_cases)
  case (1 st')
  then show ?case using assms attempts_counters [OF 1(2)] by (auto intro!: agree_intros)
next
  case (2 us st')
  have "f_ids f ! (f_pos f - 1) = u \<longrightarrow> attempts us = k"
    using 2(2) assms(1) by (auto simp: agree_def stored_def)
  then show ?case using 2(3) assms attempts_counters [OF 2(4)] by (auto intro!: agree_intros)
qed

lemma agree_by_status:
  assumes "agree u k f" and "n_id n = u \<longrightarrow> attempts st = k"
  shows "agree u k (by_status e n st f)"
  by (rule by_status_cases [of st e n f]) (use assms in \<open>auto simp: agree_approval agree_after_failure intro!: agree_intros\<close>)

lemma agree_after_retry:
  assumes "agree u k f" and "nid = u \<longrightarrow> attempts down = k" and "n_id un = u \<longrightarrow> attempts st = k"
  shows "agree u k (after_retry e nid un down calls st f)"
proof -
  have a: "attempts st' = attempts st" if "update_rejection_retry_audit e calls (will_auto_retry un st) st = Inr st'" for st'
    using audit_counters [OF that] by (auto intro: attempts_counters)
  have v: "attempts st2 = attempts st'" if "failed_verdict e un st' = Inr (v, st2)" for v st' st2
    using verdict_counters [OF that] by (auto simp: counters_def attempts_def)
  show ?thesis
  proof (rule after_retry_cases [of e nid un down calls st f], goal_cases)
    case (5 st' st2 st3)
    then show ?case using assms a [OF 5(1)] v [OF 5(3)] attempts_counters [OF 5(5)] by (auto intro!: agree_intros)
  next
    case (4 st' w st2)
    then show ?case using assms a [OF 4(1)] v [OF 4(3)] by (auto intro!: agree_intros)
  next
    case (3 st' x)
    then show ?case using assms a [OF 3(2)] by (auto intro!: agree_intros)
  next
    case (2 st')
    then show ?case using assms a [OF 2(1)] by (auto intro!: agree_intros)
  qed (use assms in auto)
qed

definition starts_of :: "string \<Rightarrow> flow \<Rightarrow> int" where
  "starts_of u f = int (length (filter (\<lambda>x. x = Started u) (f_log f)))"

lemma agree_opened:
  assumes "open_attempt e d w st calls f = (a, f')" and "agree u k f" and "w = u \<longrightarrow> attempts st = k"
  shows "agree u (if w = u then k + 1 else k) f'" "w = u \<Longrightarrow> attempts (a_state a) = k + 1"
    "starts_of u f' = starts_of u f + (if w = u then 1 else 0)"
proof -
  note o = open_attempt_form [OF assms(1)]
  have c: "attempts (a_state a) = attempts st + 1" by (simp add: o(7) begin_node_def begin_node_attempt_def attempts_def Let_def split: prod.split)
  have s: "stored f' u = (if w = u then a_state a else stored f u)" using o(4) by (auto simp: stored_def)
  moreover have "on_disk f' u = stored f' u" by (simp add: on_disk_def stored_def state_of_def dgetd_def o(8))
  ultimately show "agree u (if w = u then k + 1 else k) f'" using assms(2,3) c by (simp add: agree_def)
  show "w = u \<Longrightarrow> attempts (a_state a) = k + 1" using c assms(3) by simp
  show "starts_of u f' = starts_of u f + (if w = u then 1 else 0)" using o(3) by (simp add: starts_of_def)
qed

text \<open>
  The invariant for a node that sends nobody back: its attempts in the task, on disk and in the log
  agree, and its running state is the one in the task.
\<close>

definition recorded :: "string \<Rightarrow> int \<Rightarrow> flow \<Rightarrow> bool" where
  "recorded u k0 f =
     (agree u (k0 + starts_of u f) f \<and>
      (case f_phase f of
         Executing a \<Rightarrow> f_ids f ! f_pos f = u \<longrightarrow> a_rejected a = None \<and> a_attached a \<and> attempts (a_state a) = k0 + starts_of u f
       | Retrying w a down \<Rightarrow> f_ids f ! f_pos f \<noteq> u \<and> a_attached a \<and> (w = u \<longrightarrow> attempts (a_state a) = k0 + starts_of u f)
       | _ \<Rightarrow> True))"

definition stopped_phase :: "phase \<Rightarrow> bool" where
  "stopped_phase p = (case p of Executing _ \<Rightarrow> False | Retrying _ _ _ \<Rightarrow> False | _ \<Rightarrow> True)"

lemma recorded_stopped: "stopped_phase (f_phase f) \<Longrightarrow> recorded u k0 f \<longleftrightarrow> agree u (k0 + starts_of u f) f"
  by (auto simp: recorded_def stopped_phase_def split: phase.splits)

lemma phase_after_failure: "stopped_phase (f_phase (after_failure e n st f))"
  by (rule after_failure_cases [of e n st f]) (simp_all add: stopped_phase_def)

lemma phase_by_status: "stopped_phase (f_phase (by_status e n st f))"
  by (rule by_status_cases [of st e n f])
    (simp_all add: phase_after_failure, rule approval_rejected_cases [of e n st f], simp_all add: stopped_phase_def)

lemma phase_after_retry: "stopped_phase (f_phase (after_retry e nid un down calls st f))"
  by (rule after_retry_cases [of e nid un down calls st f]) (simp_all add: stopped_phase_def)

lemma starts_of_simps [simp]:
  "starts_of u (put_state w st f) = starts_of u f" "starts_of u (save e f) = starts_of u f" "starts_of u (ended k f) = starts_of u f"
  "starts_of u (raised y f) = starts_of u f" "starts_of u (advance f) = starts_of u f" "starts_of u (again f) = starts_of u f"
  "starts_of u (entered n f) = starts_of u f" "starts_of u (f\<lparr>f_phase := p\<rparr>) = starts_of u f"
  by (simp_all add: starts_of_def)

lemma starts_of_by_status [simp]: "starts_of u (by_status e n st f) = starts_of u f"
  using log_by_status [of e n st f] by (auto simp: starts_of_def)

lemma starts_of_after_retry [simp]: "starts_of u (after_retry e nid un down calls st f) = starts_of u f"
  by (simp add: starts_of_def)

lemma recorded_by_status:
  assumes "agree u (k0 + starts_of u f) f" and "n_id n = u \<longrightarrow> attempts st = k0 + starts_of u f"
  shows "recorded u k0 (by_status e n st f)"
  using agree_by_status [OF assms] by (simp add: recorded_stopped phase_by_status)

lemma recorded_redo:
  assumes "agree u (k0 + starts_of u f) f" and "w \<noteq> []" and "n_id n \<noteq> u" and "f_ids f ! f_pos f = n_id n"
  shows "recorded u k0 (redo_upstream e d n w st f)"
proof -
  have w: "target_of d n w = w" using assms(2) by (simp add: target_of_def)
  have r: "attempts r = k0 + starts_of u f" if "state_of f u = Some us" "sent_back_state us = Inr r" for us r
    using sent_back_counters [OF that(2)] assms(1) that(1) by (simp add: counters_def attempts_def agree_def stored_def)
  show ?thesis
  proof (rule redo_upstream_cases [of d n w e st f], goal_cases)
    case 1
    then show ?case using w assms(2) by simp
  next
    case (4 us un r' a f2)
    have g: "agree u (k0 + starts_of u f) (save e (put_state w r' f))"
      using assms(1) r 4(2,4) w by (auto intro!: agree_intros)
    have "w = u \<longrightarrow> attempts r' = k0 + starts_of u f" using r 4(2,4) w by auto
    note o = agree_opened [OF 4(5) [unfolded w] g this] and p = open_attempt_form [OF 4(5) [unfolded w]]
    show ?case using 4(6) o p(1,2,6) assms(3,4) w by (auto simp: recorded_def algebra_simps split: if_split_asm)
  next
    case (5 us un r')
    have un: "n_id un = w" using get_node_id [OF 5(3)] w by simp
    let ?u = "unknown_type_state e un r'"
    have c: "attempts ?u = attempts r'" by (simp add: unknown_type_state_def attempts_def)
    have k: "w = u \<longrightarrow> attempts ?u = k0 + starts_of u f" using r 5(2,4) w c by auto
    have "agree u (k0 + starts_of u f) (put_state w ?u (save e (put_state w r' f)))"
      using assms(1) k c by (auto intro!: agree_intros)
    then have "agree u (k0 + starts_of u f) (after_retry e (n_id n) un st (call_ids e us) ?u (put_state w ?u (save e (put_state w r' f))))"
      using assms(3) k un by (intro agree_after_retry) simp_all
    then show ?case using 5(5) w by (simp add: recorded_stopped phase_after_retry)
  qed (use assms(1) in \<open>simp_all add: recorded_def\<close>)
qed

lemma recorded_after_attempt:
  assumes "agree u (k0 + starts_of u f) f" and "n_id n = u \<longrightarrow> attempts st = k0 + starts_of u f \<and> rejected = None"
    and "\<forall>w. rejected = Some w \<longrightarrow> w \<noteq> []" and "f_ids f ! f_pos f = n_id n"
  shows "recorded u k0 (after_attempt e d n calls rejected st f)"
proof (rule after_attempt_cases [of e d n calls rejected st f], goal_cases)
  case (1 x)
  then show ?case using assms(1,2) by (auto simp: recorded_def intro!: agree_intros)
next
  case (2 st')
  have c: "attempts st' = attempts st" using audit_counters [OF 2(1)] by (auto intro: attempts_counters)
  have "agree u (k0 + starts_of u f) (put_state (n_id n) st' (put_state (n_id n) st f))"
    using assms(1,2) c by (auto intro!: agree_intros)
  then show ?case using 2(3) assms(2) c by (auto intro!: recorded_by_status)
next
  case (3 st' w)
  then have n: "n_id n \<noteq> u" using assms(2) by auto
  have "agree u (k0 + starts_of u f) (put_state (n_id n) st' (put_state (n_id n) st f))"
    using assms(1) n by (auto intro!: agree_intros)
  then show ?case using 3(2,3) assms(3,4) n by (auto intro!: recorded_redo)
qed

lemma recorded_start:
  assumes "agree u (k0 + starts_of u f) f" and "f_ids f ! f_pos f = n_id n"
  shows "recorded u k0 (start_node_of_sequence e d n f)"
proof -
  let ?st = "with_status ''running'' (entry_state n f)"
  let ?g = "put_state (n_id n) ?st (entered n f)"
  have c: "n_id n = u \<longrightarrow> attempts ?st = k0 + starts_of u f" using assms(1) by (auto simp: stored_entry agree_def)
  then have g: "agree u (k0 + starts_of u f) ?g" using assms(1) by (intro agree_put) simp_all
  show ?thesis
  proof (rule start_cases [of e d n f], goal_cases)
    case (1 x)
    then show ?case using g by (simp add: recorded_stopped stopped_phase_def)
  next
    case (2 a f2)
    note o = agree_opened [OF 2(1) g c] and p = open_attempt_form [OF 2(1)]
    show ?case using 2(2) o p(1,2,5,6) assms(2) by (auto simp: recorded_def algebra_simps split: if_split_asm)
  next
    case 3
    have "recorded u k0 (after_attempt e d n (call_ids e ?st) None (unknown_type_state e n ?st) ?g)"
      using g c assms(2) by (intro recorded_after_attempt) (simp_all add: unknown_type_state_def attempts_def)
    then show ?case by (simp add: 3)
  qed
qed

lemma recorded_tick:
  assumes "recorded u k0 f" and "f_phase f = Ready"
  shows "recorded u k0 (tick e d disabled f)"
proof -
  have g: "agree u (k0 + starts_of u f) f" using assms by (simp add: recorded_def)
  show ?thesis
  proof (rule tick_cases [of f e d disabled], goal_cases)
    case (3 n st)
    have "f_ids f ! f_pos f = u \<longrightarrow> attempts st = k0 + starts_of u f"
      using g 3(4) get_node_id [OF 3(2)] attempts_counters [OF 3(4)] by (auto simp: stored_entry agree_def)
    then have "agree u (k0 + starts_of u f) (save e (put_state (f_ids f ! f_pos f) st f))" using g by (intro agree_intros)
    then show ?case using 3(5) by (simp add: recorded_stopped stopped_phase_def)
  next
    case (4 n st)
    let ?st = "with_status (normalize_node_status (status (own st))) st"
    have "f_ids f ! f_pos f = u \<longrightarrow> attempts ?st = k0 + starts_of u f"
      using g state_of_stored [OF 4(3)] by (auto simp: agree_def)
    then have "agree u (k0 + starts_of u f) (put_state (f_ids f ! f_pos f) ?st f)" using g by (intro agree_intros)
    then show ?case using 4(5) by (simp add: recorded_stopped stopped_phase_def)
  next
    case (6 n)
    then show ?case using g get_node_id [OF 6(2)] by (simp add: recorded_start)
  qed (use g in \<open>simp_all add: recorded_stopped stopped_phase_def\<close>)
qed

lemma plugin_writes_agree:
  assumes "plugin_writes e nid w cp a f = (a', f')" and "agree u k f" and "nid = u \<longrightarrow> a_attached a \<and> attempts (a_state a) = k"
  shows "agree u k f'" "nid = u \<longrightarrow> a_attached a' \<and> attempts (a_state a') = k" "starts_of u f' = starts_of u f"
proof -
  have c: "attempts (plugin_update w (a_state a)) = attempts (a_state a)" by (simp add: plugin_update_def attempts_def)
  show "agree u k f'" "nid = u \<longrightarrow> a_attached a' \<and> attempts (a_state a') = k" "starts_of u f' = starts_of u f"
    using assms c by (auto simp: plugin_writes_def Let_def intro!: agree_intros split: if_split_asm)
qed

lemma end_attempt_agree:
  assumes "end_attempt e nid a r f = (res, f')" and "agree u k f" and "nid = u \<longrightarrow> a_attached a \<and> attempts (a_state a) = k"
  shows "agree u k f'" "res = Inr st \<Longrightarrow> nid = u \<Longrightarrow> attempts st = k" "starts_of u f' = starts_of u f"
proof -
  note ea = end_attempt_form [OF assms(1)]
  have "f_disk f' = f_disk f"
    using assms(1) by (auto simp: end_attempt_def put_state_def Let_def split: sum.split_asm option.split_asm if_split_asm)
  moreover have "attempts (stored f' u) = k"
  proof (cases "nid = u")
    case True
    then obtain left where l: "counters left = counters (a_state a)" "state_of f' u = Some left" using ea(5) assms(3) by auto
    then have "attempts (stored f' u) = attempts (a_state a)" using attempts_counters [OF l(1)] by (simp add: stored_def)
    then show ?thesis using assms(3) True by simp
  next
    case False
    then show ?thesis using ea(4) [of u] assms(2) by (auto simp: stored_def agree_def)
  qed
  ultimately show "agree u k f'" using assms(2) by (simp add: agree_def on_disk_def)
  show "res = Inr st \<Longrightarrow> nid = u \<Longrightarrow> attempts st = k" using attempts_counters [OF ea(6)] assms(3) by simp
  show "starts_of u f' = starts_of u f" using ea(3) by (simp add: starts_of_def)
qed

definition sends_back :: "string \<Rightarrow> action list \<Rightarrow> bool" where
  "sends_back v l = (\<exists>w. SentBack v w \<in> set l)"

lemma recorded_executing:
  assumes "recorded u k0 f" and "f_phase f = Executing a" and "get_node d [] = None" and "f_ids f ! f_pos f = n_id n"
    and "a_rejected a \<noteq> Some []"
  shows "sends_back u (f_log (executing_step d e n a x f)) \<or> recorded u k0 (executing_step d e n a x f)"
proof -
  have g: "agree u (k0 + starts_of u f) f" "n_id n = u \<longrightarrow> a_attached a \<and> attempts (a_state a) = k0 + starts_of u f"
    "n_id n = u \<longrightarrow> a_rejected a = None"
    using assms(1,2,4) by (simp_all add: recorded_def)
  show ?thesis
  proof (rule executing_cases [of d e n a x f], goal_cases)
    case 1
    then show ?case using assms(1) by simp
  next
    case (2 w cp a' f')
    note p = plugin_writes_form [OF 2(1)] and q = plugin_writes_agree [OF 2(1) g(1,2)]
    show ?case using 2(2) p(2,5,6) q g(3) assms(4) by (auto simp: recorded_def)
  next
    case (3 reason target r a' f')
    show ?case
    proof (cases rule: on_reject_cases [of e d n reason target a f])
      case (1 r')
      have "f\<lparr>f_phase := Executing a\<rparr> = f" using assms(2) by simp
      then have "executing_step d e n a x f = f" using 3 1 by simp
      then show ?thesis using assms(1) by simp
    next
      case (2 r' up us us' mm a2 h)
      have h: "a' = a2" "f' = h" using 3(1) 2(1) by simp_all
      have log: "f_log h = f_log f @ [SentBack (n_id n) up]" "f_ids h = f_ids f" "f_pos h = f_pos f" using 2(13) by auto
      show ?thesis
      proof (cases "n_id n = u")
        case True
        have "SentBack u up \<in> set (f_log (executing_step d e n a x f))" using 3(2) h(2) log(1) True by simp
        then show ?thesis by (auto simp: sends_back_def)
      next
        case False
        have "attempts us' = attempts us" using 2(7) by (simp add: counters_def attempts_def)
        then have "up = u \<longrightarrow> attempts us' = k0 + starts_of u f" using g(1) state_of_stored [OF 2(3)] by (auto simp: agree_def)
        then have "agree u (k0 + starts_of u f) h" using 2(13) g(1) False by (auto intro!: agree_put)
        moreover have "starts_of u h = starts_of u f" using log(1) by (simp add: starts_of_def)
        ultimately show ?thesis using 3(2) h log(2,3) False assms(4) by (simp add: recorded_def)
      qed
    qed
  next
    case (4 r y f')
    note q = end_attempt_agree [OF 4(2) g(1,2)]
    show ?case using 4(3) q by (simp add: recorded_def)
  next
    case (5 r st f')
    note q = end_attempt_agree [OF 5(2) g(1,2)] and ea = end_attempt_form(1,2) [OF 5(2)]
    have "recorded u k0 (after_attempt e d n (a_calls a) (a_rejected a) st f')"
      using q g(3) ea assms(4,5) by (intro recorded_after_attempt) auto
    then show ?case using 5(3) by simp
  qed
qed

lemma recorded_retrying:
  assumes "recorded u k0 f" and "f_phase f = Retrying (n_id un) a down"
  shows "recorded u k0 (retrying_step e (f_ids f ! f_pos f) un a down x f)"
proof -
  let ?nid = "f_ids f ! f_pos f"
  have g: "agree u (k0 + starts_of u f) f" "?nid \<noteq> u" "n_id un = u \<longrightarrow> a_attached a \<and> attempts (a_state a) = k0 + starts_of u f" "a_attached a"
    using assms by (simp_all add: recorded_def)
  show ?thesis
  proof (rule retrying_cases [of e ?nid un a down x f], goal_cases)
    case 1
    then show ?case using assms(1) by simp
  next
    case (2 w cp a' f')
    note p = plugin_writes_form [OF 2(1)] and q = plugin_writes_agree [OF 2(1) g(1,3)]
    show ?case using 2(2) p(5,6,11) q g(2,4) by (auto simp: recorded_def)
  next
    case (3 r y f')
    note q = end_attempt_agree [OF 3(2) g(1,3)]
    show ?case using 3(3) q by (simp add: recorded_def)
  next
    case (4 r st f')
    note q = end_attempt_agree [OF 4(2) g(1,3)]
    have "agree u (k0 + starts_of u f') (after_retry e ?nid un down (a_calls a) st f')"
      using q g(2) by (intro agree_after_retry) auto
    then show ?case using 4(3) by (simp add: recorded_stopped phase_after_retry)
  qed
qed

definition rejection_named :: "flow \<Rightarrow> bool" where
  "rejection_named f = (case f_phase f of Executing a \<Rightarrow> a_rejected a \<noteq> Some [] | _ \<Rightarrow> True)"

lemma rejection_named_simps [simp]: "stopped_phase (f_phase f) \<Longrightarrow> rejection_named f"
  by (auto simp: rejection_named_def stopped_phase_def split: phase.splits)

lemma rejection_named_redo: "rejection_named (redo_upstream e d n w st f)"
proof (rule redo_upstream_cases [of d n w e st f], goal_cases)
  case (4 us un r a f2)
  then show ?case by (simp add: rejection_named_def)
qed (simp_all add: phase_by_status phase_after_retry rejection_named_def [of "ended _ _"] rejection_named_def [of "raised _ _"])

lemma rejection_named_after_attempt: "rejection_named (after_attempt e d n calls rejected st f)"
  by (rule after_attempt_cases [of e d n calls rejected st f])
    (simp_all add: rejection_named_redo phase_by_status rejection_named_def [of "raised _ _"])

lemma rejection_named_step:
  assumes "rejection_named f" and "get_node d [] = None"
  shows "rejection_named (seq_step d disabled f (e, x))"
proof (rule seq_step_cases [of d disabled f e x], goal_cases)
  case (2 sts pv b)
  then show ?case using assms(1) by (simp add: rejection_named_def outside_form)
next
  case 3
  have "rejection_named (tick e d disabled f)"
  proof (rule tick_cases [of f e d disabled], goal_cases)
    case (6 n)
    have "rejection_named (start_node_of_sequence e d n f)"
    proof (rule start_cases [of e d n f], goal_cases)
      case (2 a f2)
      then show ?case using open_attempt_form(5) [OF 2(1)] by (simp add: rejection_named_def)
    qed (simp_all add: rejection_named_after_attempt rejection_named_def [of "raised _ _"])
    then show ?case using 6(4) by simp
  qed (simp_all add: rejection_named_def)
  then show ?case using 3(2) by simp
next
  case (4 a n)
  have "rejection_named (executing_step d e n a x f)"
  proof (rule executing_cases [of d e n a x f], goal_cases)
    case 1
    then show ?case using assms(1) by simp
  next
    case (2 w cp a' f')
    then show ?case using plugin_writes_form(2) [OF 2(1)] assms(1) 4(1) by (simp add: rejection_named_def)
  next
    case (3 reason target r a' f')
    show ?case using 3 assms 4(1)
      by (cases rule: on_reject_cases [of e d n reason target a f]) (auto simp: rejection_named_def)
  qed (simp_all add: rejection_named_after_attempt rejection_named_def [of "raised _ _"])
  then show ?case using 4(4) by simp
next
  case (5 u a down un)
  have "rejection_named (retrying_step e (f_ids f ! f_pos f) un a down x f)"
    by (rule retrying_cases [of e "f_ids f ! f_pos f" un a down x f])
      (use assms(1) in \<open>simp_all add: phase_after_retry rejection_named_def [of "raised _ _"] rejection_named_def [of "f_phase_update _ _"]\<close>)
  then show ?case using 5(4) by simp
qed (use assms(1) in simp)

lemma recorded_step:
  assumes "recorded u k0 f" and "rejection_named f" and "get_node d [] = None" and "u \<in> set (f_ids f)"
  shows "sends_back u (f_log (seq_step d disabled f (e, x))) \<or> recorded u k0 (seq_step d disabled f (e, x))"
proof (rule seq_step_cases [of d disabled f e x], goal_cases)
  case (2 sts pv b)
  have "u \<in> own_nodes f" using assms(4) by (simp add: own_nodes_def)
  then have s: "stored (outside e sts pv b f) u = stored f u" by (simp add: stored_def outside_form(5))
  have f: "f_disk (fold (\<lambda>(u, st). if u \<in> W then id else put_state u st) sts h) = f_disk h" for W h
    by (induction sts arbitrary: h) (auto simp: put_state_def)
  have a: "agree u (k0 + starts_of u f) f" using assms(1) by (simp add: recorded_def)
  have "on_disk (outside e sts pv b f) u = (if b then stored (outside e sts pv b f) u else on_disk f u)"
    using f by (auto simp: outside_def on_disk_def save_def stored_def state_of_def dgetd_def Let_def)
  then have "agree u (k0 + starts_of u f) (outside e sts pv b f)" using s a by (cases b) (simp_all add: agree_def)
  moreover have "starts_of u (outside e sts pv b f) = starts_of u f" by (simp add: starts_of_def outside_form)
  ultimately show ?case using 2(2) assms(1) by (cases "f_phase f") (simp_all add: recorded_def outside_form(1,2,4))
next
  case 3
  then show ?case using recorded_tick [OF assms(1)] by simp
next
  case (4 a n)
  have "a_rejected a \<noteq> Some []" using assms(2) 4(1) by (simp add: rejection_named_def)
  then show ?case using 4 recorded_executing [OF assms(1) 4(1) assms(3), of n e x] by simp
next
  case (5 w a down un)
  then show ?case using recorded_retrying [OF assms(1), of un a down e x] by simp
qed (use assms(1) in simp)

lemma recorded_run:
  assumes "recorded u k0 f" and "rejection_named f" and "get_node d [] = None" and "u \<in> set (f_ids f)"
    and "\<not> sends_back u (f_log (run_sequence d disabled f evs))"
  shows "recorded u k0 (run_sequence d disabled f evs)"
  using assms(1,2,4,5)
proof (induction evs arbitrary: f)
  case (Cons ev evs)
  obtain e x where ev: "ev = (e, x)" by force
  obtain l where "f_log (run_sequence d disabled (seq_step d disabled f ev) evs) = f_log (seq_step d disabled f ev) @ l"
    using log_grows_run [where f = "seq_step d disabled f ev" and evs = evs and d = d and disabled = disabled] by blast
  then have "\<not> sends_back u (f_log (seq_step d disabled f ev))" using Cons.prems(4) by (auto simp: sends_back_def)
  then have "recorded u k0 (seq_step d disabled f ev)"
    using recorded_step [OF Cons.prems(1,2) assms(3) Cons.prems(3), of disabled e x] by (simp add: ev)
  moreover have "rejection_named (seq_step d disabled f ev)"
    using rejection_named_step [OF Cons.prems(2) assms(3), of disabled e x] by (simp add: ev)
  ultimately show ?case using Cons.IH Cons.prems(3,4) by simp
qed simp

text \<open>
  C13. A crash forgets no attempt: at every moment of a run, what is on disk counts every start of
  the plugin of a node of the sequence, so a restart finds an attempt that was opened before any
  effect of the plugin. A node that sends another one back is excepted: until its next checkpoint
  the loop keeps the state before its attempt (see \<open>rejection_forgets_attempt\<close>).
\<close>

theorem started_attempts_on_disk:
  assumes "u \<in> set ids" and "get_node d [] = None"
    and "f = run_sequence d disabled (start_sequence t ids) evs" and "\<forall>w. SentBack u w \<notin> set (f_log f)"
  shows "attempt_count (own (dgetd (node_states (f_disk f)) u (new_node_state u))) =
    attempt_count (own (dgetd (node_states t) u (new_node_state u))) + int (length (filter (\<lambda>x. x = Started u) (f_log f)))"
proof -
  let ?k = "attempt_count (own (dgetd (node_states t) u (new_node_state u)))"
  have "recorded u ?k (start_sequence t ids)"
    by (simp add: recorded_def agree_def attempts_def on_disk_def stored_def state_of_def starts_of_def start_sequence_def dgetd_def
        split: option.split)
  moreover have "rejection_named (start_sequence t ids)" "u \<in> set (f_ids (start_sequence t ids))"
    using assms(1) by (simp_all add: rejection_named_def start_sequence_def)
  moreover have "\<not> sends_back u (f_log f)" using assms(4) by (simp add: sends_back_def)
  ultimately have "recorded u ?k f" unfolding assms(3) by (intro recorded_run assms(2))
  then show ?thesis by (simp add: recorded_def agree_def attempts_def on_disk_def starts_of_def)
qed

section \<open>What rejections get wrong\<close>

text \<open>
  An approval that rejects sends its neighbour to \<open>running\<close> and steps back; the next turn of the
  loop takes the neighbour for one that a crash left running, and the sequence fails.
\<close>

lemma approval_rollback_fails:
  assumes "f_phase (approval_rejected e n st f) = Ready" and "distinct (f_ids f)" and "f_pos f < length (f_ids f)"
    and "n_id n = f_ids f ! f_pos f" and "get_node d (f_ids f ! (f_pos f - 1)) = Some un" and "f_ids f ! (f_pos f - 1) \<notin> set disabled"
  shows "tick e' d disabled (approval_rejected e n st f) = ended Failed (approval_rejected e n st f)"
proof (rule approval_rejected_cases [of e n st f], goal_cases)
  case (1 st')
  then show ?case using assms(1) by simp
next
  case (2 us st')
  have "f_ids f ! (f_pos f - 1) \<noteq> n_id n" using assms(2-4) 2(1) by (simp add: nth_eq_iff_index_eq)
  then show ?case using 2 assms(3,5,6) by (simp add: tick_def normalize_node_status_def)
qed

text \<open>
  A node sent back that is an approval, and rejects, does not stop the sequence: the node after it
  is started with the approval standing at \<open>rejected\<close>.
\<close>

lemma rejected_approval_passed:
  assumes "update_rejection_retry_audit e calls (will_auto_retry un st) st = Inr st'" and "status (own st) = ''rejected''"
    and "n_id n = f_ids f ! f_pos f" and "f_pos f < length (f_ids f)" and "get_node d (n_id n) = Some n" and "n_id n \<notin> set disabled"
    and "n_id n \<noteq> n_id un" and "g = after_retry e (n_id n) un down calls st f"
  shows "state_of g (n_id un) = Some st' \<and> status (own st') = ''rejected'' \<and> tick e' d disabled g = start_node_of_sequence e' d n g"
proof -
  have st': "status (own st') = ''rejected''" using audit_counters [OF assms(1)] assms(2) by simp
  then have g: "g = again (save e (put_state (n_id n) (reset_downstream down) (put_state (n_id un) st' f)))"
    using assms(1,8) by (simp add: after_retry_def Let_def)
  have "tick e' d disabled g = start_node_of_sequence e' d n g"
    using assms(3-6) by (simp add: g tick_def normalize_node_status_def reset_downstream_def flip: assms(3))
  then show ?thesis using st' assms(7) g by simp
qed

text \<open>
  An accepted rejection puts the state from before the attempt of the rejecting node back into the
  task: a save of another branch before the next checkpoint writes a running node that has lost its
  attempt and its inputs.
\<close>

lemma rejection_forgets_attempt:
  assumes "on_reject_upstream e d n reason target a f = (Inr (Accepted up c m), a', f')"
  shows "state_of f' (n_id n) = Some (a_pre a)"
  using assms by (auto simp: on_reject_upstream_def Let_def split: sum.split_asm prod.split_asm)
    (auto simp: reject_check_def bind_err_Inr_iff split: option.split_asm if_split_asm)

section \<open>Examples\<close>

definition two_nodes :: workflow_def where
  "two_nodes = sample_flow\<lparr>d_nodes := [new_node ''a'', new_node ''b'']\<rparr>"

definition plain_task :: task where
  "plain_task = \<lparr>task_id = ''t'', workflow_id = ''w'', task_name = [], task_status = ''running'', main_session_id = None,
     main_takeover = False, current_node_id = None, run_id = None, created_at = [], updated_at = [], task_started_at = None,
     task_completed_at = None, node_states = [], snapshot_definition = None, parameter_values = [], snapshot_variables = None,
     workspace_override = None, workspace_mode = [], workspace_ref = None, disabled_node_ids = [], scheme_id = None,
     control_flow_state = [], executor_id = None, executor_epoch = None\<rparr>"

definition finished_task :: task where
  "finished_task = plain_task\<lparr>node_states := [(''a'', with_status ''completed'' (new_node_state ''a''))]\<rparr>"

lemma two_nodes_get [simp]:
  "get_node two_nodes ''a'' = Some (new_node ''a'')" "get_node two_nodes [] = None" "d_nodes two_nodes = [new_node ''a'', new_node ''b'']"
  by (simp_all add: two_nodes_def get_node_def new_node_def)

lemma finished_states [simp]: "node_states finished_task = [(''a'', with_status ''completed'' (new_node_state ''a''))]"
  by (simp add: finished_task_def)

lemma finished_tick:
  "seq_step two_nodes [] (start_sequence finished_task [''a'']) (sample_env, Tick) =
     advance (put_state ''a'' (with_status ''completed'' (with_status ''completed'' (new_node_state ''a''))) (start_sequence finished_task [''a'']))"
  by (simp add: seq_step_def tick_def start_sequence_def state_of_def normalize_node_status_def with_status_def Let_def)

lemma settled_nodes_not_rerun_witness:
  "Started ''a'' \<notin> set (f_log (run_sequence two_nodes [] (start_sequence finished_task [''a'']) [(sample_env, Tick)]))"
proof (rule settled_nodes_not_rerun)
  show "dget (node_states finished_task) ''a'' = Some (with_status ''completed'' (new_node_state ''a''))" by simp
  show "inert (with_status ''completed'' (new_node_state ''a''))" by (simp add: inert_def normalize_node_status_def)
  show "\<not> sent_back ''a'' (f_log (run_sequence two_nodes [] (start_sequence finished_task [''a'']) [(sample_env, Tick)]))"
    by (simp add: finished_tick) (simp add: start_sequence_def)
qed simp_all

lemma completed_sequence_settled_witness:
  "\<exists>st. state_of (run_sequence two_nodes [] (start_sequence finished_task [''a'']) [(sample_env, Tick), (sample_env, Tick)]) ''a'' = Some st \<and>
    normalize_node_status (status (own st)) \<in> {''skipped'', ''completed''}"
proof (rule completed_sequence_settled)
  let ?g = "seq_step two_nodes [] (start_sequence finished_task [''a'']) (sample_env, Tick)"
  have "f_phase ?g = Ready" "length (f_ids ?g) \<le> f_pos ?g" by (simp_all add: finished_tick) (simp add: start_sequence_def)
  then have "f_phase (seq_step two_nodes [] ?g (sample_env, Tick)) = Ended Completed"
    by (simp only: seq_step_def [of _ _ ?g] Let_def prod.case) (simp add: tick_def)
  then show "f_phase (run_sequence two_nodes [] (start_sequence finished_task [''a'']) [(sample_env, Tick), (sample_env, Tick)]) = Ended Completed"
    by simp
  show "results [(sample_env, Tick), (sample_env, Tick)] \<subseteq> {''completed'', ''skipped'', ''failed'', ''rejected''}"
    by (simp add: results_def)
  show "''rejected'' \<in> results [(sample_env, Tick), (sample_env, Tick)] \<longrightarrow>
      (\<forall>u. \<not> sent_back u (f_log (run_sequence two_nodes [] (start_sequence finished_task [''a'']) [(sample_env, Tick), (sample_env, Tick)])))"
    by (simp add: results_def)
qed simp_all

text \<open>The first turn starts the plugin of a fresh node.\<close>

lemma fresh_tick:
  obtains a f where "run_sequence two_nodes [] (start_sequence plain_task [''a'']) [(sample_env, Tick)] = f" "f_phase f = Executing a"
    "f_log f = [Started ''a'']" "counters (a_state a) = (1, 0, ''initial'', 0)" "f_ids f = [''a'']" "f_pos f = 0"
proof -
  let ?f = "start_sequence plain_task [''a'']" and ?n = "new_node ''a''"
  let ?st = "with_status ''running'' (entry_state ?n ?f)"
  have n: "n_id ?n = ''a''" "n_type ?n = ''agent''" by (simp_all add: new_node_def)
  have e: "entry_state ?n ?f = new_node_state ''a''" by (simp add: entry_state_def state_of_def start_sequence_def plain_task_def n)
  have fb: "with_rejection_feedback sample_env ?n ?st = Inr ?n"
    by (simp add: with_rejection_feedback_def retrying_event_def e with_status_def) (simp add: new_node_state_def)
  obtain a g where o: "open_attempt sample_env two_nodes ''a'' ?st (call_ids sample_env ?st) (put_state ''a'' ?st (entered ?n ?f)) = (a, g)" by force
  have t: "seq_step two_nodes [] ?f (sample_env, Tick) = start_node_of_sequence sample_env two_nodes ?n ?f"
    by (simp add: seq_step_def start_sequence_def tick_def state_of_def Let_def) (simp add: plain_task_def)
  have s: "start_node_of_sequence sample_env two_nodes ?n ?f = g\<lparr>f_phase := Executing a\<rparr>"
    using o fb unfolding start_node_of_sequence_def Let_def with_status_def [symmetric] entry_state_dgetd [symmetric] entered_def [symmetric]
    by (simp add: n sample_env_def)
  note p = open_attempt_form [OF o]
  have c: "counters (a_state a) = (1, 0, ''initial'', 0)"
    by (simp add: p(7) begin_counters(1)) (simp add: e with_status_def new_node_state_def)
  show ?thesis
    by (rule that [of "g\<lparr>f_phase := Executing a\<rparr>" a]) (use t s p c in \<open>simp_all add: start_sequence_def\<close>)
qed

lemma sample_limit: "\<forall>n\<in>set (d_nodes two_nodes). \<forall>k. get_max_reject_count n = Inr k \<longrightarrow> k \<le> 3"
  by (simp add: get_max_reject_count_def new_node_def dgetd_def)

lemma sequence_refines_ledger_witness: "\<exists>q. ledger_run 0 3 ''a'' (0, 0, ''initial'', 0) [Started ''a''] (1, 0, ''initial'', 0) q"
proof (rule fresh_tick)
  fix a f
  assume f: "run_sequence two_nodes [] (start_sequence plain_task [''a'']) [(sample_env, Tick)] = f" "f_phase f = Executing a"
    "f_log f = [Started ''a'']" "counters (a_state a) = (1, 0, ''initial'', 0)" "f_ids f = [''a'']" "f_pos f = 0"
  have "\<exists>q. ledger_run (retry_budget (policy_of (new_node ''a''))) 3 ''a'' (counters (dgetd (node_states plain_task) ''a'' (new_node_state ''a'')))
      (about ''a'' (f_log f)) (current f ''a'') q"
    by (rule sequence_refines_ledger [OF _ _ _ sample_limit f(1) [symmetric]]) (use f in simp_all)
  moreover have "retry_budget (policy_of (new_node ''a'')) = 0" by (simp add: retry_budget_def policy_of_def new_node_def max_auto_retry_count_def)
  moreover have "counters (dgetd (node_states plain_task) ''a'' (new_node_state ''a'')) = (0, 0, ''initial'', 0)"
    by (simp add: plain_task_def dgetd_def counters_def new_node_state_def)
  ultimately show ?thesis using f by (simp add: current_def)
qed

lemma attempts_accounted_witness:
  "\<exists>f. run_sequence two_nodes [] (start_sequence plain_task [''a'']) [(sample_env, Tick)] = f \<and>
     1 = attempt_count (own (new_node_state ''a'')) + int (length (filter (\<lambda>x. x = Started ''a'') (f_log f))) \<and>
     int (length (filter (\<lambda>x. \<exists>v. x = SentBack v ''a'') (f_log f))) \<le> max 0 (3 - reject_upstream_count (own (new_node_state ''a'')))"
proof (rule fresh_tick)
  fix a f
  assume f: "run_sequence two_nodes [] (start_sequence plain_task [''a'']) [(sample_env, Tick)] = f" "f_phase f = Executing a"
    "f_log f = [Started ''a'']" "counters (a_state a) = (1, 0, ''initial'', 0)" "f_ids f = [''a'']" "f_pos f = 0"
  have "1 = attempt_count (own (new_node_state ''a'')) + int (length (filter (\<lambda>x. x = Started ''a'') (f_log f))) \<and>
     0 \<le> max (max (automatic_retry_count (own (new_node_state ''a''))) (retry_budget (policy_of (new_node ''a'')))) 0 \<and>
     int (length (filter (\<lambda>x. \<exists>v. x = SentBack v ''a'') (f_log f))) \<le> max 0 (3 - reject_upstream_count (own (new_node_state ''a''))) \<and>
     (\<not> sent_back ''a'' (f_log f) \<longrightarrow>
        ''initial'' = next_attempt_trigger (own (new_node_state ''a'')) \<and> 0 = automatic_retry_count (own (new_node_state ''a'')) \<or>
        ''initial'' = auto_retry_trigger \<and> automatic_retry_count (own (new_node_state ''a'')) < 0)"
    by (rule attempts_accounted [OF _ _ _ sample_limit f(1) [symmetric], where trigger = "''initial''" and s = 0])
      (use f in \<open>simp_all add: plain_task_def dgetd_def current_def\<close>)
  with f(1) show ?thesis by blast
qed

lemma started_attempts_on_disk_witness:
  "attempt_count (own (dgetd (node_states (f_disk (run_sequence two_nodes [] (start_sequence plain_task [''a'']) [(sample_env, Tick)]))) ''a''
     (new_node_state ''a''))) = 1"
proof (rule fresh_tick)
  fix a f
  assume f: "run_sequence two_nodes [] (start_sequence plain_task [''a'']) [(sample_env, Tick)] = f" "f_log f = [Started ''a'']"
  show ?thesis
    using started_attempts_on_disk [where u = "''a''" and ids = "[''a'']" and d = two_nodes and disabled = "[]" and t = plain_task
        and evs = "[(sample_env, Tick)]" and f = f] f
    by (simp add: plain_task_def dgetd_def) (simp add: new_node_state_def)
qed

end
