(* ===== verification/SequenceTypes.thy ===== *)
theory SequenceTypes
  imports SequenceDisk
begin

text \<open>
  The type of what a sequence keeps in the task and writes to disk: every node state, nested ones
  included, is one the code can write and read back, so a saved task always loads.
\<close>

section \<open>States that can be written\<close>

lemma node_ok_fields: "node_ok st \<Longrightarrow> fields_ok (own st)"
  by (cases st) simp

lemma node_ok_update: "node_ok st \<Longrightarrow> fields_ok (g (own st)) \<Longrightarrow> node_ok (update_own g st)"
  by (cases st) simp

lemma node_ok_same:
  assumes "node_ok st" and "attempt_count (g (own st)) = attempt_count (own st)"
    and "automatic_retry_count (g (own st)) = automatic_retry_count (own st)" and "token_usage (g (own st)) = token_usage (own st)"
  shows "node_ok (update_own g st)"
  using assms(1) node_ok_fields [OF assms(1)] assms(2-4) by (intro node_ok_update) (simp_all add: fields_ok_def)

lemma node_ok_new: "node_ok (new_node_state u)"
  by (simp add: new_node_state_def fields_ok_def)

lemma states_ok_dput: "states_ok sts \<Longrightarrow> node_ok st \<Longrightarrow> states_ok (dput u st sts)"
  by (induction u st sts rule: dput.induct) (simp_all add: states_ok_def entry_ok_def)

lemma states_ok_dget: "states_ok sts \<Longrightarrow> dget sts u = Some st \<Longrightarrow> node_ok st"
  by (auto simp: states_ok_def list_all_iff entry_ok_def dest!: dget_Some_in)

definition writable :: "flow \<Rightarrow> bool" where
  "writable f = (states_ok (node_states (f_task f)) \<and> states_ok (node_states (f_disk f)))"

lemma writable_simps [simp]:
  "writable (ended k f) = writable f" "writable (raised y f) = writable f" "writable (advance f) = writable f"
  "writable (again f) = writable f" "writable (entered n f) = writable f" "writable (f\<lparr>f_phase := p\<rparr>) = writable f"
  "writable (f\<lparr>f_pos := i\<rparr>) = writable f" "writable (f\<lparr>f_log := l\<rparr>) = writable f"
  "writable (f\<lparr>f_task := (f_task f)\<lparr>parameter_values := pv\<rparr>\<rparr>) = writable f"
  by (simp_all add: writable_def flow_steps entered_def)

lemma writable_put: "writable f \<Longrightarrow> node_ok st \<Longrightarrow> writable (put_state u st f)"
  by (simp add: writable_def put_state_def states_ok_dput)

lemma writable_save: "writable f \<Longrightarrow> writable (save e f)"
  by (simp add: writable_def save_def Let_def)

lemma writable_state: "writable f \<Longrightarrow> state_of f u = Some st \<Longrightarrow> node_ok st"
  by (auto simp: writable_def state_of_def intro: states_ok_dget)

lemma writable_stored: "writable f \<Longrightarrow> node_ok (stored f u)"
  using writable_state [of f u] node_ok_new by (auto simp: stored_def split: option.split)

lemmas writable_intros = writable_put writable_save

section \<open>Each part of a step keeps the type\<close>

lemma ok_begin: "node_ok st \<Longrightarrow> node_ok (begin_node e d t nid st)"
  by (cases "node_inputs e d t nid st")
    (auto simp: begin_node_def begin_node_attempt_def Let_def fields_ok_def dest: node_ok_fields intro!: node_ok_update)

lemma ok_record: "node_ok st \<Longrightarrow> node_ok (record_attempt x c st)"
  by (auto simp: record_attempt_def Let_def intro!: node_ok_same)

lemma ok_retry: "prepare_node_retry tr next keep_children st = Inr st' \<Longrightarrow> node_ok st \<Longrightarrow> node_ok st'"
  by (cases st) (auto simp: prepare_node_retry_def Let_def fields_ok_def split: if_split_asm)

lemma ok_skip: "apply_failure_skip c st = Inr st' \<Longrightarrow> node_ok st \<Longrightarrow> node_ok st'"
  by (auto simp: apply_failure_skip_def split: if_split_asm intro!: node_ok_same)

lemma ok_verdict:
  assumes "failed_verdict e n st = Inr (v, st')" and "node_ok st"
  shows "node_ok st'"
  using assms(1) by (rule failed_verdict_state) (use assms(2) ok_retry ok_skip in blast)+

lemma ok_audit: "update_rejection_retry_audit e calls w st = Inr st' \<Longrightarrow> node_ok st \<Longrightarrow> node_ok st'"
  by (auto simp: update_rejection_retry_audit_def set_last_event_def bind_err_Inr_iff Let_def
      split: option.split_asm intro!: node_ok_same)

lemma ok_with_status: "node_ok st \<Longrightarrow> node_ok (with_status x st)"
  by (simp add: with_status_def node_ok_same)

lemma ok_unknown: "node_ok st \<Longrightarrow> node_ok (unknown_type_state e n st)"
  by (simp add: unknown_type_state_def node_ok_same)

lemma ok_sent_back: "sent_back_state us = Inr r \<Longrightarrow> node_ok us \<Longrightarrow> node_ok r"
  by (auto simp: sent_back_state_def policy_step_Inr intro!: node_ok_same elim!: ok_retry)

lemma ok_reset: "node_ok st \<Longrightarrow> node_ok (reset_downstream st)"
  by (simp add: reset_downstream_def node_ok_same)

text \<open>The usage of an ended attempt is never an empty dictionary.\<close>

lemma dput_nonempty: "dput k v d \<noteq> []"
  by (cases "(k, v, d)" rule: dput.cases) auto

lemma merge_models_nonempty: "merge_models e ms p = Inr m \<Longrightarrow> p \<noteq> [] \<Longrightarrow> m \<noteq> []"
proof (induction e ms p rule: merge_models.induct)
  case (2 e k v ms merged)
  then show ?case
    by (auto simp: bind_err_Inr_iff dput_nonempty split: pyval.split_asm)
qed simp

lemma ok_ledgers:
  assumes "end_ledgers e b r st = Inr st'" and "node_ok st"
  shows "node_ok st'"
proof (cases "nonempty (token_usage (own b)) \<and> session_id (own b) \<noteq> nr_session_id r")
  case True
  then obtain p where p: "token_usage (own b) = Some p" "p \<noteq> []" by (auto simp: nonempty_def split: option.split_asm)
  obtain u where u: "merge_token_usage e (token_usage (own b)) (result_usage e r) = Inr u"
    "st' = update_own (\<lambda>s. s\<lparr>token_usage := u,
       token_usage_calls := merge_token_usage_calls e (token_usage_calls (own b)) (result_calls e r)\<rparr>) st"
    using assms(1) True by (auto simp: end_ledgers_def bind_err_Inr_iff)
  have "u \<noteq> Some []"
    using u(1) p by (auto simp: merge_token_usage_def bind_err_Inr_iff dest: merge_models_nonempty
        split: option.split_asm list.split_asm if_split_asm)
  then show ?thesis using assms(2) node_ok_fields [OF assms(2)] unfolding u(2) by (intro node_ok_update) (simp_all add: fields_ok_def)
next
  case False
  then have "st' = update_own (\<lambda>s. s\<lparr>
      token_usage := if nonempty (result_usage e r) then result_usage e r else token_usage s,
      token_usage_calls := if result_calls e r \<noteq> [] then result_calls e r else token_usage_calls s\<rparr>) st"
    using assms(1) by (simp only: end_ledgers_def if_False sum.inject)
  moreover have "result_usage e r \<noteq> Some []" if "nonempty (result_usage e r)" using that by (auto simp: nonempty_def)
  ultimately show ?thesis using assms(2) node_ok_fields [OF assms(2)] by (auto simp: fields_ok_def intro!: node_ok_update)
qed

lemma ok_end_fields: "node_ok st \<Longrightarrow> node_ok (end_fields e r st)"
  by (simp add: end_fields_def node_ok_same)

lemma ok_mutations: "end_mutations e b st r = Inr st' \<Longrightarrow> node_ok st \<Longrightarrow> node_ok st'"
  using ok_ledgers ok_end_fields by (fastforce simp: end_mutations_def bind_err_Inr_iff intro: node_ok_same)

lemma ok_finish: "finish_node e b st r = Inr st' \<Longrightarrow> node_ok st \<Longrightarrow> node_ok st'"
  using ok_mutations ok_record by (fastforce simp: finish_node_def bind_err_Inr_iff)

lemma ok_plugin_update: "node_ok st \<Longrightarrow> list_all (\<lambda>p. node_ok (snd p)) (child_states w) \<Longrightarrow> node_ok (plugin_update w st)"
  using node_ok_fields [of st] by (simp add: plugin_update_def fields_ok_def)

lemma writable_after_failure: "writable f \<Longrightarrow> node_ok st \<Longrightarrow> writable (after_failure e n st f)"
  by (rule after_failure_cases [of e n st f]) (auto intro!: writable_intros dest: ok_verdict)

lemma writable_approval: "writable f \<Longrightarrow> node_ok st \<Longrightarrow> writable (approval_rejected e n st f)"
  by (auto simp: approval_rejected_def over_limit_def Let_def split: option.split
      intro!: writable_intros node_ok_same dest: writable_state)

lemma writable_by_status: "writable f \<Longrightarrow> node_ok st \<Longrightarrow> writable (by_status e n st f)"
  by (simp add: by_status_def writable_after_failure writable_approval writable_save)

lemma writable_after_retry:
  assumes "writable f" and "node_ok down" and "node_ok st"
  shows "writable (after_retry e nid un down calls st f)"
proof (cases "update_rejection_retry_audit e calls (will_auto_retry un st) st")
  case (Inr st')
  have st': "node_ok st'" using ok_audit [OF Inr assms(3)] .
  have f: "writable (put_state nid (reset_downstream down) (put_state (n_id un) st' f))"
    using assms st' by (intro writable_put ok_reset)
  show ?thesis
  proof (cases "failed_verdict e un st'")
    case fv: (Inr p)
    obtain v st2 where p: "p = (v, st2)" by force
    have "node_ok st2" using ok_verdict [OF fv [unfolded p] st'] .
    then show ?thesis using f Inr fv p assms(2)
      by (cases v) (auto simp: after_retry_def apply_failed_node_policy_def Let_def intro!: writable_intros node_ok_same ok_reset)
  qed (use f Inr in \<open>auto simp: after_retry_def apply_failed_node_policy_def Let_def intro!: writable_save\<close>)
qed (use assms(1) in \<open>simp add: after_retry_def\<close>)

lemma writable_opened:
  assumes "open_attempt e d w st calls f = (a, f')" and "writable f" and "node_ok st"
  shows "writable f'" "node_ok (a_state a)" "node_ok (a_pre a)"
  using assms by (auto simp: open_attempt_def Let_def intro!: writable_intros ok_begin)

section \<open>The machine\<close>

definition well_typed :: "flow \<Rightarrow> bool" where
  "well_typed f =
     (writable f \<and>
      (case f_phase f of
         Executing a \<Rightarrow> node_ok (a_state a) \<and> node_ok (a_pre a)
       | Retrying u a down \<Rightarrow> node_ok (a_state a) \<and> node_ok down
       | _ \<Rightarrow> True))"

lemma well_typed_stopped: "stopped_phase (f_phase f) \<Longrightarrow> well_typed f = writable f"
  by (auto simp: well_typed_def stopped_phase_def split: phase.splits)

lemma well_typed_redo:
  assumes "writable f" and "node_ok st"
  shows "well_typed (redo_upstream e d n u st f)"
proof (rule redo_upstream_cases [of d n u e st f], goal_cases)
  case 1
  then show ?case using assms by (simp add: well_typed_stopped phase_by_status writable_by_status)
next
  case (4 us un r a f2)
  have r: "node_ok r" using ok_sent_back [OF 4(4) writable_state [OF assms(1) 4(2)]] .
  have "writable (save e (put_state (target_of d n u) r f))" using assms(1) r by (intro writable_intros)
  then show ?case using 4(6) writable_opened [OF 4(5)] r assms(2) by (simp add: well_typed_def)
next
  case (5 us un r)
  have r: "node_ok r" using ok_sent_back [OF 5(4) writable_state [OF assms(1) 5(2)]] .
  have "writable (put_state (target_of d n u) (unknown_type_state e un r) (save e (put_state (target_of d n u) r f)))"
    using assms(1) r by (intro writable_intros ok_unknown)
  then show ?case using 5(5) r assms(2)
    by (simp add: well_typed_stopped phase_after_retry writable_after_retry ok_unknown)
qed (use assms in \<open>simp_all add: well_typed_def\<close>)

lemma well_typed_after_attempt:
  assumes "writable f" and "node_ok st"
  shows "well_typed (after_attempt e d n calls rejected st f)"
proof (rule after_attempt_cases [of e d n calls rejected st f], goal_cases)
  case (1 x)
  then show ?case using assms by (simp add: well_typed_def writable_put)
next
  case (2 st')
  then show ?case using assms ok_audit [OF 2(1) assms(2)]
    by (simp add: well_typed_stopped phase_by_status writable_by_status writable_put)
next
  case (3 st' w)
  then show ?case using assms ok_audit [OF 3(1) assms(2)] by (simp add: well_typed_redo writable_put)
qed

lemma well_typed_tick:
  assumes "writable f"
  shows "well_typed (tick e d disabled f)"
proof -
  have start: "well_typed (start_node_of_sequence e d n f)" for n
  proof -
    let ?st = "with_status ''running'' (entry_state n f)"
    have st: "node_ok ?st" using writable_stored [OF assms] by (simp add: stored_entry ok_with_status)
    then have g: "writable (put_state (n_id n) ?st (entered n f))" using assms by (intro writable_put) simp_all
    show ?thesis
    proof (rule start_cases [of e d n f], goal_cases)
      case (2 a f2)
      then show ?case using writable_opened [OF 2(1) g st] by (simp add: well_typed_def)
    next
      case 3
      then show ?case using g st by (simp add: well_typed_after_attempt ok_unknown)
    qed (use g in \<open>simp add: well_typed_def\<close>)
  qed
  show ?thesis
  proof (cases "f_pos f < length (f_ids f)")
    case True
    let ?nid = "f_ids f ! f_pos f"
    show ?thesis
    proof (cases "get_node d ?nid")
      case (Some n)
      have s: "node_ok (dgetd (node_states (f_task f)) ?nid (new_node_state ?nid))"
        using writable_stored [OF assms, of ?nid] by (simp add: stored_def state_of_def dgetd_def)
      show ?thesis using True Some s assms start writable_state [OF assms, of ?nid]
        by (auto simp: tick_def Let_def well_typed_stopped stopped_phase_def split: option.split
            intro!: writable_intros node_ok_same)
    qed (use True assms in \<open>simp add: tick_def well_typed_def\<close>)
  qed (use assms in \<open>simp add: tick_def well_typed_def\<close>)
qed

lemma well_typed_writes:
  assumes "plugin_writes e nid w cp a f = (a', f')" and "writable f" and "node_ok (a_state a)"
    and "list_all (\<lambda>p. node_ok (snd p)) (child_states w)"
  shows "writable f'" "node_ok (a_state a')" "a_pre a' = a_pre a"
  using assms by (auto simp: plugin_writes_def Let_def split: if_split_asm intro!: writable_intros ok_plugin_update)

lemma well_typed_end:
  assumes "end_attempt e nid a r f = (res, f')" and "writable f" and "node_ok (a_state a)"
  shows "writable f'" "res = Inr st \<Longrightarrow> node_ok st"
proof -
  have left: "node_ok (case end_mutations e (a_begun a) (a_state a) r of Inl _ \<Rightarrow> end_fields e r (a_state a) | Inr st \<Rightarrow> st)"
    using assms(3) ok_mutations [OF _ assms(3)] ok_end_fields by (auto split: sum.split)
  then have "writable (if a_attached a then put_state nid (case end_mutations e (a_begun a) (a_state a) r of
      Inl _ \<Rightarrow> end_fields e r (a_state a) | Inr st \<Rightarrow> st) f else f)" (is "writable ?g")
    using assms(2) by (simp add: writable_put)
  moreover have "\<exists>pv. f' = ?g \<or> f' = ?g\<lparr>f_task := (f_task ?g)\<lparr>parameter_values := pv\<rparr>\<rparr>"
    using assms(1) unfolding end_attempt_def Let_def by (auto split: sum.split_asm option.split_asm)
  ultimately show "writable f'" by (auto simp only: writable_simps)
  show "node_ok st" if "res = Inr st"
  proof -
    have "finish_node e (a_begun a) (a_state a) r = Inr st"
      using assms(1) that by (auto simp: end_attempt_def Let_def split: sum.split_asm option.split_asm)
    then show ?thesis using ok_finish assms(3) by blast
  qed
qed

text \<open>What plugins and branches put in is of the type.\<close>

definition event_ok :: "seq_event \<Rightarrow> bool" where
  "event_ok x =
     (case x of
        PluginWrites w _ \<Rightarrow> list_all (\<lambda>p. node_ok (snd p)) (child_states w)
      | Outside sts _ _ \<Rightarrow> states_ok sts
      | _ \<Rightarrow> True)"

lemma well_typed_executing:
  assumes "well_typed f" and "f_phase f = Executing a" and "event_ok x"
  shows "well_typed (executing_step d e n a x f)"
proof -
  have f: "writable f" "node_ok (a_state a)" "node_ok (a_pre a)" using assms(1,2) by (simp_all add: well_typed_def)
  show ?thesis
  proof (cases x)
    case (PluginWrites w cp)
    obtain a' f' where p: "plugin_writes e (n_id n) w cp a f = (a', f')" by force
    have "list_all (\<lambda>p. node_ok (snd p)) (child_states w)" using assms(3) PluginWrites by (simp add: event_ok_def)
    note q = well_typed_writes [OF p f(1,2) this]
    show ?thesis using PluginWrites p q f(3) by (simp add: executing_step_def well_typed_def)
  next
    case (RejectUpstream reason target)
    have c: "node_ok (count_rejection us)" if "node_ok us" for us using that by (simp add: count_rejection_def node_ok_same)
    have b: "node_ok (send_back e f nid up pr m reason (count_rejection us))" if "node_ok us" for nid up pr m us
      using c [OF that] by (simp add: send_back_def node_ok_same)
    show ?thesis
    proof (cases "reject_check d n a target f")
      case (Inr q)
      show ?thesis
      proof (cases q)
        case q: (Inr p)
        obtain up us m where p: "reject_check d n a target f = Inr (Inr (up, us, m))" using Inr q by (cases p) auto
        have us: "node_ok us" using writable_state [OF f(1) reject_check_Inr(2) [OF p]] .
        show ?thesis using RejectUpstream p f c [OF us] b [OF us]
          by (cases "prior_rejections us")
            (auto simp: executing_step_def on_reject_upstream_def Let_def well_typed_def intro!: writable_put)
      qed (use RejectUpstream Inr f in \<open>simp add: executing_step_def on_reject_upstream_def well_typed_def\<close>)
    qed (use RejectUpstream f in \<open>simp add: executing_step_def on_reject_upstream_def well_typed_def\<close>)
  next
    case (PluginReturns r)
    obtain z f' where z: "end_attempt e (n_id n) a r f = (z, f')" by force
    note q = well_typed_end [OF z f(1,2)]
    show ?thesis using PluginReturns z q
      by (cases z) (simp_all add: executing_step_def well_typed_after_attempt well_typed_def [of "raised _ _"])
  qed (use assms(1) in \<open>simp_all add: executing_step_def\<close>)
qed

lemma well_typed_retrying:
  assumes "well_typed f" and "f_phase f = Retrying u a down" and "event_ok x"
  shows "well_typed (retrying_step e nid un a down x f)"
proof -
  have f: "writable f" "node_ok (a_state a)" "node_ok down" using assms(1,2) by (simp_all add: well_typed_def)
  show ?thesis
  proof (cases x)
    case (PluginWrites w cp)
    obtain a' f' where p: "plugin_writes e (n_id un) w cp a f = (a', f')" by force
    have "list_all (\<lambda>p. node_ok (snd p)) (child_states w)" using assms(3) PluginWrites by (simp add: event_ok_def)
    note q = well_typed_writes [OF p f(1,2) this]
    show ?thesis using PluginWrites p q f(3) by (simp add: retrying_step_def well_typed_def)
  next
    case (PluginReturns r)
    obtain z f' where z: "end_attempt e (n_id un) a r f = (z, f')" by force
    note q = well_typed_end [OF z f(1,2)]
    show ?thesis
    proof (cases z)
      case (Inl y)
      show ?thesis using PluginReturns z q(1) Inl by (simp add: retrying_step_def well_typed_def)
    next
      case (Inr st)
      have "well_typed (after_retry e nid un down (a_calls a) st f')"
        using writable_after_retry [OF q(1) f(3) q(2) [OF Inr], of e nid un "a_calls a"]
          well_typed_stopped [OF phase_after_retry, of e nid un down "a_calls a" st f'] by blast
      then show ?thesis using PluginReturns z Inr by (simp add: retrying_step_def)
    qed
  qed (use assms(1) in \<open>simp_all add: retrying_step_def\<close>)
qed

lemma well_typed_step:
  assumes "well_typed f" and "event_ok x"
  shows "well_typed (seq_step d disabled f (e, x))"
proof (rule seq_step_cases [of d disabled f e x], goal_cases)
  case (2 sts pv b)
  have p: "writable (fold (\<lambda>(u, st). if u \<in> W then id else put_state u st) sts g)" if "writable g" "states_ok sts" for W sts g
    using that
  proof (induction sts arbitrary: g)
    case (Cons p sts)
    obtain u st where e: "p = (u, st)" by force
    have "node_ok st" "states_ok sts" using Cons.prems(2) e by (simp_all add: states_ok_def entry_ok_def)
    then show ?case using Cons.IH Cons.prems(1) e by (simp add: writable_put)
  qed simp
  have "writable (outside e sts pv b f)"
    using p [of f sts] assms 2(1) by (auto simp: outside_def Let_def well_typed_def event_ok_def intro!: writable_save)
  then show ?case using 2(2) assms(1) by (cases "f_phase f") (simp_all add: well_typed_def outside_form(4))
next
  case 3
  then show ?case using assms(1) by (simp add: well_typed_tick well_typed_def [of f])
next
  case (4 a n)
  then show ?case using well_typed_executing [OF assms(1) 4(1) assms(2)] by simp
next
  case (5 u a down un)
  then show ?case using well_typed_retrying [OF assms(1) 5(1) assms(2)] by simp
qed (use assms in simp)

text \<open>
  C14. The state keeps its type: started from a task that can be written, and while plugins and other
  branches put in states that can, every state a run reaches can be written, and the task on
  disk, read back at any moment, is the task that was saved.
\<close>

theorem saved_task_loads:
  assumes "states_ok (node_states t)" and "\<forall>ev\<in>set evs. event_ok (snd ev)" and "f = run_sequence d disabled (start_sequence t ids) evs"
  shows "task_from_dict fresh_id now (task_to_dict (f_disk f)) = Some (f_disk f) \<and> states_ok (node_states (f_task f))"
proof -
  have run: "well_typed (run_sequence d disabled g evs)" if "well_typed g" "\<forall>ev\<in>set evs. event_ok (snd ev)" for g evs
    using that
  proof (induction evs arbitrary: g)
    case (Cons ev evs)
    have "well_typed (seq_step d disabled g (fst ev, snd ev))" using Cons.prems by (intro well_typed_step) auto
    then show ?case using Cons.IH Cons.prems(2) by simp
  qed simp
  have "well_typed (start_sequence t ids)" using assms(1) by (simp add: well_typed_def writable_def start_sequence_def)
  then have "writable f" using run assms(2,3) by (auto simp: well_typed_def)
  then show ?thesis using task_codec.dec_enc by (simp add: writable_def)
qed

lemma finished_ok: "states_ok (node_states finished_task)"
  by code_simp

lemma saved_task_loads_witness:
  "task_from_dict ''x'' ''y'' (task_to_dict (f_disk (run_sequence two_nodes [] (start_sequence finished_task [''a'']) [(sample_env, Tick)]))) =
     Some (f_disk (run_sequence two_nodes [] (start_sequence finished_task [''a'']) [(sample_env, Tick)]))"
  by (rule saved_task_loads [OF finished_ok _ refl, THEN conjunct1]) (simp add: event_ok_def)

end
