(* ===== verification/Spec2Isabelle.thy ===== *)
theory Spec2Isabelle
  imports ConditionParser WorkflowValidate ExecutorServer TaskControl SequenceTypes
begin

text \<open>
  A verification library for the workflow engine of DeterminFlow (\<open>src/workflow\<close>).

  \<^bold>\<open>The program.\<close> A workflow is a graph of nodes and gateways (\<open>definition.py\<close>). It is
  validated, turned into an execution plan, and run as a task: the manager (\<open>manager.py\<close>,
  \<open>task_recovery.py\<close>) starts, stops and recovers tasks, which are files; the engine (\<open>engine.py\<close>,
  \<open>execution_flow.py\<close>) runs their nodes one attempt after the other under a failure policy
  (\<open>failure_policy.py\<close>). A Controller hands tasks to executor processes over a line protocol on
  loopback sockets (\<open>executor_*.py\<close>, \<open>execution_routing.py\<close>), and a persistent switch stops new
  tasks for a release (\<open>execution_control.py\<close>).

  \<^bold>\<open>Foundations.\<close> \<open>Prelude\<close>: exceptions as sums (\<open>bind_err\<close>), dictionaries in insertion order, and
  the interfaces \<open>machine\<close> (a step function with an invariant) and \<open>codec\<close> (\<open>to_dict\<close> and
  \<open>from_dict\<close>). \<open>PyText\<close>, \<open>PyFloat\<close>, \<open>PyValue\<close>: Python's strings, binary64 numbers and dynamic
  values. \<open>Json\<close>: the standard library's \<open>json\<close> on text and bytes, with its round trip
  (\<open>frames: codec\<close>).

  \<^bold>\<open>The workflow.\<close>
  \<^item> \<open>ConditionParser\<close> (\<open>condition_parser.py\<close>): lexer, recursive descent and evaluation of branch
    conditions; equivalent to a grammar, and total.
  \<^item> \<open>VariableResolution\<close> (\<open>variable_resolution.py\<close>): loop expressions and nested placeholders; what
    acyclic values resolve to, and an input on which the loop does not end.
  \<^item> \<open>WorkflowModel\<close>, \<open>WorkflowGraph\<close>, \<open>ExecutionPlan\<close>, \<open>WorkflowValidate\<close> (\<open>definition.py\<close>): the
    documents (interpretations of \<open>codec\<close> for nodes, edges, gateways, variables, schemes and
    definitions); the searches over edges, one locale \<open>graph_search\<close> interpreted for the
    breadth-first and the depth-first loop; gateway pairing and convergence; the execution plan; the
    rules of validation and what an accepted workflow guarantees.
  \<^item> \<open>RuntimeModels\<close> (\<open>runtime_models.py\<close>): node states, runs and tasks with their documents.

  \<^bold>\<open>Running nodes.\<close>
  \<^item> \<open>FailurePolicy\<close> (\<open>failure_policy.py\<close>): attempts, retries and skips as a machine on the state of
    one node; interpreted three times for the budget, the history and the frozen inputs. The retries that
    happen and the attempts that end are counted apart from the fields of the state, and the
    theorems compare the two.
  \<^item> \<open>NodeExecution\<close> (\<open>engine.py\<close>): the inputs of an attempt, its start, its end, the merging of token
    ledgers. A retry replays its inputs; variables come from the nodes before a node.
  \<^item> \<open>NodeSequence\<close> (\<open>_execute_node_sequence\<close> of \<open>execution_flow.py\<close>): the loop over a list of nodes as
    a machine. \<open>flow\<close> holds the task in memory, the task on disk, the position, the phase and a log of
    what is visible outside; the events are a turn of the loop, what the plugin does (writes,
    checkpoints, sending a node back, its result) and the steps of other branches, which are taken
    to leave the nodes of this sequence alone. Case rules
    (\<open>tick_cases\<close>, \<open>after_attempt_cases\<close>, \<open>redo_upstream_cases\<close> and others) describe each part of a step
    once; the proofs of \<open>SequenceRuns\<close> (nothing is redone, completion), \<open>SequenceLedger\<close> (number of
    starts; refinement of an abstract ledger of attempts, retries and rejections, in which the budget
    of retries is renewed only against a rejection not used up), \<open>SequenceDisk\<close>
    (a crash forgets no attempt; what rejections get wrong; an example of each) and \<open>SequenceTypes\<close>
    (a saved task always loads) go over these cases.

  \<^bold>\<open>Tasks.\<close>
  \<^item> \<open>ExecutionControl\<close> (\<open>execution_control.py\<close>): the control file byte for byte; a damaged file
    stops new tasks. \<open>ExecutionRouting\<close> (\<open>execution_routing.py\<close>): ownership and delegation.
  \<^item> \<open>TaskRecovery\<close> (\<open>task_recovery.py\<close>): what a restart does to node states; idempotent, and every
    open attempt is closed.
  \<^item> \<open>TaskManager\<close>, \<open>TaskTimers\<close>, \<open>TaskControl\<close> (\<open>manager.py\<close>, \<open>task_recovery.py\<close>): starting, stopping,
    manual retry and skip, timers with generations, recovery of all tasks, as one machine
    (\<open>task_manager: machine\<close>); a task starts only when admitted, a stop is final, a node control acts
    once, a scheduled retry fires, and once a timer is cancelled or replaced its worker never acts again.

  \<^bold>\<open>Executors.\<close>
  \<^item> \<open>ExecutorProtocol\<close> (\<open>executor_protocol.py\<close>, \<open>executor_client.py\<close>, \<open>executor_transport.py\<close>): frames,
    their checks, requests and answers, endpoint files, the blocking read loop.
  \<^item> \<open>ExecutorServer\<close> (\<open>executor_server.py\<close>, \<open>executor_events.py\<close>): dispatch of byte streams, counters
    (\<open>rpc_server: machine\<close>), event receiver and forwarder.
  \<^item> \<open>ExecutorStatus\<close> (\<open>executor_observability.py\<close>): sanitised snapshots. \<open>ExecutorPool\<close>
    (\<open>executor_pool.py\<close>, \<open>executor_lease.py\<close>): leases, state file, start, stop and selection.

  \<^bold>\<open>Termination.\<close> Loops over finite data are functions with a measure. The condition parser and the
  \<open>json\<close> reader carry fuel: \<open>parse_fuel\<close>, six times the number of tokens and six, is shown to be enough
  for every text (\<open>compound_total\<close>), and the reader's fuel for every text that \<open>dumps\<close> writes. The
  placeholder loop, which may not end, has the value \<open>None\<close> then.

  \<^bold>\<open>Parameters.\<close> Code outside the repository and the surroundings are arguments: clocks, fresh
  identifiers, the iteration order of sets, what files, sockets and locks answer, the parser of ISO
  dates, the repr of a value, the sum of floats, and what plugins do. Text is limited to code points
  below 256; messages in Chinese are constructors or given in English. Asyncio code is modelled at
  the granularity of its awaits; operations under a lock are one step.

  \<^bold>\<open>Not modelled.\<close> In \<open>execution_flow.py\<close> and \<open>execution_loop.py\<close>: plan segments, the joining of
  branches, condition gateways and loops. In \<open>engine.py\<close>: \<open>execute_task\<close>, the legacy \<open>execute\<close>
  and run record files. In \<open>variable_resolution.py\<close>: the file and JSON phases of placeholders. In
  \<open>output_validation.py\<close>: the reading of agent output, which repairs text with a library. In
  \<open>manager.py\<close>: the storage of definitions and schemes and the creation of tasks. Node plugins,
  agent sessions, model clients, executor processes and the web layer are input and output of
  libraries around this core.
\<close>

end
